(* ===== verification/Prelude.thy ===== *)
theory Prelude
  imports Main "HOL-Library.Word" "HOL-Library.Code_Target_Numeral"
begin

text \<open>
  What the components of the model share: the reasons why the modelled process may stop
  (a failed \<^verbatim>\<open>assert\<close>, a read outside an array, an \<^verbatim>\<open>abort()\<close>), C strings and
  their bounds-checked indexing, single-bit flags in machine words, and the collections of
  facts that the component proofs use.
\<close>

unbundle bit_operations_syntax

section \<open>Collections of facts\<close>

named_theorems step_defs \<open>definitions of the cases of the parser's switch\<close>
named_theorems wp_rules \<open>rules that push a postcondition through the parser's macros\<close>
named_theorems spec_simps \<open>characterisations of tables and character classes\<close>

section \<open>Why the process may stop\<close>

text \<open>
  \<open>Assertion\<close> is a failed \<^verbatim>\<open>assert\<close> of the C code, \<open>Out_of_bounds\<close> is a read
  through a pointer or index outside its array (undefined behaviour in C), \<open>Process_abort\<close>
  is an explicit \<^verbatim>\<open>abort()\<close>.
\<close>

datatype abort_reason = Assertion | Out_of_bounds | Process_abort

type_synonym 'a checked = "abort_reason + 'a"

definition checked_bind :: "'a checked \<Rightarrow> ('a \<Rightarrow> 'b checked) \<Rightarrow> 'b checked" where
  "checked_bind m f = (case m of Inl r \<Rightarrow> Inl r | Inr x \<Rightarrow> f x)"

lemma checked_bind_simps [simp]:
  "checked_bind (Inl r) f = Inl r"
  "checked_bind (Inr x) f = f x"
  by (simp_all add: checked_bind_def)

lemma checked_bind_Inr:
  "checked_bind m f = Inr y \<longleftrightarrow> (\<exists>x. m = Inr x \<and> f x = Inr y)"
  by (cases m) auto

section \<open>C characters and strings\<close>

text \<open>
  A C \<^verbatim>\<open>char\<close> is a value of type \<^typ>\<open>char\<close>; \<open>uchar\<close> is the conversion to
  \<^verbatim>\<open>unsigned char\<close>. A string literal of the C code is stored with its terminating
  NUL: index \<open>i\<close> may be read for \<open>i \<le> length s\<close>, every other index is out of bounds.
\<close>

abbreviation uchar :: "char \<Rightarrow> nat" where
  "uchar c \<equiv> of_char c"

abbreviation NUL :: char where
  "NUL \<equiv> CHR 0x00"

definition c_str_at :: "string \<Rightarrow> nat \<Rightarrow> char checked" where
  "c_str_at s i =
     (if i < length s then Inr (s ! i)
      else if i = length s then Inr NUL
      else Inl Out_of_bounds)"

lemma c_str_at_in_bounds: "i \<le> length s \<Longrightarrow> \<exists>c. c_str_at s i = Inr c"
  by (simp add: c_str_at_def)

lemma c_str_at_nth [simp]: "i < length s \<Longrightarrow> c_str_at s i = Inr (s ! i)"
  by (simp add: c_str_at_def)

lemma c_str_at_end [simp]: "c_str_at s (length s) = Inr NUL"
  by (simp add: c_str_at_def)

text \<open>
  A fact about every character follows from the 256 cases, which \<open>code_simp\<close> evaluates.
\<close>

lemma all_chars: "(\<forall>n \<in> set [0..<256]. P (char_of n)) \<Longrightarrow> P (c :: char)"
proof -
  assume *: "\<forall>n \<in> set [0..<256]. P (char_of n)"
  have "uchar c \<in> set [0..<256]" by simp
  with * have "P (char_of (uchar c))" by blast
  then show "P c" by simp
qed

section \<open>Single-bit flags in machine words\<close>

definition bit_flag :: "nat \<Rightarrow> 'a :: len word" where
  "bit_flag k = push_bit k 1"

definition test_flag :: "'a :: len word \<Rightarrow> nat \<Rightarrow> bool" where
  "test_flag w k \<longleftrightarrow> w AND bit_flag k \<noteq> 0"

lemma test_flag_bit: "test_flag w k \<longleftrightarrow> bit w k"
  for w :: "'a :: len word"
proof -
  have "w AND bit_flag k = (if bit w k then bit_flag k else 0)"
    by (rule bit_eqI) (auto simp: bit_flag_def bit_simps)
  moreover have "bit_flag k \<noteq> (0 :: 'a word)" if "bit w k"
  proof -
    from that have "k < LENGTH('a)" by (simp add: bit_imp_le_length)
    then have "bit (bit_flag k :: 'a word) k" by (simp add: bit_flag_def bit_simps)
    then show ?thesis by auto
  qed
  ultimately show ?thesis by (simp add: test_flag_def)
qed

lemma test_flag_zero [simp]: "\<not> test_flag 0 k"
  by (simp add: test_flag_def)

lemma test_flag_or [simp]:
  "test_flag (w OR bit_flag j :: 'a :: len word) k \<longleftrightarrow>
     test_flag w k \<or> (k = j \<and> j < LENGTH('a))"
  by (auto simp: test_flag_bit bit_flag_def bit_simps)

end
