(* ===== verification/Http_Chars.thy ===== *)
theory Http_Chars
  imports Prelude
begin

text \<open>
  The character tables and character-class macros of
  \<^verbatim>\<open>src/lib/http-parser/http_parser.c\<close>, compiled with
  \<^verbatim>\<open>HTTP_PARSER_STRICT = 1\<close> (the default of \<^verbatim>\<open>http_parser.h\<close>), and for each of
  them a closed characterisation over all 256 characters, which the parser proofs use in
  place of the tables.
\<close>

section \<open>Tables\<close>

text \<open>
  The C initialisers give the first 128 (for \<open>normal_url_char\<close>: 16) elements; C fills the
  rest of a partially initialised array with 0. The tables below spell that out.
\<close>

definition tokens :: "char list" where
  "tokens = concat [
     [NUL, NUL, NUL, NUL, NUL, NUL, NUL, NUL],
     [NUL, NUL, NUL, NUL, NUL, NUL, NUL, NUL],
     [NUL, NUL, NUL, NUL, NUL, NUL, NUL, NUL],
     [NUL, NUL, NUL, NUL, NUL, NUL, NUL, NUL],
     '' !'' @ [NUL] @ ''#$%&'' @ [CHR 0x27],
     [NUL, NUL] @ ''*+'' @ [NUL] @ ''-.'' @ [NUL],
     ''01234567'',
     ''89'' @ [NUL, NUL, NUL, NUL, NUL, NUL],
     [NUL] @ ''abcdefg'',
     ''hijklmno'',
     ''pqrstuvw'',
     ''xyz'' @ [NUL, NUL, NUL] @ ''^_'',
     [CHR 0x60] @ ''abcdefg'',
     ''hijklmno'',
     ''pqrstuvw'',
     ''xyz'' @ [NUL] @ ''|'' @ [NUL] @ ''~'' @ [NUL]] @ replicate 128 NUL"

definition unhex :: "int list" where
  "unhex = [
     -1, -1, -1, -1, -1, -1, -1, -1, -1, -1, -1, -1, -1, -1, -1, -1,
     -1, -1, -1, -1, -1, -1, -1, -1, -1, -1, -1, -1, -1, -1, -1, -1,
     -1, -1, -1, -1, -1, -1, -1, -1, -1, -1, -1, -1, -1, -1, -1, -1,
     0, 1, 2, 3, 4, 5, 6, 7, 8, 9, -1, -1, -1, -1, -1, -1,
     -1, 10, 11, 12, 13, 14, 15, -1, -1, -1, -1, -1, -1, -1, -1, -1,
     -1, -1, -1, -1, -1, -1, -1, -1, -1, -1, -1, -1, -1, -1, -1, -1,
     -1, 10, 11, 12, 13, 14, 15, -1, -1, -1, -1, -1, -1, -1, -1, -1,
     -1, -1, -1, -1, -1, -1, -1, -1, -1, -1, -1, -1, -1, -1, -1, -1] @ replicate 128 0"

definition normal_url_char :: "8 word list" where
  "normal_url_char = [
     0 OR 0 OR 0 OR 0 OR 0 OR 0 OR 0 OR 0,
     0 OR 0 OR 0 OR 0 OR 0 OR 0 OR 0 OR 0,
     0 OR 0 OR 0 OR 0 OR 0 OR 0 OR 0 OR 0,
     0 OR 0 OR 0 OR 0 OR 0 OR 0 OR 0 OR 0,
     0 OR 2 OR 4 OR 0 OR 16 OR 32 OR 64 OR 128,
     1 OR 2 OR 4 OR 8 OR 16 OR 32 OR 64 OR 128,
     1 OR 2 OR 4 OR 8 OR 16 OR 32 OR 64 OR 128,
     1 OR 2 OR 4 OR 8 OR 16 OR 32 OR 64 OR 0,
     1 OR 2 OR 4 OR 8 OR 16 OR 32 OR 64 OR 128,
     1 OR 2 OR 4 OR 8 OR 16 OR 32 OR 64 OR 128,
     1 OR 2 OR 4 OR 8 OR 16 OR 32 OR 64 OR 128,
     1 OR 2 OR 4 OR 8 OR 16 OR 32 OR 64 OR 128,
     1 OR 2 OR 4 OR 8 OR 16 OR 32 OR 64 OR 128,
     1 OR 2 OR 4 OR 8 OR 16 OR 32 OR 64 OR 128,
     1 OR 2 OR 4 OR 8 OR 16 OR 32 OR 64 OR 128,
     1 OR 2 OR 4 OR 8 OR 16 OR 32 OR 64 OR 0] @ replicate 16 0"

section \<open>Macros\<close>

abbreviation CR :: char where "CR \<equiv> CHR 0x0D"
abbreviation LF :: char where "LF \<equiv> CHR 0x0A"
abbreviation HT :: char where "HT \<equiv> CHR 0x09"
abbreviation FF :: char where "FF \<equiv> CHR 0x0C"
abbreviation SP :: char where "SP \<equiv> CHR 0x20"

text \<open>\<^verbatim>\<open>LOWER(c)\<close> is \<^verbatim>\<open>(unsigned char)(c | 0x20)\<close>.\<close>

definition LOWER :: "char \<Rightarrow> char" where
  "LOWER c = char_of (uchar c OR 0x20)"

definition IS_ALPHA :: "char \<Rightarrow> bool" where
  "IS_ALPHA c \<longleftrightarrow> uchar (LOWER c) \<ge> uchar CHR ''a'' \<and> uchar (LOWER c) \<le> uchar CHR ''z''"

definition IS_NUM :: "char \<Rightarrow> bool" where
  "IS_NUM c \<longleftrightarrow> uchar c \<ge> uchar CHR ''0'' \<and> uchar c \<le> uchar CHR ''9''"

definition IS_ALPHANUM :: "char \<Rightarrow> bool" where
  "IS_ALPHANUM c \<longleftrightarrow> IS_ALPHA c \<or> IS_NUM c"

definition IS_HEX :: "char \<Rightarrow> bool" where
  "IS_HEX c \<longleftrightarrow>
     IS_NUM c \<or> (uchar (LOWER c) \<ge> uchar CHR ''a'' \<and> uchar (LOWER c) \<le> uchar CHR ''f'')"

definition IS_MARK :: "char \<Rightarrow> bool" where
  "IS_MARK c \<longleftrightarrow>
     c = CHR ''-'' \<or> c = CHR ''_'' \<or> c = CHR ''.'' \<or> c = CHR ''!'' \<or> c = CHR ''~'' \<or>
     c = CHR ''*'' \<or> c = CHR 0x27 \<or> c = CHR ''('' \<or> c = CHR '')''"

definition IS_USERINFO_CHAR :: "char \<Rightarrow> bool" where
  "IS_USERINFO_CHAR c \<longleftrightarrow>
     IS_ALPHANUM c \<or> IS_MARK c \<or> c = CHR ''%'' \<or> c = CHR '';'' \<or> c = CHR '':'' \<or>
     c = CHR ''&'' \<or> c = CHR ''='' \<or> c = CHR ''+'' \<or> c = CHR ''$'' \<or> c = CHR '',''"

definition STRICT_TOKEN :: "char \<Rightarrow> char" where
  "STRICT_TOKEN c = (if c = SP then NUL else tokens ! uchar c)"

definition TOKEN :: "char \<Rightarrow> char" where
  "TOKEN c = STRICT_TOKEN c"

text \<open>
  \<^verbatim>\<open>BIT_AT(a, i)\<close>: bit \<^verbatim>\<open>i & 7\<close> of the byte \<^verbatim>\<open>a[i >> 3]\<close>.
\<close>

definition BIT_AT :: "8 word list \<Rightarrow> nat \<Rightarrow> bool" where
  "BIT_AT a i \<longleftrightarrow> test_flag (a ! (i div 8)) (i mod 8)"

definition IS_URL_CHAR :: "char \<Rightarrow> bool" where
  "IS_URL_CHAR c \<longleftrightarrow> BIT_AT normal_url_char (uchar c)"

definition IS_HOST_CHAR :: "char \<Rightarrow> bool" where
  "IS_HOST_CHAR c \<longleftrightarrow> IS_ALPHANUM c \<or> c = CHR ''.'' \<or> c = CHR ''-''"

definition IS_HEADER_CHAR :: "char \<Rightarrow> bool" where
  "IS_HEADER_CHAR ch \<longleftrightarrow>
     ch = CR \<or> ch = LF \<or> uchar ch = 9 \<or> (uchar ch > 31 \<and> uchar ch \<noteq> 127)"

text \<open>The value of a decimal digit, \<^verbatim>\<open>ch - '0'\<close> (used after \<^verbatim>\<open>IS_NUM(ch)\<close> only).\<close>

definition digit_val :: "char \<Rightarrow> nat" where
  "digit_val ch = uchar ch - uchar CHR ''0''"

section \<open>The tables in closed form\<close>

lemma table_lengths: "length tokens = 256" "length unhex = 256" "length normal_url_char = 32"
  by (simp_all add: tokens_def unhex_def normal_url_char_def)

text \<open>Every index the macros compute is inside its table.\<close>

lemma table_index [simp]: "uchar c < length tokens" "uchar c < length unhex"
  "uchar c div 8 < length normal_url_char"
proof -
  have "uchar c < 256" by simp
  then show "uchar c < length tokens" "uchar c < length unhex"
    "uchar c div 8 < length normal_url_char"
    by (simp_all add: table_lengths less_mult_imp_div_less)
qed

lemma LOWER_Char [simp]:
  "LOWER (Char b0 b1 b2 b3 b4 b5 b6 b7) = Char b0 b1 b2 b3 b4 True b6 b7"
proof (rule of_char_eqI [where 'a = nat])
  show "uchar (LOWER (Char b0 b1 b2 b3 b4 b5 b6 b7)) = uchar (Char b0 b1 b2 b3 b4 True b6 b7)"
    by (cases b0; cases b1; cases b2; cases b3; cases b4; cases b5; cases b6; cases b7)
      (simp_all add: LOWER_def flip: numeral_2_eq_2)
qed

lemma LOWER_idem [simp]: "LOWER (LOWER c) = LOWER c"
  by (cases c) simp

lemmas char_class_defs = IS_ALPHANUM_def IS_ALPHA_def IS_NUM_def IS_HEX_def

lemma upt_0_numeral: "2 \<le> (numeral k :: nat) \<Longrightarrow> [0..<numeral k] = 0 # 1 # [2..<numeral k]"
  by (metis One_nat_def Suc_1 less_le_trans upt_conv_Cons less_2_cases_iff)

text \<open>
  The table \<open>tokens\<close> maps letters to lower case, digits and the RFC 2616 token marks to
  themselves and everything else to NUL.
\<close>

definition token_spec :: "char \<Rightarrow> char" where
  "token_spec c =
     (if IS_ALPHANUM c then LOWER c
      else if c \<in> set ''!#$%&*+-.^_|~'' \<or> c = CHR 0x27 \<or> c = CHR 0x60 then c
      else NUL)"

lemma tokens_low: "take 128 tokens = map (\<lambda>n. if n = 32 then SP else token_spec (char_of n)) [0..<128]"
  by (simp add: tokens_def upt_0_numeral)
    (simp add: token_spec_def char_class_defs char_of_def bit_0)

text \<open>
  \<^verbatim>\<open>IS_URL_CHAR\<close> accepts the printable ASCII characters other than space, \<open>#\<close> and
  \<open>?\<close>.
\<close>

definition url_char_spec :: "char \<Rightarrow> bool" where
  "url_char_spec c \<longleftrightarrow> 33 \<le> uchar c \<and> uchar c \<le> 126 \<and> c \<noteq> CHR ''#'' \<and> c \<noteq> CHR ''?''"

lemma normal_url_char_low:
  "map (BIT_AT normal_url_char) [0..<128] = map (\<lambda>n. url_char_spec (char_of n)) [0..<128]"
  by (simp add: BIT_AT_def normal_url_char_def upt_0_numeral test_flag_bit bit_0)
    (simp add: url_char_spec_def char_of_def bit_0)

text \<open>
  \<open>unhex\<close> reads hexadecimal digits of either case; it is \<open>-1\<close> on the other ASCII
  characters and, because the initialiser stops at 128, \<open>0\<close> on every character with the
  top bit set.
\<close>

definition unhex_spec :: "char \<Rightarrow> int" where
  "unhex_spec c =
     (if IS_NUM c then of_char c - 48
      else if IS_HEX c then of_char (LOWER c) - 87
      else if uchar c < 128 then -1 else 0)"

lemma unhex_low: "take 128 unhex = map (\<lambda>n. unhex_spec (char_of n)) [0..<128]"
  by (simp add: unhex_def upt_0_numeral)
    (simp add: unhex_spec_def char_class_defs char_of_def bit_0)

lemma char_of_uchar_map: "uchar c < 128 \<Longrightarrow> map f [0..<128] ! uchar c = f (uchar c)"
  by simp

lemma nth_ge_128:
  assumes "\<not> uchar c < 128" and "xs = ys @ replicate 128 x" and "length ys = 128"
  shows "xs ! uchar c = x"
proof -
  have "uchar c < 256" by simp
  with assms(1) have "uchar c - 128 < 128" by arith
  with assms show ?thesis by (simp add: nth_append)
qed

lemma STRICT_TOKEN_spec [spec_simps]: "STRICT_TOKEN c = token_spec c"
proof (cases "uchar c < 128")
  case True
  then have "tokens ! uchar c = take 128 tokens ! uchar c" by simp
  also have "\<dots> = (if uchar c = 32 then SP else token_spec (char_of (uchar c)))"
    using True by (simp only: tokens_low char_of_uchar_map)
  finally have tok: "tokens ! uchar c = (if uchar c = 32 then SP else token_spec c)" by simp
  have "c = SP \<longleftrightarrow> uchar c = uchar SP" by (simp only: of_char_eq_iff)
  then have "c = SP \<longleftrightarrow> uchar c = 32" by simp
  moreover have "token_spec SP = NUL" by (simp add: token_spec_def char_class_defs)
  ultimately show ?thesis using tok by (auto simp: STRICT_TOKEN_def)
next
  case False
  obtain b0 b1 b2 b3 b4 b5 b6 b7 where c: "c = Char b0 b1 b2 b3 b4 b5 b6 b7" by (cases c)
  from False have "b7" by (cases b7) (auto simp: c of_bool_def split: if_splits)
  with False have "token_spec c = NUL"
    by (auto simp: c token_spec_def char_class_defs of_bool_def split: if_splits)
  moreover have "tokens ! uchar c = NUL"
    by (rule nth_ge_128 [OF False tokens_def]) simp
  ultimately show ?thesis using \<open>b7\<close> by (auto simp: STRICT_TOKEN_def c)
qed

lemma IS_URL_CHAR_spec [spec_simps]: "IS_URL_CHAR c \<longleftrightarrow> url_char_spec c"
proof (cases "uchar c < 128")
  case True
  have "IS_URL_CHAR c \<longleftrightarrow> map (BIT_AT normal_url_char) [0..<128] ! uchar c"
    using True by (simp only: char_of_uchar_map IS_URL_CHAR_def)
  also have "\<dots> \<longleftrightarrow> url_char_spec c"
    using True by (simp only: normal_url_char_low char_of_uchar_map char_of_char)
  finally show ?thesis .
next
  case False
  then have "16 \<le> uchar c div 8" by simp
  then have "normal_url_char ! (uchar c div 8) = 0"
    using table_index(3) [of c]
    by (simp add: normal_url_char_def nth_append del: table_index)
  then show ?thesis using False
    by (simp add: IS_URL_CHAR_def BIT_AT_def url_char_spec_def)
qed

lemma unhex_spec [spec_simps]: "unhex ! uchar c = unhex_spec c"
proof (cases "uchar c < 128")
  case True
  then have "unhex ! uchar c = take 128 unhex ! uchar c" by simp
  then show ?thesis
    using True by (simp only: unhex_low char_of_uchar_map char_of_char)
next
  case False
  obtain b0 b1 b2 b3 b4 b5 b6 b7 where c: "c = Char b0 b1 b2 b3 b4 b5 b6 b7" by (cases c)
  from False have "b7" by (cases b7) (auto simp: c of_bool_def split: if_splits)
  with False have "unhex_spec c = 0"
    by (auto simp: c unhex_spec_def char_class_defs of_bool_def split: if_splits)
  moreover have "unhex ! uchar c = 0"
    by (rule nth_ge_128 [OF False unhex_def]) simp
  ultimately show ?thesis by simp
qed

text \<open>Evaluation uses the characterisations instead of the tables.\<close>

declare STRICT_TOKEN_spec [code] IS_URL_CHAR_spec [code] unhex_spec [code_unfold]

end
