(* ===== verification/Http_Types.thy ===== *)
theory Http_Types
  imports Http_Chars
begin

text \<open>
  The data model of the HTTP parser: the enumerations, the parser object and the callback
  table of \<^verbatim>\<open>src/lib/http-parser/http_parser.h\<close> and
  \<^verbatim>\<open>http_parser.c\<close>, and the small operations on a parser object: initialisation,
  pausing, keep-alive, end-of-body and string names.
\<close>

section \<open>Request methods\<close>

datatype (plugins only: code size) http_method =
    HTTP_DELETE | HTTP_GET | HTTP_HEAD | HTTP_POST
  | HTTP_PUT | HTTP_CONNECT | HTTP_OPTIONS | HTTP_TRACE
  | HTTP_COPY | HTTP_LOCK | HTTP_MKCOL | HTTP_MOVE
  | HTTP_PROPFIND | HTTP_PROPPATCH | HTTP_SEARCH | HTTP_UNLOCK
  | HTTP_BIND | HTTP_REBIND | HTTP_UNBIND | HTTP_ACL
  | HTTP_REPORT | HTTP_MKACTIVITY | HTTP_CHECKOUT | HTTP_MERGE
  | HTTP_MSEARCH | HTTP_NOTIFY | HTTP_SUBSCRIBE | HTTP_UNSUBSCRIBE
  | HTTP_PATCH | HTTP_PURGE | HTTP_MKCALENDAR | HTTP_LINK
  | HTTP_UNLINK | HTTP_SOURCE

text \<open>The enumeration constants in the order of their values, and their strings.\<close>

definition http_methods :: "http_method list" where
  "http_methods = [
     HTTP_DELETE, HTTP_GET, HTTP_HEAD, HTTP_POST,
     HTTP_PUT, HTTP_CONNECT, HTTP_OPTIONS, HTTP_TRACE,
     HTTP_COPY, HTTP_LOCK, HTTP_MKCOL, HTTP_MOVE,
     HTTP_PROPFIND, HTTP_PROPPATCH, HTTP_SEARCH, HTTP_UNLOCK,
     HTTP_BIND, HTTP_REBIND, HTTP_UNBIND, HTTP_ACL,
     HTTP_REPORT, HTTP_MKACTIVITY, HTTP_CHECKOUT, HTTP_MERGE,
     HTTP_MSEARCH, HTTP_NOTIFY, HTTP_SUBSCRIBE, HTTP_UNSUBSCRIBE,
     HTTP_PATCH, HTTP_PURGE, HTTP_MKCALENDAR, HTTP_LINK,
     HTTP_UNLINK, HTTP_SOURCE]"

definition method_strings :: "string list" where
  "method_strings = [
     ''DELETE'', ''GET'', ''HEAD'', ''POST'', ''PUT'', ''CONNECT'',
     ''OPTIONS'', ''TRACE'', ''COPY'', ''LOCK'', ''MKCOL'', ''MOVE'',
     ''PROPFIND'', ''PROPPATCH'', ''SEARCH'', ''UNLOCK'', ''BIND'', ''REBIND'',
     ''UNBIND'', ''ACL'', ''REPORT'', ''MKACTIVITY'', ''CHECKOUT'', ''MERGE'',
     ''M-SEARCH'', ''NOTIFY'', ''SUBSCRIBE'', ''UNSUBSCRIBE'', ''PATCH'', ''PURGE'',
     ''MKCALENDAR'', ''LINK'', ''UNLINK'', ''SOURCE'']"

primrec method_num :: "http_method \<Rightarrow> nat" where
  "method_num HTTP_DELETE = 0"
| "method_num HTTP_GET = 1"
| "method_num HTTP_HEAD = 2"
| "method_num HTTP_POST = 3"
| "method_num HTTP_PUT = 4"
| "method_num HTTP_CONNECT = 5"
| "method_num HTTP_OPTIONS = 6"
| "method_num HTTP_TRACE = 7"
| "method_num HTTP_COPY = 8"
| "method_num HTTP_LOCK = 9"
| "method_num HTTP_MKCOL = 10"
| "method_num HTTP_MOVE = 11"
| "method_num HTTP_PROPFIND = 12"
| "method_num HTTP_PROPPATCH = 13"
| "method_num HTTP_SEARCH = 14"
| "method_num HTTP_UNLOCK = 15"
| "method_num HTTP_BIND = 16"
| "method_num HTTP_REBIND = 17"
| "method_num HTTP_UNBIND = 18"
| "method_num HTTP_ACL = 19"
| "method_num HTTP_REPORT = 20"
| "method_num HTTP_MKACTIVITY = 21"
| "method_num HTTP_CHECKOUT = 22"
| "method_num HTTP_MERGE = 23"
| "method_num HTTP_MSEARCH = 24"
| "method_num HTTP_NOTIFY = 25"
| "method_num HTTP_SUBSCRIBE = 26"
| "method_num HTTP_UNSUBSCRIBE = 27"
| "method_num HTTP_PATCH = 28"
| "method_num HTTP_PURGE = 29"
| "method_num HTTP_MKCALENDAR = 30"
| "method_num HTTP_LINK = 31"
| "method_num HTTP_UNLINK = 32"
| "method_num HTTP_SOURCE = 33"

text \<open>
  \<^verbatim>\<open>method_strings[parser->method]\<close>, and \<^verbatim>\<open>http_method_str\<close> on an arbitrary
  enumeration value (C does not confine it to the constants).
\<close>

definition method_string :: "http_method \<Rightarrow> string" where
  "method_string m = method_strings ! method_num m"

definition http_method_str :: "32 word \<Rightarrow> string" where
  "http_method_str m =
     (if unat m < length method_strings then method_strings ! unat m else ''<unknown>'')"

lemma method_num_less [simp]: "method_num m < length method_strings"
  by (cases m) (simp_all add: method_strings_def)

lemma http_methods_num [simp]: "http_methods ! method_num m = m"
  by (cases m) (simp_all add: http_methods_def)

lemma method_num_inject [simp]: "method_num m = method_num n \<longleftrightarrow> m = n"
  by (metis http_methods_num)

lemma method_string_simps [simp]:
  "method_string HTTP_DELETE = ''DELETE''"
  "method_string HTTP_GET = ''GET''"
  "method_string HTTP_HEAD = ''HEAD''"
  "method_string HTTP_POST = ''POST''"
  "method_string HTTP_PUT = ''PUT''"
  "method_string HTTP_CONNECT = ''CONNECT''"
  "method_string HTTP_OPTIONS = ''OPTIONS''"
  "method_string HTTP_TRACE = ''TRACE''"
  "method_string HTTP_COPY = ''COPY''"
  "method_string HTTP_LOCK = ''LOCK''"
  "method_string HTTP_MKCOL = ''MKCOL''"
  "method_string HTTP_MOVE = ''MOVE''"
  "method_string HTTP_PROPFIND = ''PROPFIND''"
  "method_string HTTP_PROPPATCH = ''PROPPATCH''"
  "method_string HTTP_SEARCH = ''SEARCH''"
  "method_string HTTP_UNLOCK = ''UNLOCK''"
  "method_string HTTP_BIND = ''BIND''"
  "method_string HTTP_REBIND = ''REBIND''"
  "method_string HTTP_UNBIND = ''UNBIND''"
  "method_string HTTP_ACL = ''ACL''"
  "method_string HTTP_REPORT = ''REPORT''"
  "method_string HTTP_MKACTIVITY = ''MKACTIVITY''"
  "method_string HTTP_CHECKOUT = ''CHECKOUT''"
  "method_string HTTP_MERGE = ''MERGE''"
  "method_string HTTP_MSEARCH = ''M-SEARCH''"
  "method_string HTTP_NOTIFY = ''NOTIFY''"
  "method_string HTTP_SUBSCRIBE = ''SUBSCRIBE''"
  "method_string HTTP_UNSUBSCRIBE = ''UNSUBSCRIBE''"
  "method_string HTTP_PATCH = ''PATCH''"
  "method_string HTTP_PURGE = ''PURGE''"
  "method_string HTTP_MKCALENDAR = ''MKCALENDAR''"
  "method_string HTTP_LINK = ''LINK''"
  "method_string HTTP_UNLINK = ''UNLINK''"
  "method_string HTTP_SOURCE = ''SOURCE''"
  by (simp_all add: method_string_def method_strings_def)

section \<open>Status codes\<close>

definition http_status_map :: "(nat \<times> string) list" where
  "http_status_map = [
     (100, ''Continue''), (101, ''Switching Protocols''),
     (102, ''Processing''), (200, ''OK''),
     (201, ''Created''), (202, ''Accepted''),
     (203, ''Non-Authoritative Information''), (204, ''No Content''),
     (205, ''Reset Content''), (206, ''Partial Content''),
     (207, ''Multi-Status''), (208, ''Already Reported''),
     (226, ''IM Used''), (300, ''Multiple Choices''),
     (301, ''Moved Permanently''), (302, ''Found''),
     (303, ''See Other''), (304, ''Not Modified''),
     (305, ''Use Proxy''), (307, ''Temporary Redirect''),
     (308, ''Permanent Redirect''), (400, ''Bad Request''),
     (401, ''Unauthorized''), (402, ''Payment Required''),
     (403, ''Forbidden''), (404, ''Not Found''),
     (405, ''Method Not Allowed''), (406, ''Not Acceptable''),
     (407, ''Proxy Authentication Required''), (408, ''Request Timeout''),
     (409, ''Conflict''), (410, ''Gone''),
     (411, ''Length Required''), (412, ''Precondition Failed''),
     (413, ''Payload Too Large''), (414, ''URI Too Long''),
     (415, ''Unsupported Media Type''), (416, ''Range Not Satisfiable''),
     (417, ''Expectation Failed''), (421, ''Misdirected Request''),
     (422, ''Unprocessable Entity''), (423, ''Locked''),
     (424, ''Failed Dependency''), (426, ''Upgrade Required''),
     (428, ''Precondition Required''), (429, ''Too Many Requests''),
     (431, ''Request Header Fields Too Large''), (451, ''Unavailable For Legal Reasons''),
     (500, ''Internal Server Error''), (501, ''Not Implemented''),
     (502, ''Bad Gateway''), (503, ''Service Unavailable''),
     (504, ''Gateway Timeout''), (505, ''HTTP Version Not Supported''),
     (506, ''Variant Also Negotiates''), (507, ''Insufficient Storage''),
     (508, ''Loop Detected''), (510, ''Not Extended''),
     (511, ''Network Authentication Required'')]"

definition http_status_str :: "32 word \<Rightarrow> string" where
  "http_status_str s =
     (case map_of http_status_map (unat s) of Some n \<Rightarrow> n | None \<Rightarrow> ''<unknown>'')"

section \<open>Error numbers\<close>

datatype (plugins only: code size) http_errno =
    HPE_OK | HPE_CB_message_begin | HPE_CB_url
  | HPE_CB_header_field | HPE_CB_header_value | HPE_CB_headers_complete
  | HPE_CB_body | HPE_CB_message_complete | HPE_CB_status
  | HPE_CB_chunk_header | HPE_CB_chunk_complete | HPE_INVALID_EOF_STATE
  | HPE_HEADER_OVERFLOW | HPE_CLOSED_CONNECTION | HPE_INVALID_VERSION
  | HPE_INVALID_STATUS | HPE_INVALID_METHOD | HPE_INVALID_URL
  | HPE_INVALID_HOST | HPE_INVALID_PORT | HPE_INVALID_PATH
  | HPE_INVALID_QUERY_STRING | HPE_INVALID_FRAGMENT | HPE_LF_EXPECTED
  | HPE_INVALID_HEADER_TOKEN | HPE_INVALID_CONTENT_LENGTH | HPE_UNEXPECTED_CONTENT_LENGTH
  | HPE_INVALID_CHUNK_SIZE | HPE_INVALID_TRANSFER_ENCODING | HPE_INVALID_CONSTANT
  | HPE_INVALID_INTERNAL_STATE | HPE_STRICT | HPE_PAUSED
  | HPE_UNKNOWN

primrec errno_num :: "http_errno \<Rightarrow> nat" where
  "errno_num HPE_OK = 0"
| "errno_num HPE_CB_message_begin = 1"
| "errno_num HPE_CB_url = 2"
| "errno_num HPE_CB_header_field = 3"
| "errno_num HPE_CB_header_value = 4"
| "errno_num HPE_CB_headers_complete = 5"
| "errno_num HPE_CB_body = 6"
| "errno_num HPE_CB_message_complete = 7"
| "errno_num HPE_CB_status = 8"
| "errno_num HPE_CB_chunk_header = 9"
| "errno_num HPE_CB_chunk_complete = 10"
| "errno_num HPE_INVALID_EOF_STATE = 11"
| "errno_num HPE_HEADER_OVERFLOW = 12"
| "errno_num HPE_CLOSED_CONNECTION = 13"
| "errno_num HPE_INVALID_VERSION = 14"
| "errno_num HPE_INVALID_STATUS = 15"
| "errno_num HPE_INVALID_METHOD = 16"
| "errno_num HPE_INVALID_URL = 17"
| "errno_num HPE_INVALID_HOST = 18"
| "errno_num HPE_INVALID_PORT = 19"
| "errno_num HPE_INVALID_PATH = 20"
| "errno_num HPE_INVALID_QUERY_STRING = 21"
| "errno_num HPE_INVALID_FRAGMENT = 22"
| "errno_num HPE_LF_EXPECTED = 23"
| "errno_num HPE_INVALID_HEADER_TOKEN = 24"
| "errno_num HPE_INVALID_CONTENT_LENGTH = 25"
| "errno_num HPE_UNEXPECTED_CONTENT_LENGTH = 26"
| "errno_num HPE_INVALID_CHUNK_SIZE = 27"
| "errno_num HPE_INVALID_TRANSFER_ENCODING = 28"
| "errno_num HPE_INVALID_CONSTANT = 29"
| "errno_num HPE_INVALID_INTERNAL_STATE = 30"
| "errno_num HPE_STRICT = 31"
| "errno_num HPE_PAUSED = 32"
| "errno_num HPE_UNKNOWN = 33"

definition http_strerror_tab :: "(string \<times> string) list" where
  "http_strerror_tab = [
     (''HPE_OK'', ''success''),
     (''HPE_CB_message_begin'', ''the on_message_begin callback failed''),
     (''HPE_CB_url'', ''the on_url callback failed''),
     (''HPE_CB_header_field'', ''the on_header_field callback failed''),
     (''HPE_CB_header_value'', ''the on_header_value callback failed''),
     (''HPE_CB_headers_complete'', ''the on_headers_complete callback failed''),
     (''HPE_CB_body'', ''the on_body callback failed''),
     (''HPE_CB_message_complete'', ''the on_message_complete callback failed''),
     (''HPE_CB_status'', ''the on_status callback failed''),
     (''HPE_CB_chunk_header'', ''the on_chunk_header callback failed''),
     (''HPE_CB_chunk_complete'', ''the on_chunk_complete callback failed''),
     (''HPE_INVALID_EOF_STATE'', ''stream ended at an unexpected time''),
     (''HPE_HEADER_OVERFLOW'', ''too many header bytes seen; overflow detected''),
     (''HPE_CLOSED_CONNECTION'', ''data received after completed connection: close message''),
     (''HPE_INVALID_VERSION'', ''invalid HTTP version''),
     (''HPE_INVALID_STATUS'', ''invalid HTTP status code''),
     (''HPE_INVALID_METHOD'', ''invalid HTTP method''),
     (''HPE_INVALID_URL'', ''invalid URL''),
     (''HPE_INVALID_HOST'', ''invalid host''),
     (''HPE_INVALID_PORT'', ''invalid port''),
     (''HPE_INVALID_PATH'', ''invalid path''),
     (''HPE_INVALID_QUERY_STRING'', ''invalid query string''),
     (''HPE_INVALID_FRAGMENT'', ''invalid fragment''),
     (''HPE_LF_EXPECTED'', ''LF character expected''),
     (''HPE_INVALID_HEADER_TOKEN'', ''invalid character in header''),
     (''HPE_INVALID_CONTENT_LENGTH'', ''invalid character in content-length header''),
     (''HPE_UNEXPECTED_CONTENT_LENGTH'', ''unexpected content-length header''),
     (''HPE_INVALID_CHUNK_SIZE'', ''invalid character in chunk size header''),
     (''HPE_INVALID_TRANSFER_ENCODING'', ''request has invalid transfer-encoding''),
     (''HPE_INVALID_CONSTANT'', ''invalid constant string''),
     (''HPE_INVALID_INTERNAL_STATE'', ''encountered unexpected internal state''),
     (''HPE_STRICT'', ''strict mode assertion failed''),
     (''HPE_PAUSED'', ''parser is paused''),
     (''HPE_UNKNOWN'', ''an unknown error occurred'')]"

text \<open>Both functions assert that the value indexes the table.\<close>

definition http_errno_name :: "http_errno \<Rightarrow> string checked" where
  "http_errno_name err =
     (if errno_num err < length http_strerror_tab then Inr (fst (http_strerror_tab ! errno_num err))
      else Inl Assertion)"

definition http_errno_description :: "http_errno \<Rightarrow> string checked" where
  "http_errno_description err =
     (if errno_num err < length http_strerror_tab then Inr (snd (http_strerror_tab ! errno_num err))
      else Inl Assertion)"

lemma errno_num_less: "errno_num e < length http_strerror_tab"
  by (cases e) (simp_all add: http_strerror_tab_def)

section \<open>Parser type, flags and states\<close>

datatype http_parser_type = HTTP_REQUEST | HTTP_RESPONSE | HTTP_BOTH

datatype flag =
    F_CHUNKED | F_CONNECTION_KEEP_ALIVE | F_CONNECTION_CLOSE | F_CONNECTION_UPGRADE
  | F_TRAILING | F_UPGRADE | F_SKIPBODY | F_CONTENTLENGTH | F_TRANSFER_ENCODING

primrec flag_bit :: "flag \<Rightarrow> nat" where
  "flag_bit F_CHUNKED = 0"
| "flag_bit F_CONNECTION_KEEP_ALIVE = 1"
| "flag_bit F_CONNECTION_CLOSE = 2"
| "flag_bit F_CONNECTION_UPGRADE = 3"
| "flag_bit F_TRAILING = 4"
| "flag_bit F_UPGRADE = 5"
| "flag_bit F_SKIPBODY = 6"
| "flag_bit F_CONTENTLENGTH = 7"
| "flag_bit F_TRANSFER_ENCODING = 8"

lemma flag_bit_less_16 [simp]: "flag_bit F < 16"
  by (cases F) simp_all

lemma flag_bit_inject [simp]: "flag_bit F = flag_bit G \<longleftrightarrow> F = G"
  by (cases F; cases G) simp_all

text \<open>\<^verbatim>\<open>flags & F\<close> as a condition and \<^verbatim>\<open>flags |= F\<close>.\<close>

definition has_flag :: "16 word \<Rightarrow> flag \<Rightarrow> bool" where
  "has_flag w F \<longleftrightarrow> test_flag w (flag_bit F)"

definition add_flag :: "16 word \<Rightarrow> flag \<Rightarrow> 16 word" where
  "add_flag w F = w OR bit_flag (flag_bit F)"

lemma has_flag_add [simp]: "has_flag (add_flag w F) G \<longleftrightarrow> has_flag w G \<or> G = F"
  by (auto simp: has_flag_def add_flag_def)

lemma has_flag_zero [simp]: "\<not> has_flag 0 F"
  by (simp add: has_flag_def)

datatype (plugins only: code size) pstate =
    s_dead | s_start_req_or_res | s_res_or_resp_H | s_start_res
  | s_res_H | s_res_HT | s_res_HTT | s_res_HTTP
  | s_res_http_major | s_res_http_dot | s_res_http_minor | s_res_http_end
  | s_res_first_status_code | s_res_status_code | s_res_status_start | s_res_status
  | s_res_line_almost_done | s_start_req | s_req_method | s_req_spaces_before_url
  | s_req_schema | s_req_schema_slash | s_req_schema_slash_slash | s_req_server_start
  | s_req_server | s_req_server_with_at | s_req_path | s_req_query_string_start
  | s_req_query_string | s_req_fragment_start | s_req_fragment | s_req_http_start
  | s_req_http_H | s_req_http_HT | s_req_http_HTT | s_req_http_HTTP
  | s_req_http_I | s_req_http_IC | s_req_http_major | s_req_http_dot
  | s_req_http_minor | s_req_http_end | s_req_line_almost_done | s_header_field_start
  | s_header_field | s_header_value_discard_ws | s_header_value_discard_ws_almost_done | s_header_value_discard_lws
  | s_header_value_start | s_header_value | s_header_value_lws | s_header_almost_done
  | s_chunk_size_start | s_chunk_size | s_chunk_parameters | s_chunk_size_almost_done
  | s_headers_almost_done | s_headers_done | s_chunk_data | s_chunk_data_almost_done
  | s_chunk_data_done | s_body_identity | s_body_identity_eof | s_message_done

primrec state_num :: "pstate \<Rightarrow> nat" where
  "state_num s_dead = 1"
| "state_num s_start_req_or_res = 2"
| "state_num s_res_or_resp_H = 3"
| "state_num s_start_res = 4"
| "state_num s_res_H = 5"
| "state_num s_res_HT = 6"
| "state_num s_res_HTT = 7"
| "state_num s_res_HTTP = 8"
| "state_num s_res_http_major = 9"
| "state_num s_res_http_dot = 10"
| "state_num s_res_http_minor = 11"
| "state_num s_res_http_end = 12"
| "state_num s_res_first_status_code = 13"
| "state_num s_res_status_code = 14"
| "state_num s_res_status_start = 15"
| "state_num s_res_status = 16"
| "state_num s_res_line_almost_done = 17"
| "state_num s_start_req = 18"
| "state_num s_req_method = 19"
| "state_num s_req_spaces_before_url = 20"
| "state_num s_req_schema = 21"
| "state_num s_req_schema_slash = 22"
| "state_num s_req_schema_slash_slash = 23"
| "state_num s_req_server_start = 24"
| "state_num s_req_server = 25"
| "state_num s_req_server_with_at = 26"
| "state_num s_req_path = 27"
| "state_num s_req_query_string_start = 28"
| "state_num s_req_query_string = 29"
| "state_num s_req_fragment_start = 30"
| "state_num s_req_fragment = 31"
| "state_num s_req_http_start = 32"
| "state_num s_req_http_H = 33"
| "state_num s_req_http_HT = 34"
| "state_num s_req_http_HTT = 35"
| "state_num s_req_http_HTTP = 36"
| "state_num s_req_http_I = 37"
| "state_num s_req_http_IC = 38"
| "state_num s_req_http_major = 39"
| "state_num s_req_http_dot = 40"
| "state_num s_req_http_minor = 41"
| "state_num s_req_http_end = 42"
| "state_num s_req_line_almost_done = 43"
| "state_num s_header_field_start = 44"
| "state_num s_header_field = 45"
| "state_num s_header_value_discard_ws = 46"
| "state_num s_header_value_discard_ws_almost_done = 47"
| "state_num s_header_value_discard_lws = 48"
| "state_num s_header_value_start = 49"
| "state_num s_header_value = 50"
| "state_num s_header_value_lws = 51"
| "state_num s_header_almost_done = 52"
| "state_num s_chunk_size_start = 53"
| "state_num s_chunk_size = 54"
| "state_num s_chunk_parameters = 55"
| "state_num s_chunk_size_almost_done = 56"
| "state_num s_headers_almost_done = 57"
| "state_num s_headers_done = 58"
| "state_num s_chunk_data = 59"
| "state_num s_chunk_data_almost_done = 60"
| "state_num s_chunk_data_done = 61"
| "state_num s_body_identity = 62"
| "state_num s_body_identity_eof = 63"
| "state_num s_message_done = 64"

definition all_states :: "pstate list" where
  "all_states = [
     s_dead, s_start_req_or_res, s_res_or_resp_H, s_start_res,
     s_res_H, s_res_HT, s_res_HTT, s_res_HTTP,
     s_res_http_major, s_res_http_dot, s_res_http_minor, s_res_http_end,
     s_res_first_status_code, s_res_status_code, s_res_status_start, s_res_status,
     s_res_line_almost_done, s_start_req, s_req_method, s_req_spaces_before_url,
     s_req_schema, s_req_schema_slash, s_req_schema_slash_slash, s_req_server_start,
     s_req_server, s_req_server_with_at, s_req_path, s_req_query_string_start,
     s_req_query_string, s_req_fragment_start, s_req_fragment, s_req_http_start,
     s_req_http_H, s_req_http_HT, s_req_http_HTT, s_req_http_HTTP,
     s_req_http_I, s_req_http_IC, s_req_http_major, s_req_http_dot,
     s_req_http_minor, s_req_http_end, s_req_line_almost_done, s_header_field_start,
     s_header_field, s_header_value_discard_ws, s_header_value_discard_ws_almost_done, s_header_value_discard_lws,
     s_header_value_start, s_header_value, s_header_value_lws, s_header_almost_done,
     s_chunk_size_start, s_chunk_size, s_chunk_parameters, s_chunk_size_almost_done,
     s_headers_almost_done, s_headers_done, s_chunk_data, s_chunk_data_almost_done,
     s_chunk_data_done, s_body_identity, s_body_identity_eof, s_message_done]"

lemma all_states_num [simp]: "all_states ! (state_num s - 1) = s"
  by (cases s) (simp_all add: all_states_def)

lemma state_num_pos [simp]: "0 < state_num s"
  by (cases s) simp_all

lemma state_num_inject [simp]: "state_num s = state_num t \<longleftrightarrow> s = t"
  by (metis all_states_num)

text \<open>The states are ordered by their values, as \<^verbatim>\<open>PARSING_HEADER\<close> needs.\<close>

instantiation pstate :: linorder
begin

definition less_eq_pstate :: "pstate \<Rightarrow> pstate \<Rightarrow> bool" where
  "less_eq_pstate s t \<longleftrightarrow> state_num s \<le> state_num t"

definition less_pstate :: "pstate \<Rightarrow> pstate \<Rightarrow> bool" where
  "less_pstate s t \<longleftrightarrow> state_num s < state_num t"

instance
  by standard (auto simp: less_eq_pstate_def less_pstate_def)

end

definition PARSING_HEADER :: "pstate \<Rightarrow> bool" where
  "PARSING_HEADER s \<longleftrightarrow> s \<le> s_headers_done"

datatype (plugins only: code size) header_states =
    h_general | h_C | h_CO
  | h_CON | h_matching_connection | h_matching_proxy_connection
  | h_matching_content_length | h_matching_transfer_encoding | h_matching_upgrade
  | h_connection | h_content_length | h_content_length_num
  | h_content_length_ws | h_transfer_encoding | h_upgrade
  | h_matching_transfer_encoding_token_start | h_matching_transfer_encoding_chunked | h_matching_transfer_encoding_token
  | h_matching_connection_token_start | h_matching_connection_keep_alive | h_matching_connection_close
  | h_matching_connection_upgrade | h_matching_connection_token | h_transfer_encoding_chunked
  | h_connection_keep_alive | h_connection_close | h_connection_upgrade

primrec header_state_num :: "header_states \<Rightarrow> nat" where
  "header_state_num h_general = 0"
| "header_state_num h_C = 1"
| "header_state_num h_CO = 2"
| "header_state_num h_CON = 3"
| "header_state_num h_matching_connection = 4"
| "header_state_num h_matching_proxy_connection = 5"
| "header_state_num h_matching_content_length = 6"
| "header_state_num h_matching_transfer_encoding = 7"
| "header_state_num h_matching_upgrade = 8"
| "header_state_num h_connection = 9"
| "header_state_num h_content_length = 10"
| "header_state_num h_content_length_num = 11"
| "header_state_num h_content_length_ws = 12"
| "header_state_num h_transfer_encoding = 13"
| "header_state_num h_upgrade = 14"
| "header_state_num h_matching_transfer_encoding_token_start = 15"
| "header_state_num h_matching_transfer_encoding_chunked = 16"
| "header_state_num h_matching_transfer_encoding_token = 17"
| "header_state_num h_matching_connection_token_start = 18"
| "header_state_num h_matching_connection_keep_alive = 19"
| "header_state_num h_matching_connection_close = 20"
| "header_state_num h_matching_connection_upgrade = 21"
| "header_state_num h_matching_connection_token = 22"
| "header_state_num h_transfer_encoding_chunked = 23"
| "header_state_num h_connection_keep_alive = 24"
| "header_state_num h_connection_close = 25"
| "header_state_num h_connection_upgrade = 26"


section \<open>The parser object and the callback table\<close>

text \<open>
  \<^verbatim>\<open>struct http_parser\<close>. Bit fields that hold an enumeration have the enumeration's
  type (every value fits its field: \<open>bit_fields_fit\<close> below); the other fields are words of
  the declared width. \<open>data\<close> is the application's state behind the
  \<^verbatim>\<open>void *data\<close> pointer.
\<close>

record 'u http_parser =
  hp_type :: http_parser_type
  hp_state :: pstate
  hp_header_state :: header_states
  hp_index :: "7 word"
  hp_lenient_http_headers :: bool
  hp_flags :: "16 word"
  hp_nread :: "32 word"
  hp_content_length :: "64 word"
  hp_http_major :: "16 word"
  hp_http_minor :: "16 word"
  hp_status_code :: "16 word"
  hp_method :: http_method
  hp_http_errno :: http_errno
  hp_upgrade :: bool
  hp_data :: 'u

text \<open>
  A callback gets the parser object (a data callback also the bytes \<open>at[0..len)\<close>), returns
  an integer and may change the object; \<open>Inl\<close> is a callback that stops the process. A
  \<^verbatim>\<open>NULL\<close> entry of the table is \<open>None\<close>.
\<close>

type_synonym 'u http_cb = "'u http_parser \<Rightarrow> (int \<times> 'u http_parser) checked"
type_synonym 'u http_data_cb = "string \<Rightarrow> 'u http_cb"

record 'u http_parser_settings =
  on_message_begin :: "'u http_cb option"
  on_url :: "'u http_data_cb option"
  on_status :: "'u http_data_cb option"
  on_header_field :: "'u http_data_cb option"
  on_header_value :: "'u http_data_cb option"
  on_headers_complete :: "'u http_cb option"
  on_body :: "'u http_data_cb option"
  on_message_complete :: "'u http_cb option"
  on_chunk_header :: "'u http_cb option"
  on_chunk_complete :: "'u http_cb option"

definition http_parser_settings_init :: "'u http_parser_settings" where
  "http_parser_settings_init = \<lparr>
     on_message_begin = None, on_url = None, on_status = None, on_header_field = None,
     on_header_value = None, on_headers_complete = None, on_body = None,
     on_message_complete = None, on_chunk_header = None, on_chunk_complete = None\<rparr>"

section \<open>Operations on a parser object\<close>

definition ULLONG_MAX :: "64 word" where
  "ULLONG_MAX = -1"

definition HTTP_MAX_HEADER_SIZE :: "32 word" where
  "HTTP_MAX_HEADER_SIZE = 80 * 1024"

text \<open>\<^verbatim>\<open>memset(parser, 0, sizeof *parser)\<close>, then the type, state and error number.\<close>

definition http_parser_init :: "'u http_parser \<Rightarrow> http_parser_type \<Rightarrow> 'u http_parser" where
  "http_parser_init parser t = \<lparr>
     hp_type = t,
     hp_state = (if t = HTTP_REQUEST then s_start_req
                 else if t = HTTP_RESPONSE then s_start_res else s_start_req_or_res),
     hp_header_state = h_general,
     hp_index = 0,
     hp_lenient_http_headers = False,
     hp_flags = 0,
     hp_nread = 0,
     hp_content_length = 0,
     hp_http_major = 0,
     hp_http_minor = 0,
     hp_status_code = 0,
     hp_method = HTTP_DELETE,
     hp_http_errno = HPE_OK,
     hp_upgrade = False,
     hp_data = hp_data parser\<rparr>"

definition http_message_needs_eof :: "'u http_parser \<Rightarrow> bool" where
  "http_message_needs_eof parser =
     (if hp_type parser = HTTP_REQUEST then False
      else if hp_status_code parser div 100 = 1 \<or> hp_status_code parser = 204 \<or>
              hp_status_code parser = 304 \<or> has_flag (hp_flags parser) F_SKIPBODY then False
      else if has_flag (hp_flags parser) F_TRANSFER_ENCODING \<and>
              \<not> has_flag (hp_flags parser) F_CHUNKED then True
      else if has_flag (hp_flags parser) F_CHUNKED \<or>
              hp_content_length parser \<noteq> ULLONG_MAX then False
      else True)"

definition http_should_keep_alive :: "'u http_parser \<Rightarrow> bool" where
  "http_should_keep_alive parser =
     (if hp_http_major parser > 0 \<and> hp_http_minor parser > 0
      then (if has_flag (hp_flags parser) F_CONNECTION_CLOSE then False
            else \<not> http_message_needs_eof parser)
      else (if \<not> has_flag (hp_flags parser) F_CONNECTION_KEEP_ALIVE then False
            else \<not> http_message_needs_eof parser))"

definition start_state :: "'u http_parser \<Rightarrow> pstate" where
  "start_state parser = (if hp_type parser = HTTP_REQUEST then s_start_req else s_start_res)"

definition NEW_MESSAGE :: "'u http_parser \<Rightarrow> pstate" where
  "NEW_MESSAGE parser = (if http_should_keep_alive parser then start_state parser else s_dead)"

definition http_parser_pause :: "'u http_parser \<Rightarrow> bool \<Rightarrow> 'u http_parser checked" where
  "http_parser_pause parser paused =
     (if hp_http_errno parser = HPE_OK \<or> hp_http_errno parser = HPE_PAUSED
      then Inr (parser\<lparr>hp_nread := hp_nread parser,
                       hp_http_errno := (if paused then HPE_PAUSED else HPE_OK)\<rparr>)
      else Inl Assertion)"

definition http_body_is_final :: "'u http_parser \<Rightarrow> bool" where
  "http_body_is_final parser \<longleftrightarrow> hp_state parser = s_message_done"

definition http_parser_version :: "64 word" where
  "http_parser_version = (2 * 0x10000) OR (9 * 0x00100) OR (3 * 0x00001)"

section \<open>Lemmas\<close>

text \<open>Every enumeration value fits the bit field of \<^verbatim>\<open>struct http_parser\<close> that holds it.\<close>

lemma state_num_bound: "state_num s < 2 ^ 7"
  by (cases s) simp_all

lemma header_state_num_bound: "header_state_num s < 2 ^ 7"
  by (cases s) simp_all

lemma method_num_bound: "method_num m < 2 ^ 8"
  by (cases m) simp_all

lemma errno_num_bound: "errno_num e < 2 ^ 7"
  by (cases e) simp_all

lemma PARSING_HEADER_num: "PARSING_HEADER s \<longleftrightarrow> state_num s \<le> 58"
  by (simp add: PARSING_HEADER_def less_eq_pstate_def)

lemma NEW_MESSAGE_cases: "NEW_MESSAGE q \<in> {s_start_req, s_start_res, s_dead}"
  by (simp add: NEW_MESSAGE_def start_state_def)

end
