(* ===== verification/Http_Url.thy ===== *)
theory Http_Url
  imports Http_Types
begin

text \<open>
  The URL parser of \<^verbatim>\<open>src/lib/http-parser/http_parser.c\<close>: the byte automaton
  \<open>parse_url_char\<close>, shared with the request-line states of the message parser, the host
  automaton, and \<open>http_parser_parse_url\<close>, which turns the automaton's transitions into
  offsets and lengths of the URL's components.
\<close>

section \<open>The URL automaton\<close>

definition url_server_char :: "char \<Rightarrow> pstate" where
  "url_server_char ch =
     (if ch = CHR ''/'' then s_req_path
      else if ch = CHR ''?'' then s_req_query_string_start
      else if ch = CHR ''@'' then s_req_server_with_at
      else if IS_USERINFO_CHAR ch \<or> ch = CHR ''['' \<or> ch = CHR '']'' then s_req_server
      else s_dead)"

definition parse_url_char :: "pstate \<Rightarrow> char \<Rightarrow> pstate" where
  "parse_url_char s ch =
     (if ch = SP \<or> ch = CR \<or> ch = LF then s_dead
      else if ch = HT \<or> ch = FF then s_dead
      else (case s of
        s_req_spaces_before_url \<Rightarrow>
          (if ch = CHR ''/'' \<or> ch = CHR ''*'' then s_req_path
           else if IS_ALPHA ch then s_req_schema
           else s_dead)
      | s_req_schema \<Rightarrow>
          (if IS_ALPHA ch then s
           else if ch = CHR '':'' then s_req_schema_slash
           else s_dead)
      | s_req_schema_slash \<Rightarrow>
          (if ch = CHR ''/'' then s_req_schema_slash_slash else s_dead)
      | s_req_schema_slash_slash \<Rightarrow>
          (if ch = CHR ''/'' then s_req_server_start else s_dead)
      | s_req_server_with_at \<Rightarrow>
          (if ch = CHR ''@'' then s_dead else url_server_char ch)
      | s_req_server_start \<Rightarrow> url_server_char ch
      | s_req_server \<Rightarrow> url_server_char ch
      | s_req_path \<Rightarrow>
          (if IS_URL_CHAR ch then s
           else if ch = CHR ''?'' then s_req_query_string_start
           else if ch = CHR ''#'' then s_req_fragment_start
           else s_dead)
      | s_req_query_string_start \<Rightarrow>
          (if IS_URL_CHAR ch then s_req_query_string
           else if ch = CHR ''?'' then s_req_query_string
           else if ch = CHR ''#'' then s_req_fragment_start
           else s_dead)
      | s_req_query_string \<Rightarrow>
          (if IS_URL_CHAR ch then s_req_query_string
           else if ch = CHR ''?'' then s_req_query_string
           else if ch = CHR ''#'' then s_req_fragment_start
           else s_dead)
      | s_req_fragment_start \<Rightarrow>
          (if IS_URL_CHAR ch then s_req_fragment
           else if ch = CHR ''?'' then s_req_fragment
           else if ch = CHR ''#'' then s
           else s_dead)
      | s_req_fragment \<Rightarrow>
          (if IS_URL_CHAR ch then s
           else if ch = CHR ''?'' \<or> ch = CHR ''#'' then s
           else s_dead)
      | _ \<Rightarrow> s_dead))"

section \<open>URL components\<close>

datatype http_parser_url_fields =
  UF_SCHEMA | UF_HOST | UF_PORT | UF_PATH | UF_QUERY | UF_FRAGMENT | UF_USERINFO

primrec uf_bit :: "http_parser_url_fields \<Rightarrow> nat" where
  "uf_bit UF_SCHEMA = 0"
| "uf_bit UF_HOST = 1"
| "uf_bit UF_PORT = 2"
| "uf_bit UF_PATH = 3"
| "uf_bit UF_QUERY = 4"
| "uf_bit UF_FRAGMENT = 5"
| "uf_bit UF_USERINFO = 6"

lemma uf_bit_less_16 [simp]: "uf_bit f < 16"
  by (cases f) simp_all

lemma uf_bit_inject [simp]: "uf_bit f = uf_bit g \<longleftrightarrow> f = g"
  by (cases f; cases g) simp_all

text \<open>
  \<^verbatim>\<open>field_data[f].off\<close> and \<^verbatim>\<open>field_data[f].len\<close> are \<open>uf_off u f\<close> and
  \<open>uf_len u f\<close>. The enumerator \<^verbatim>\<open>UF_MAX\<close> is used as "no field" and is \<open>None\<close>.
\<close>

record http_parser_url =
  field_set :: "16 word"
  url_port :: "16 word"
  uf_off :: "http_parser_url_fields \<Rightarrow> 16 word"
  uf_len :: "http_parser_url_fields \<Rightarrow> 16 word"

definition has_field :: "http_parser_url \<Rightarrow> http_parser_url_fields \<Rightarrow> bool" where
  "has_field u f \<longleftrightarrow> test_flag (field_set u) (uf_bit f)"

definition set_field :: "http_parser_url_fields \<Rightarrow> http_parser_url \<Rightarrow> http_parser_url" where
  "set_field f u = u\<lparr>field_set := field_set u OR bit_flag (uf_bit f)\<rparr>"

definition set_off :: "http_parser_url_fields \<Rightarrow> nat \<Rightarrow> http_parser_url \<Rightarrow> http_parser_url" where
  "set_off f n u = u\<lparr>uf_off := (uf_off u)(f := of_nat n)\<rparr>"

definition set_len :: "http_parser_url_fields \<Rightarrow> 16 word \<Rightarrow> http_parser_url \<Rightarrow> http_parser_url" where
  "set_len f n u = u\<lparr>uf_len := (uf_len u)(f := n)\<rparr>"

definition inc_len :: "http_parser_url_fields \<Rightarrow> http_parser_url \<Rightarrow> http_parser_url" where
  "inc_len f u = u\<lparr>uf_len := (uf_len u)(f := uf_len u f + 1)\<rparr>"

definition http_parser_url_init :: "http_parser_url" where
  "http_parser_url_init = \<lparr>field_set = 0, url_port = 0, uf_off = (\<lambda>_. 0), uf_len = (\<lambda>_. 0)\<rparr>"

section \<open>The host automaton\<close>

datatype http_host_state =
    s_http_host_dead | s_http_userinfo_start | s_http_userinfo
  | s_http_host_start | s_http_host_v6_start | s_http_host
  | s_http_host_v6 | s_http_host_v6_end | s_http_host_v6_zone_start
  | s_http_host_v6_zone | s_http_host_port_start | s_http_host_port

definition host_v6_char :: "http_host_state \<Rightarrow> char \<Rightarrow> http_host_state" where
  "host_v6_char s ch =
     (if IS_HEX ch \<or> ch = CHR '':'' \<or> ch = CHR ''.'' then s_http_host_v6
      else if s = s_http_host_v6 \<and> ch = CHR ''%'' then s_http_host_v6_zone_start
      else s_http_host_dead)"

definition host_v6_zone_char :: "char \<Rightarrow> http_host_state" where
  "host_v6_zone_char ch =
     (if IS_ALPHANUM ch \<or> ch = CHR ''%'' \<or> ch = CHR ''.'' \<or> ch = CHR ''-'' \<or>
         ch = CHR ''_'' \<or> ch = CHR ''~''
      then s_http_host_v6_zone else s_http_host_dead)"

definition http_parse_host_char :: "http_host_state \<Rightarrow> char \<Rightarrow> http_host_state" where
  "http_parse_host_char s ch =
     (let userinfo =
        (if ch = CHR ''@'' then s_http_host_start
         else if IS_USERINFO_CHAR ch then s_http_userinfo
         else s_http_host_dead);
      host_end = (if ch = CHR '':'' then s_http_host_port_start else s_http_host_dead);
      port = (if IS_NUM ch then s_http_host_port else s_http_host_dead)
      in case s of
        s_http_userinfo \<Rightarrow> userinfo
      | s_http_userinfo_start \<Rightarrow> userinfo
      | s_http_host_start \<Rightarrow>
          (if ch = CHR ''['' then s_http_host_v6_start
           else if IS_HOST_CHAR ch then s_http_host
           else s_http_host_dead)
      | s_http_host \<Rightarrow> (if IS_HOST_CHAR ch then s_http_host else host_end)
      | s_http_host_v6_end \<Rightarrow> host_end
      | s_http_host_v6 \<Rightarrow> (if ch = CHR '']'' then s_http_host_v6_end else host_v6_char s ch)
      | s_http_host_v6_start \<Rightarrow> host_v6_char s ch
      | s_http_host_v6_zone \<Rightarrow>
          (if ch = CHR '']'' then s_http_host_v6_end else host_v6_zone_char ch)
      | s_http_host_v6_zone_start \<Rightarrow> host_v6_zone_char ch
      | s_http_host_port \<Rightarrow> port
      | s_http_host_port_start \<Rightarrow> port
      | s_http_host_dead \<Rightarrow> s_http_host_dead)"

text \<open>The second switch of the loop of \<^verbatim>\<open>http_parse_host\<close>.\<close>

definition host_update ::
  "nat \<Rightarrow> http_host_state \<Rightarrow> http_host_state \<Rightarrow> http_parser_url \<Rightarrow> http_parser_url" where
  "host_update p s new_s u =
     (case new_s of
        s_http_host \<Rightarrow>
          inc_len UF_HOST (if s \<noteq> s_http_host then set_off UF_HOST p u else u)
      | s_http_host_v6 \<Rightarrow>
          inc_len UF_HOST (if s \<noteq> s_http_host_v6 then set_off UF_HOST p u else u)
      | s_http_host_v6_zone_start \<Rightarrow> inc_len UF_HOST u
      | s_http_host_v6_zone \<Rightarrow> inc_len UF_HOST u
      | s_http_host_port \<Rightarrow>
          inc_len UF_PORT
            (if s \<noteq> s_http_host_port
             then set_field UF_PORT (set_len UF_PORT 0 (set_off UF_PORT p u)) else u)
      | s_http_userinfo \<Rightarrow>
          inc_len UF_USERINFO
            (if s \<noteq> s_http_userinfo
             then set_field UF_USERINFO (set_len UF_USERINFO 0 (set_off UF_USERINFO p u)) else u)
      | _ \<Rightarrow> u)"

text \<open>
  The loop over \<^verbatim>\<open>buf[p..buflen)\<close>: \<open>Inl u\<close> is the early
  \<^verbatim>\<open>return 1\<close> with \<^verbatim>\<open>*u\<close> as it is then, \<open>Inr (s, u)\<close> the normal exit.
\<close>

function http_parse_host_loop ::
  "string \<Rightarrow> nat \<Rightarrow> nat \<Rightarrow> http_host_state \<Rightarrow> http_parser_url \<Rightarrow>
     (http_parser_url + http_host_state \<times> http_parser_url) checked" where
  "http_parse_host_loop buf buflen p s u =
     (if p < buflen then
        (if p < length buf then
           (let new_s = http_parse_host_char s (buf ! p)
            in if new_s = s_http_host_dead then Inr (Inl u)
               else http_parse_host_loop buf buflen (Suc p) new_s (host_update p s new_s u))
         else Inl Out_of_bounds)
      else Inr (Inr (s, u)))"
  by pat_completeness auto
termination
  by (relation "measure (\<lambda>(buf, buflen, p, s, u). buflen - p)") auto

declare http_parse_host_loop.simps [simp del]

definition host_bad_end :: "http_host_state \<Rightarrow> bool" where
  "host_bad_end s \<longleftrightarrow>
     s \<in> {s_http_host_start, s_http_host_v6_start, s_http_host_v6, s_http_host_v6_zone_start,
          s_http_host_v6_zone, s_http_host_port_start, s_http_userinfo, s_http_userinfo_start}"

definition http_parse_host ::
  "string \<Rightarrow> http_parser_url \<Rightarrow> bool \<Rightarrow> (int \<times> http_parser_url) checked" where
  "http_parse_host buf u found_at =
     (if \<not> has_field u UF_HOST then Inl Assertion
      else
        let off = unat (uf_off u UF_HOST);
            buflen = off + unat (uf_len u UF_HOST);
            u = set_len UF_HOST 0 u;
            s = (if found_at then s_http_userinfo_start else s_http_host_start)
        in checked_bind (http_parse_host_loop buf buflen off s u) (\<lambda>r.
             case r of
               Inl u \<Rightarrow> Inr (1, u)
             | Inr (s, u) \<Rightarrow> Inr (if host_bad_end s then 1 else 0, u)))"

section \<open>\<open>http_parser_parse_url\<close>\<close>

text \<open>
  The first loop. \<open>url_field_of s\<close> is the switch on the new state: \<open>None\<close> is the
  \<^verbatim>\<open>continue\<close> on a delimiter, \<open>Inl\<close> the default case, which asserts.
\<close>

definition url_field_of :: "pstate \<Rightarrow> http_parser_url_fields option checked" where
  "url_field_of s =
     (case s of
        s_req_schema_slash \<Rightarrow> Inr None
      | s_req_schema_slash_slash \<Rightarrow> Inr None
      | s_req_server_start \<Rightarrow> Inr None
      | s_req_query_string_start \<Rightarrow> Inr None
      | s_req_fragment_start \<Rightarrow> Inr None
      | s_req_schema \<Rightarrow> Inr (Some UF_SCHEMA)
      | s_req_server_with_at \<Rightarrow> Inr (Some UF_HOST)
      | s_req_server \<Rightarrow> Inr (Some UF_HOST)
      | s_req_path \<Rightarrow> Inr (Some UF_PATH)
      | s_req_query_string \<Rightarrow> Inr (Some UF_QUERY)
      | s_req_fragment \<Rightarrow> Inr (Some UF_FRAGMENT)
      | _ \<Rightarrow> Inl Assertion)"

text \<open>
  \<open>rest\<close> is the part \<^verbatim>\<open>buf[p..buflen)\<close> still to be read. \<open>Inl u\<close> is
  \<^verbatim>\<open>return 1\<close>, \<open>Inr (u, found_at)\<close> the normal exit.
\<close>

fun parse_url_loop ::
  "string \<Rightarrow> nat \<Rightarrow> pstate \<Rightarrow> http_parser_url_fields option \<Rightarrow> bool \<Rightarrow> http_parser_url \<Rightarrow>
     (http_parser_url + http_parser_url \<times> bool) checked" where
  "parse_url_loop [] p s old_uf found_at u = Inr (Inr (u, found_at))"
| "parse_url_loop (c # rest) p s old_uf found_at u =
     (let s = parse_url_char s c;
          found_at = (found_at \<or> s = s_req_server_with_at)
      in if s = s_dead then Inr (Inl u)
         else case url_field_of s of
           Inl r \<Rightarrow> Inl r
         | Inr None \<Rightarrow> parse_url_loop rest (Suc p) s old_uf found_at u
         | Inr (Some uf) \<Rightarrow>
             if old_uf = Some uf
             then parse_url_loop rest (Suc p) s old_uf found_at (inc_len uf u)
             else parse_url_loop rest (Suc p) s (Some uf) found_at
                    (set_field uf (set_len uf 1 (set_off uf p u))))"

text \<open>
  The port loop: \<open>None\<close> is \<^verbatim>\<open>return 1\<close> on a value above \<^verbatim>\<open>0xffff\<close>. The
  accumulator is an \<^verbatim>\<open>unsigned long\<close>.
\<close>

fun port_loop :: "string \<Rightarrow> 64 word \<Rightarrow> 64 word option" where
  "port_loop [] v = Some v"
| "port_loop (c # cs) v =
     (let v = v * 10 + of_int (int (uchar c) - 48)
      in if v > 0xffff then None else port_loop cs v)"

text \<open>
  \<open>buf\<close> is the whole buffer, so \<^verbatim>\<open>buflen\<close> is its length. The port characters
  \<^verbatim>\<open>buf[off..off + len)\<close> are read after the assertion that they are in the buffer.
\<close>

definition url_port_step ::
  "string \<Rightarrow> http_parser_url \<Rightarrow> (int \<times> http_parser_url) checked" where
  "url_port_step buf u =
     (if has_field u UF_PORT then
        let off = unat (uf_off u UF_PORT); len = unat (uf_len u UF_PORT)
        in if off + len \<le> length buf then
             (case port_loop (take len (drop off buf)) 0 of
                None \<Rightarrow> Inr (1, u)
              | Some v \<Rightarrow> Inr (0, u\<lparr>url_port := ucast v\<rparr>))
           else Inl Assertion
      else Inr (0, u))"

definition http_parser_parse_url ::
  "string \<Rightarrow> bool \<Rightarrow> http_parser_url \<Rightarrow> (int \<times> http_parser_url) checked" where
  "http_parser_parse_url buf is_connect u =
     (if length buf = 0 then Inr (1, u)
      else
        let u = u\<lparr>url_port := 0, field_set := 0\<rparr>;
            s = (if is_connect then s_req_server_start else s_req_spaces_before_url)
        in checked_bind (parse_url_loop buf 0 s None False u) (\<lambda>r.
             case r of
               Inl u \<Rightarrow> Inr (1, u)
             | Inr (u, found_at) \<Rightarrow>
                 if has_field u UF_SCHEMA \<and> \<not> has_field u UF_HOST then Inr (1, u)
                 else
                   checked_bind (if has_field u UF_HOST then http_parse_host buf u found_at
                                 else Inr (0, u)) (\<lambda>(r, u).
                     if r \<noteq> 0 then Inr (1, u)
                     else if is_connect \<and>
                             field_set u \<noteq> bit_flag (uf_bit UF_HOST) OR bit_flag (uf_bit UF_PORT)
                          then Inr (1, u)
                     else url_port_step buf u)))"

text \<open>The text of a component, as the callers cut it out of the buffer.\<close>

definition field_text :: "string \<Rightarrow> http_parser_url \<Rightarrow> http_parser_url_fields \<Rightarrow> string" where
  "field_text buf u f = take (unat (uf_len u f)) (drop (unat (uf_off u f)) buf)"

end
