(* ===== verification/Http_Execute.thy ===== *)
theory Http_Execute
  imports Http_Url
begin

text \<open>
  \<^verbatim>\<open>http_parser_execute\<close> of \<^verbatim>\<open>src/lib/http-parser/http_parser.c\<close>: the local
  variables as a record, the macros as functions in continuation style (what follows the
  macro is the argument \<open>k\<close>), one definition per case of the switch, the two inner loops
  over header names and values, and the loop over the input.
\<close>

section \<open>Locals, environment, outcomes\<close>

text \<open>
  Pointers into \<^verbatim>\<open>data\<close> are offsets; a mark that is \<^verbatim>\<open>NULL\<close> is \<open>None\<close>.
\<close>

record 'u locals =
  ex_p :: nat
  ex_ch :: char
  p_state :: pstate
  l_nread :: "32 word"
  header_field_mark :: "nat option"
  header_value_mark :: "nat option"
  url_mark :: "nat option"
  body_mark :: "nat option"
  status_mark :: "nat option"
  parser :: "'u http_parser"

text \<open>
  What a call does not change: the settings, the input, the local constant
  \<^verbatim>\<open>lenient\<close> and the global \<^verbatim>\<open>max_header_size\<close>.
\<close>

record 'u env =
  settings :: "'u http_parser_settings"
  input :: string
  lenient :: bool
  max_header_size :: "32 word"

text \<open>
  How one pass through the switch ends: \<open>Break\<close> leaves the switch, \<open>Reexecute\<close> is
  \<^verbatim>\<open>goto reexecute\<close>, \<open>Return\<close> returns from the function.
\<close>

datatype 'u outcome =
    Break "'u locals"
  | Reexecute "'u locals"
  | Return nat "'u http_parser"
  | Abort abort_reason

datatype mark = M_header_field | M_header_value | M_url | M_body | M_status

primrec get_mark :: "mark \<Rightarrow> 'u locals \<Rightarrow> nat option" where
  "get_mark M_header_field s = header_field_mark s"
| "get_mark M_header_value s = header_value_mark s"
| "get_mark M_url s = url_mark s"
| "get_mark M_body s = body_mark s"
| "get_mark M_status s = status_mark s"

primrec put_mark :: "mark \<Rightarrow> nat option \<Rightarrow> 'u locals \<Rightarrow> 'u locals" where
  "put_mark M_header_field x s = s\<lparr>header_field_mark := x\<rparr>"
| "put_mark M_header_value x s = s\<lparr>header_value_mark := x\<rparr>"
| "put_mark M_url x s = s\<lparr>url_mark := x\<rparr>"
| "put_mark M_body x s = s\<lparr>body_mark := x\<rparr>"
| "put_mark M_status x s = s\<lparr>status_mark := x\<rparr>"

primrec mark_cb :: "mark \<Rightarrow> 'u http_parser_settings \<Rightarrow> 'u http_data_cb option" where
  "mark_cb M_header_field = on_header_field"
| "mark_cb M_header_value = on_header_value"
| "mark_cb M_url = on_url"
| "mark_cb M_body = on_body"
| "mark_cb M_status = on_status"

primrec mark_errno :: "mark \<Rightarrow> http_errno" where
  "mark_errno M_header_field = HPE_CB_header_field"
| "mark_errno M_header_value = HPE_CB_header_value"
| "mark_errno M_url = HPE_CB_url"
| "mark_errno M_body = HPE_CB_body"
| "mark_errno M_status = HPE_CB_status"

section \<open>The macros\<close>

definition SET_ERRNO :: "http_errno \<Rightarrow> 'u locals \<Rightarrow> 'u locals" where
  "SET_ERRNO e s = s\<lparr>parser := (parser s)\<lparr>hp_nread := l_nread s, hp_http_errno := e\<rparr>\<rparr>"

definition UPDATE_STATE :: "pstate \<Rightarrow> 'u locals \<Rightarrow> 'u locals" where
  "UPDATE_STATE v s = s\<lparr>p_state := v\<rparr>"

definition RETURN :: "nat \<Rightarrow> 'u locals \<Rightarrow> 'u outcome" where
  "RETURN n s = Return n ((parser s)\<lparr>hp_nread := l_nread s, hp_state := p_state s\<rparr>)"

text \<open>The code after the label \<^verbatim>\<open>error:\<close>.\<close>

definition goto_error :: "'u locals \<Rightarrow> 'u outcome" where
  "goto_error s =
     (let s = (if hp_http_errno (parser s) = HPE_OK then SET_ERRNO HPE_UNKNOWN s else s)
      in RETURN (ex_p s) s)"

definition fail :: "http_errno \<Rightarrow> 'u locals \<Rightarrow> 'u outcome" where
  "fail e s = goto_error (SET_ERRNO e s)"

definition MARK :: "mark \<Rightarrow> 'u locals \<Rightarrow> 'u locals" where
  "MARK m s = (if get_mark m s = None then put_mark m (Some (ex_p s)) s else s)"

definition COUNT_HEADER_SIZE ::
  "'u env \<Rightarrow> nat \<Rightarrow> 'u locals \<Rightarrow> ('u locals \<Rightarrow> 'u outcome) \<Rightarrow> 'u outcome" where
  "COUNT_HEADER_SIZE e v s k =
     (let s = s\<lparr>l_nread := l_nread s + of_nat v\<rparr>
      in if l_nread s > max_header_size e then fail HPE_HEADER_OVERFLOW s else k s)"

definition STRICT_CHECK ::
  "bool \<Rightarrow> 'u locals \<Rightarrow> ('u locals \<Rightarrow> 'u outcome) \<Rightarrow> 'u outcome" where
  "STRICT_CHECK cond s k = (if cond then fail HPE_STRICT s else k s)"

text \<open>
  The common end of the callback macros: the callback returned \<open>r\<close> and left the parser
  object as \<open>q\<close>; \<open>er\<close> is what the function returns if the callback failed or paused.
\<close>

definition after_callback ::
  "int \<Rightarrow> 'u http_parser \<Rightarrow> http_errno \<Rightarrow> nat \<Rightarrow> 'u locals \<Rightarrow>
     ('u locals \<Rightarrow> 'u outcome) \<Rightarrow> 'u outcome" where
  "after_callback r q err er s k =
     (let s = s\<lparr>parser := q\<rparr>;
          s = (if r \<noteq> 0 then SET_ERRNO err s else s);
          s = UPDATE_STATE (hp_state (parser s)) s
      in if hp_http_errno (parser s) \<noteq> HPE_OK then Return er (parser s) else k s)"

definition CALLBACK_NOTIFY_AT ::
  "('u http_parser_settings \<Rightarrow> 'u http_cb option) \<Rightarrow> http_errno \<Rightarrow> nat \<Rightarrow> 'u env \<Rightarrow>
     'u locals \<Rightarrow> ('u locals \<Rightarrow> 'u outcome) \<Rightarrow> 'u outcome" where
  "CALLBACK_NOTIFY_AT cb err er e s k =
     (if hp_http_errno (parser s) \<noteq> HPE_OK then Abort Assertion
      else case cb (settings e) of
        None \<Rightarrow> k s
      | Some f \<Rightarrow>
          (case f ((parser s)\<lparr>hp_state := p_state s\<rparr>) of
             Inl r \<Rightarrow> Abort r
           | Inr (r, q) \<Rightarrow> after_callback r q err er s k))"

definition CALLBACK_NOTIFY ::
  "('u http_parser_settings \<Rightarrow> 'u http_cb option) \<Rightarrow> http_errno \<Rightarrow> 'u env \<Rightarrow>
     'u locals \<Rightarrow> ('u locals \<Rightarrow> 'u outcome) \<Rightarrow> 'u outcome" where
  "CALLBACK_NOTIFY cb err e s k = CALLBACK_NOTIFY_AT cb err (ex_p s + 1) e s k"

definition CALLBACK_NOTIFY_NOADVANCE ::
  "('u http_parser_settings \<Rightarrow> 'u http_cb option) \<Rightarrow> http_errno \<Rightarrow> 'u env \<Rightarrow>
     'u locals \<Rightarrow> ('u locals \<Rightarrow> 'u outcome) \<Rightarrow> 'u outcome" where
  "CALLBACK_NOTIFY_NOADVANCE cb err e s k = CALLBACK_NOTIFY_AT cb err (ex_p s) e s k"

text \<open>
  The length of a data callback is given by its end: \<^verbatim>\<open>LEN = stop - mark\<close>. Bytes outside
  the input would be an out-of-bounds access of the callback.
\<close>

definition CALLBACK_DATA_AT ::
  "mark \<Rightarrow> nat \<Rightarrow> nat \<Rightarrow> 'u env \<Rightarrow> 'u locals \<Rightarrow> ('u locals \<Rightarrow> 'u outcome) \<Rightarrow> 'u outcome" where
  "CALLBACK_DATA_AT m stop er e s k =
     (if hp_http_errno (parser s) \<noteq> HPE_OK then Abort Assertion
      else case get_mark m s of
        None \<Rightarrow> k s
      | Some at \<Rightarrow>
          (case mark_cb m (settings e) of
             None \<Rightarrow> k (put_mark m None s)
           | Some f \<Rightarrow>
               if \<not> (at \<le> stop \<and> stop \<le> length (input e)) then Abort Out_of_bounds
               else
                 (case f (take (stop - at) (drop at (input e)))
                        ((parser s)\<lparr>hp_state := p_state s\<rparr>) of
                    Inl r \<Rightarrow> Abort r
                  | Inr (r, q) \<Rightarrow>
                      after_callback r q (mark_errno m) er s (\<lambda>s. k (put_mark m None s)))))"

definition CALLBACK_DATA ::
  "mark \<Rightarrow> 'u env \<Rightarrow> 'u locals \<Rightarrow> ('u locals \<Rightarrow> 'u outcome) \<Rightarrow> 'u outcome" where
  "CALLBACK_DATA m e s k = CALLBACK_DATA_AT m (ex_p s) (ex_p s + 1) e s k"

definition CALLBACK_DATA_NOADVANCE ::
  "mark \<Rightarrow> 'u env \<Rightarrow> 'u locals \<Rightarrow> ('u locals \<Rightarrow> 'u outcome) \<Rightarrow> 'u outcome" where
  "CALLBACK_DATA_NOADVANCE m e s k = CALLBACK_DATA_AT m (ex_p s) (ex_p s) e s k"

section \<open>Start of a message\<close>

definition exec_dead :: "'u env \<Rightarrow> 'u locals \<Rightarrow> 'u outcome" where [step_defs]:
  "exec_dead e s =
     (if ex_ch s = CR \<or> ex_ch s = LF then Break s else fail HPE_CLOSED_CONNECTION s)"

definition exec_start_req_or_res :: "'u env \<Rightarrow> 'u locals \<Rightarrow> 'u outcome" where [step_defs]:
  "exec_start_req_or_res e s =
     (if ex_ch s = CR \<or> ex_ch s = LF then Break s
      else
        let s = s\<lparr>parser := (parser s)\<lparr>hp_flags := 0, hp_content_length := ULLONG_MAX\<rparr>\<rparr>
        in if ex_ch s = CHR ''H''
           then CALLBACK_NOTIFY on_message_begin HPE_CB_message_begin e
                  (UPDATE_STATE s_res_or_resp_H s) Break
           else Reexecute
                  (UPDATE_STATE s_start_req
                    (s\<lparr>parser := (parser s)\<lparr>hp_type := HTTP_REQUEST\<rparr>\<rparr>)))"

definition exec_res_or_resp_H :: "'u env \<Rightarrow> 'u locals \<Rightarrow> 'u outcome" where [step_defs]:
  "exec_res_or_resp_H e s =
     (if ex_ch s = CHR ''T''
      then Break (UPDATE_STATE s_res_HT (s\<lparr>parser := (parser s)\<lparr>hp_type := HTTP_RESPONSE\<rparr>\<rparr>))
      else if ex_ch s \<noteq> CHR ''E'' then fail HPE_INVALID_CONSTANT s
      else Break (UPDATE_STATE s_req_method
             (s\<lparr>parser := (parser s)\<lparr>hp_type := HTTP_REQUEST, hp_method := HTTP_HEAD,
                                     hp_index := 2\<rparr>\<rparr>)))"

section \<open>The status line of a response\<close>

definition exec_start_res :: "'u env \<Rightarrow> 'u locals \<Rightarrow> 'u outcome" where [step_defs]:
  "exec_start_res e s =
     (if ex_ch s = CR \<or> ex_ch s = LF then Break s
      else
        let s = s\<lparr>parser := (parser s)\<lparr>hp_flags := 0, hp_content_length := ULLONG_MAX\<rparr>\<rparr>
        in if ex_ch s = CHR ''H''
           then CALLBACK_NOTIFY on_message_begin HPE_CB_message_begin e
                  (UPDATE_STATE s_res_H s) Break
           else fail HPE_INVALID_CONSTANT s)"

text \<open>
  The states that expect one fixed character: \<^verbatim>\<open>STRICT_CHECK(ch != c);
  UPDATE_STATE(next); break;\<close>.
\<close>

definition expect :: "char \<Rightarrow> pstate \<Rightarrow> 'u locals \<Rightarrow> 'u outcome" where [step_defs]:
  "expect c next s = STRICT_CHECK (ex_ch s \<noteq> c) s (\<lambda>s. Break (UPDATE_STATE next s))"

definition exec_res_H :: "'u env \<Rightarrow> 'u locals \<Rightarrow> 'u outcome" where [step_defs]:
  "exec_res_H e = expect CHR ''T'' s_res_HT"

definition exec_res_HT :: "'u env \<Rightarrow> 'u locals \<Rightarrow> 'u outcome" where [step_defs]:
  "exec_res_HT e = expect CHR ''T'' s_res_HTT"

definition exec_res_HTT :: "'u env \<Rightarrow> 'u locals \<Rightarrow> 'u outcome" where [step_defs]:
  "exec_res_HTT e = expect CHR ''P'' s_res_HTTP"

definition exec_res_HTTP :: "'u env \<Rightarrow> 'u locals \<Rightarrow> 'u outcome" where [step_defs]:
  "exec_res_HTTP e = expect CHR ''/'' s_res_http_major"

text \<open>One digit of the version, in the status line and in the request line.\<close>

definition exec_http_major :: "pstate \<Rightarrow> 'u locals \<Rightarrow> 'u outcome" where [step_defs]:
  "exec_http_major next s =
     (if \<not> IS_NUM (ex_ch s) then fail HPE_INVALID_VERSION s
      else Break (UPDATE_STATE next
             (s\<lparr>parser := (parser s)\<lparr>hp_http_major := of_nat (digit_val (ex_ch s))\<rparr>\<rparr>)))"

definition exec_http_dot :: "pstate \<Rightarrow> 'u locals \<Rightarrow> 'u outcome" where [step_defs]:
  "exec_http_dot next s =
     (if ex_ch s \<noteq> CHR ''.'' then fail HPE_INVALID_VERSION s
      else Break (UPDATE_STATE next s))"

definition exec_http_minor :: "pstate \<Rightarrow> 'u locals \<Rightarrow> 'u outcome" where [step_defs]:
  "exec_http_minor next s =
     (if \<not> IS_NUM (ex_ch s) then fail HPE_INVALID_VERSION s
      else Break (UPDATE_STATE next
             (s\<lparr>parser := (parser s)\<lparr>hp_http_minor := of_nat (digit_val (ex_ch s))\<rparr>\<rparr>)))"

definition exec_res_http_end :: "'u env \<Rightarrow> 'u locals \<Rightarrow> 'u outcome" where [step_defs]:
  "exec_res_http_end e s =
     (if ex_ch s \<noteq> SP then fail HPE_INVALID_VERSION s
      else Break (UPDATE_STATE s_res_first_status_code s))"

definition exec_res_first_status_code :: "'u env \<Rightarrow> 'u locals \<Rightarrow> 'u outcome" where [step_defs]:
  "exec_res_first_status_code e s =
     (if \<not> IS_NUM (ex_ch s) then
        (if ex_ch s = SP then Break s else fail HPE_INVALID_STATUS s)
      else Break (UPDATE_STATE s_res_status_code
             (s\<lparr>parser := (parser s)\<lparr>hp_status_code := of_nat (digit_val (ex_ch s))\<rparr>\<rparr>)))"

definition exec_res_status_code :: "'u env \<Rightarrow> 'u locals \<Rightarrow> 'u outcome" where [step_defs]:
  "exec_res_status_code e s =
     (if \<not> IS_NUM (ex_ch s) then
        (if ex_ch s = SP then Break (UPDATE_STATE s_res_status_start s)
         else if ex_ch s = CR \<or> ex_ch s = LF then Reexecute (UPDATE_STATE s_res_status_start s)
         else fail HPE_INVALID_STATUS s)
      else
        let s = s\<lparr>parser := (parser s)\<lparr>hp_status_code :=
                   hp_status_code (parser s) * 10 + of_nat (digit_val (ex_ch s))\<rparr>\<rparr>
        in if hp_status_code (parser s) > 999 then fail HPE_INVALID_STATUS s else Break s)"

definition exec_res_status_start :: "'u env \<Rightarrow> 'u locals \<Rightarrow> 'u outcome" where [step_defs]:
  "exec_res_status_start e s =
     (let s = UPDATE_STATE s_res_status (MARK M_status s);
          s = s\<lparr>parser := (parser s)\<lparr>hp_index := 0\<rparr>\<rparr>
      in if ex_ch s = CR \<or> ex_ch s = LF then Reexecute s else Break s)"

definition exec_res_status :: "'u env \<Rightarrow> 'u locals \<Rightarrow> 'u outcome" where [step_defs]:
  "exec_res_status e s =
     (if ex_ch s = CR
      then CALLBACK_DATA M_status e (UPDATE_STATE s_res_line_almost_done s) Break
      else if ex_ch s = LF
      then CALLBACK_DATA M_status e (UPDATE_STATE s_header_field_start s) Break
      else Break s)"

definition exec_res_line_almost_done :: "'u env \<Rightarrow> 'u locals \<Rightarrow> 'u outcome" where [step_defs]:
  "exec_res_line_almost_done e = expect LF s_header_field_start"

section \<open>The request line\<close>

text \<open>The method a request starts with, by its first letter.\<close>

definition first_method :: "char \<Rightarrow> http_method option" where
  "first_method ch = map_of
     [(CHR ''A'', HTTP_ACL), (CHR ''B'', HTTP_BIND), (CHR ''C'', HTTP_CONNECT),
      (CHR ''D'', HTTP_DELETE), (CHR ''G'', HTTP_GET), (CHR ''H'', HTTP_HEAD),
      (CHR ''L'', HTTP_LOCK), (CHR ''M'', HTTP_MKCOL), (CHR ''N'', HTTP_NOTIFY),
      (CHR ''O'', HTTP_OPTIONS), (CHR ''P'', HTTP_POST), (CHR ''R'', HTTP_REPORT),
      (CHR ''S'', HTTP_SUBSCRIBE), (CHR ''T'', HTTP_TRACE), (CHR ''U'', HTTP_UNLOCK)] ch"

definition exec_start_req :: "'u env \<Rightarrow> 'u locals \<Rightarrow> 'u outcome" where [step_defs]:
  "exec_start_req e s =
     (if ex_ch s = CR \<or> ex_ch s = LF then Break s
      else
        let s = s\<lparr>parser := (parser s)\<lparr>hp_flags := 0, hp_content_length := ULLONG_MAX\<rparr>\<rparr>
        in if \<not> IS_ALPHA (ex_ch s) then fail HPE_INVALID_METHOD s
           else
             let s = s\<lparr>parser := (parser s)\<lparr>hp_method := HTTP_DELETE, hp_index := 1\<rparr>\<rparr>
             in case first_method (ex_ch s) of
                  None \<Rightarrow> fail HPE_INVALID_METHOD s
                | Some m \<Rightarrow>
                    CALLBACK_NOTIFY on_message_begin HPE_CB_message_begin e
                      (UPDATE_STATE s_req_method
                        (s\<lparr>parser := (parser s)\<lparr>hp_method := m\<rparr>\<rparr>)) Break)"

text \<open>
  The switch on \<^verbatim>\<open>method << 16 | index << 8 | ch\<close>: where the current guess mismatches,
  the method that shares the prefix and goes on with \<open>ch\<close>.
\<close>

definition method_switch :: "http_method \<Rightarrow> nat \<Rightarrow> char \<Rightarrow> http_method option" where
  "method_switch m i ch = map_of
     [((HTTP_POST, 1, CHR ''U''), HTTP_PUT),
      ((HTTP_POST, 1, CHR ''A''), HTTP_PATCH),
      ((HTTP_POST, 1, CHR ''R''), HTTP_PROPFIND),
      ((HTTP_PUT, 2, CHR ''R''), HTTP_PURGE),
      ((HTTP_CONNECT, 1, CHR ''H''), HTTP_CHECKOUT),
      ((HTTP_CONNECT, 2, CHR ''P''), HTTP_COPY),
      ((HTTP_MKCOL, 1, CHR ''O''), HTTP_MOVE),
      ((HTTP_MKCOL, 1, CHR ''E''), HTTP_MERGE),
      ((HTTP_MKCOL, 1, CHR ''-''), HTTP_MSEARCH),
      ((HTTP_MKCOL, 2, CHR ''A''), HTTP_MKACTIVITY),
      ((HTTP_MKCOL, 3, CHR ''A''), HTTP_MKCALENDAR),
      ((HTTP_SUBSCRIBE, 1, CHR ''E''), HTTP_SEARCH),
      ((HTTP_SUBSCRIBE, 1, CHR ''O''), HTTP_SOURCE),
      ((HTTP_REPORT, 2, CHR ''B''), HTTP_REBIND),
      ((HTTP_PROPFIND, 4, CHR ''P''), HTTP_PROPPATCH),
      ((HTTP_LOCK, 1, CHR ''I''), HTTP_LINK),
      ((HTTP_UNLOCK, 2, CHR ''S''), HTTP_UNSUBSCRIBE),
      ((HTTP_UNLOCK, 2, CHR ''B''), HTTP_UNBIND),
      ((HTTP_UNLOCK, 3, CHR ''I''), HTTP_UNLINK)] (m, i, ch)"

definition is_method_char :: "char \<Rightarrow> bool" where
  "is_method_char ch \<longleftrightarrow>
     (uchar ch \<ge> uchar CHR ''A'' \<and> uchar ch \<le> uchar CHR ''Z'') \<or> ch = CHR ''-''"

definition exec_req_method :: "'u env \<Rightarrow> 'u locals \<Rightarrow> 'u outcome" where [step_defs]:
  "exec_req_method e s =
     (if ex_ch s = NUL then fail HPE_INVALID_METHOD s
      else
        let q = parser s; i = unat (hp_index q);
            next = (\<lambda>s. Break (s\<lparr>parser := (parser s)\<lparr>hp_index := hp_index (parser s) + 1\<rparr>\<rparr>))
        in case c_str_at (method_string (hp_method q)) i of
             Inl r \<Rightarrow> Abort r
           | Inr m \<Rightarrow>
               if ex_ch s = SP \<and> m = NUL then next (UPDATE_STATE s_req_spaces_before_url s)
               else if ex_ch s = m then next s
               else if is_method_char (ex_ch s) then
                 (case method_switch (hp_method q) i (ex_ch s) of
                    Some new_meth \<Rightarrow> next (s\<lparr>parser := q\<lparr>hp_method := new_meth\<rparr>\<rparr>)
                  | None \<Rightarrow> fail HPE_INVALID_METHOD s)
               else fail HPE_INVALID_METHOD s)"

text \<open>\<^verbatim>\<open>UPDATE_STATE(parse_url_char(CURRENT_STATE(), ch))\<close> and the test for \<open>s_dead\<close>.\<close>

definition url_step :: "'u locals \<Rightarrow> 'u outcome" where [step_defs]:
  "url_step s =
     (let s = UPDATE_STATE (parse_url_char (p_state s) (ex_ch s)) s
      in if p_state s = s_dead then fail HPE_INVALID_URL s else Break s)"

definition exec_req_spaces_before_url :: "'u env \<Rightarrow> 'u locals \<Rightarrow> 'u outcome" where [step_defs]:
  "exec_req_spaces_before_url e s =
     (if ex_ch s = SP then Break s
      else
        let s = MARK M_url s;
            s = (if hp_method (parser s) = HTTP_CONNECT then UPDATE_STATE s_req_server_start s
                 else s)
        in url_step s)"

definition exec_req_schema :: "'u env \<Rightarrow> 'u locals \<Rightarrow> 'u outcome" where [step_defs]:
  "exec_req_schema e s =
     (if ex_ch s = SP \<or> ex_ch s = CR \<or> ex_ch s = LF then fail HPE_INVALID_URL s
      else url_step s)"

definition exec_req_url :: "'u env \<Rightarrow> 'u locals \<Rightarrow> 'u outcome" where [step_defs]:
  "exec_req_url e s =
     (if ex_ch s = SP
      then CALLBACK_DATA M_url e (UPDATE_STATE s_req_http_start s) Break
      else if ex_ch s = CR \<or> ex_ch s = LF
      then CALLBACK_DATA M_url e
             (UPDATE_STATE (if ex_ch s = CR then s_req_line_almost_done else s_header_field_start)
               (s\<lparr>parser := (parser s)\<lparr>hp_http_major := 0, hp_http_minor := 9\<rparr>\<rparr>)) Break
      else url_step s)"

definition exec_req_http_start :: "'u env \<Rightarrow> 'u locals \<Rightarrow> 'u outcome" where [step_defs]:
  "exec_req_http_start e s =
     (if ex_ch s = SP then Break s
      else if ex_ch s = CHR ''H'' then Break (UPDATE_STATE s_req_http_H s)
      else if ex_ch s = CHR ''I'' \<and> hp_method (parser s) = HTTP_SOURCE
      then Break (UPDATE_STATE s_req_http_I s)
      else fail HPE_INVALID_CONSTANT s)"

definition exec_req_http_H :: "'u env \<Rightarrow> 'u locals \<Rightarrow> 'u outcome" where [step_defs]:
  "exec_req_http_H e = expect CHR ''T'' s_req_http_HT"

definition exec_req_http_HT :: "'u env \<Rightarrow> 'u locals \<Rightarrow> 'u outcome" where [step_defs]:
  "exec_req_http_HT e = expect CHR ''T'' s_req_http_HTT"

definition exec_req_http_HTT :: "'u env \<Rightarrow> 'u locals \<Rightarrow> 'u outcome" where [step_defs]:
  "exec_req_http_HTT e = expect CHR ''P'' s_req_http_HTTP"

definition exec_req_http_I :: "'u env \<Rightarrow> 'u locals \<Rightarrow> 'u outcome" where [step_defs]:
  "exec_req_http_I e = expect CHR ''C'' s_req_http_IC"

text \<open>"ICE" is treated as "HTTP".\<close>

definition exec_req_http_IC :: "'u env \<Rightarrow> 'u locals \<Rightarrow> 'u outcome" where [step_defs]:
  "exec_req_http_IC e = expect CHR ''E'' s_req_http_HTTP"

definition exec_req_http_HTTP :: "'u env \<Rightarrow> 'u locals \<Rightarrow> 'u outcome" where [step_defs]:
  "exec_req_http_HTTP e = expect CHR ''/'' s_req_http_major"

definition exec_req_http_end :: "'u env \<Rightarrow> 'u locals \<Rightarrow> 'u outcome" where [step_defs]:
  "exec_req_http_end e s =
     (if ex_ch s = CR then Break (UPDATE_STATE s_req_line_almost_done s)
      else if ex_ch s = LF then Break (UPDATE_STATE s_header_field_start s)
      else fail HPE_INVALID_VERSION s)"

definition exec_req_line_almost_done :: "'u env \<Rightarrow> 'u locals \<Rightarrow> 'u outcome" where [step_defs]:
  "exec_req_line_almost_done e s =
     (if ex_ch s \<noteq> LF then fail HPE_LF_EXPECTED s
      else Break (UPDATE_STATE s_header_field_start s))"

section \<open>Header names\<close>

definition exec_header_field_start :: "'u env \<Rightarrow> 'u locals \<Rightarrow> 'u outcome" where [step_defs]:
  "exec_header_field_start e s =
     (if ex_ch s = CR then Break (UPDATE_STATE s_headers_almost_done s)
      else if ex_ch s = LF then Reexecute (UPDATE_STATE s_headers_almost_done s)
      else
        let c = TOKEN (ex_ch s)
        in if c = NUL then fail HPE_INVALID_HEADER_TOKEN s
           else
             let s = UPDATE_STATE s_header_field (MARK M_header_field s);
                 h = (if c = CHR ''c'' then h_C
                      else if c = CHR ''p'' then h_matching_proxy_connection
                      else if c = CHR ''t'' then h_matching_transfer_encoding
                      else if c = CHR ''u'' then h_matching_upgrade
                      else h_general)
             in Break (s\<lparr>parser := (parser s)\<lparr>hp_index := 0, hp_header_state := h\<rparr>\<rparr>))"

text \<open>
  \<^verbatim>\<open>parser->index > sizeof(STR)-1 || c != STR[parser->index]\<close> (no match), else
  \<^verbatim>\<open>parser->index == sizeof(STR)-2\<close> (the whole word has been seen).
\<close>

datatype word_match = No_match | More | Whole_word

definition match_word :: "string \<Rightarrow> char \<Rightarrow> nat \<Rightarrow> word_match checked" where
  "match_word str c i =
     (if i > length str then Inr No_match
      else checked_bind (c_str_at str i) (\<lambda>d.
        Inr (if c \<noteq> d then No_match else if i = length str - 1 then Whole_word else More)))"

text \<open>
  One pass through the switch of the header-name loop, without the fast scan of
  \<open>h_general\<close>; \<open>Inl\<close> is a failed assertion.
\<close>

definition match_field ::
  "string \<Rightarrow> header_states \<Rightarrow> char \<Rightarrow> 'u http_parser \<Rightarrow> 'u http_parser checked" where
  "match_field str whole c q =
     (let q = q\<lparr>hp_index := hp_index q + 1\<rparr>
      in checked_bind (match_word str c (unat (hp_index q))) (\<lambda>m.
           Inr (case m of
                  No_match \<Rightarrow> q\<lparr>hp_header_state := h_general\<rparr>
                | Whole_word \<Rightarrow> q\<lparr>hp_header_state := whole\<rparr>
                | More \<Rightarrow> q)))"

definition header_field_char ::
  "char \<Rightarrow> char \<Rightarrow> 'u http_parser \<Rightarrow> 'u http_parser checked" where
  "header_field_char c ch q =
     (let q' = q\<lparr>hp_index := hp_index q + 1\<rparr>
      in case hp_header_state q of
        h_general \<Rightarrow> Inr q
      | h_C \<Rightarrow> Inr (q'\<lparr>hp_header_state := (if c = CHR ''o'' then h_CO else h_general)\<rparr>)
      | h_CO \<Rightarrow> Inr (q'\<lparr>hp_header_state := (if c = CHR ''n'' then h_CON else h_general)\<rparr>)
      | h_CON \<Rightarrow> Inr (q'\<lparr>hp_header_state :=
          (if c = CHR ''n'' then h_matching_connection
           else if c = CHR ''t'' then h_matching_content_length
           else h_general)\<rparr>)
      | h_matching_connection \<Rightarrow> match_field ''connection'' h_connection c q
      | h_matching_proxy_connection \<Rightarrow> match_field ''proxy-connection'' h_connection c q
      | h_matching_content_length \<Rightarrow> match_field ''content-length'' h_content_length c q
      | h_matching_transfer_encoding \<Rightarrow>
          checked_bind (match_field ''transfer-encoding'' h_transfer_encoding c q) (\<lambda>q.
            Inr (if hp_header_state q = h_transfer_encoding
                 then q\<lparr>hp_flags := add_flag (hp_flags q) F_TRANSFER_ENCODING\<rparr> else q))
      | h_matching_upgrade \<Rightarrow> match_field ''upgrade'' h_upgrade c q
      | h_connection \<Rightarrow> Inr (if ch \<noteq> SP then q\<lparr>hp_header_state := h_general\<rparr> else q)
      | h_content_length \<Rightarrow> Inr (if ch \<noteq> SP then q\<lparr>hp_header_state := h_general\<rparr> else q)
      | h_transfer_encoding \<Rightarrow> Inr (if ch \<noteq> SP then q\<lparr>hp_header_state := h_general\<rparr> else q)
      | h_upgrade \<Rightarrow> Inr (if ch \<noteq> SP then q\<lparr>hp_header_state := h_general\<rparr> else q)
      | _ \<Rightarrow> Inl Assertion)"

text \<open>\<^verbatim>\<open>while (p+1 < pe && TOKEN(p[1])) p++;\<close>\<close>

function field_scan :: "string \<Rightarrow> nat \<Rightarrow> nat \<Rightarrow> nat" where
  "field_scan d pe p =
     (if p + 1 < pe \<and> TOKEN (d ! (p + 1)) \<noteq> NUL then field_scan d pe (p + 1) else p)"
  by pat_completeness auto
termination
  by (relation "measure (\<lambda>(d, pe, p). pe - p)") auto

declare field_scan.simps [simp del]

lemma field_scan_ge: "p \<le> field_scan d pe p"
  by (induction d pe p rule: field_scan.induct) (subst field_scan.simps, auto)

lemma field_scan_less: "p < pe \<Longrightarrow> field_scan d pe p < pe"
  by (induction d pe p rule: field_scan.induct) (subst field_scan.simps, auto)

text \<open>\<^verbatim>\<open>p + MIN(left, max_header_size)\<close>, the limit of the fast scans.\<close>

definition scan_limit :: "'u env \<Rightarrow> nat \<Rightarrow> nat" where
  "scan_limit e p = p + min (length (input e) - p) (unat (max_header_size e))"

text \<open>
  The loop of \<open>s_header_field\<close> from offset \<open>p\<close>: the offset where it stops (the end of
  the input, or a character that is no token), the last character read, the parser object.
\<close>

function header_field_loop ::
  "'u env \<Rightarrow> nat \<Rightarrow> char \<Rightarrow> 'u http_parser \<Rightarrow> (nat \<times> char \<times> 'u http_parser) checked" where
  "header_field_loop e p ch q =
     (if p < length (input e) then
        let ch = input e ! p; c = TOKEN ch
        in if c = NUL then Inr (p, ch, q)
           else case header_field_char c ch q of
                  Inl r \<Rightarrow> Inl r
                | Inr q' \<Rightarrow>
                    header_field_loop e
                      (Suc (if hp_header_state q = h_general
                            then field_scan (input e) (scan_limit e p) p else p)) ch q'
      else if p = length (input e) then Inr (p, ch, q)
      else Inl Out_of_bounds)"
  by pat_completeness auto
termination
proof (relation "measure (\<lambda>(e, p, ch, q). length (input e) - p)", simp)
  fix e :: "'u env" and p :: nat and q :: "'u http_parser"
  assume "p < length (input e)"
  then show "((e, Suc (if hp_header_state q = h_general
               then field_scan (input e) (scan_limit e p) p else p), ch', q'), e, p, ch, q)
     \<in> measure (\<lambda>(e, p, ch, q). length (input e) - p)" for ch ch' q'
    using field_scan_ge [of p "input e" "scan_limit e p"] by auto
qed

declare header_field_loop.simps [simp del]

definition exec_header_field :: "'u env \<Rightarrow> 'u locals \<Rightarrow> 'u outcome" where [step_defs]:
  "exec_header_field e s =
     (let start = ex_p s
      in case header_field_loop e (ex_p s) (ex_ch s) (parser s) of
           Inl r \<Rightarrow> Abort r
         | Inr (p, ch, q) \<Rightarrow>
             let s = s\<lparr>ex_p := p, ex_ch := ch, parser := q\<rparr>
             in if p = length (input e)
                then COUNT_HEADER_SIZE e (p - 1 - start) (s\<lparr>ex_p := p - 1\<rparr>) Break
                else COUNT_HEADER_SIZE e (p - start) s (\<lambda>s.
                       if ex_ch s = CHR '':''
                       then CALLBACK_DATA M_header_field e
                              (UPDATE_STATE s_header_value_discard_ws s) Break
                       else fail HPE_INVALID_HEADER_TOKEN s))"

section \<open>Header values\<close>

definition set_header_state :: "header_states \<Rightarrow> 'u locals \<Rightarrow> 'u locals" where
  "set_header_state h s = s\<lparr>parser := (parser s)\<lparr>hp_header_state := h\<rparr>\<rparr>"

definition set_flag :: "flag \<Rightarrow> 'u locals \<Rightarrow> 'u locals" where
  "set_flag F s = s\<lparr>parser := (parser s)\<lparr>hp_flags := add_flag (hp_flags (parser s)) F\<rparr>\<rparr>"

definition exec_header_value_start :: "'u env \<Rightarrow> 'u locals \<Rightarrow> 'u outcome" where [step_defs]:
  "exec_header_value_start e s =
     (let s = UPDATE_STATE s_header_value (MARK M_header_value s);
          s = s\<lparr>parser := (parser s)\<lparr>hp_index := 0\<rparr>\<rparr>;
          c = LOWER (ex_ch s)
      in case hp_header_state (parser s) of
        h_upgrade \<Rightarrow> Break (set_header_state h_general (set_flag F_UPGRADE s))
      | h_transfer_encoding \<Rightarrow>
          Break (set_header_state
            (if c = CHR ''c'' then h_matching_transfer_encoding_chunked
             else h_matching_transfer_encoding_token) s)
      | h_matching_transfer_encoding_token_start \<Rightarrow> Break s
      | h_content_length \<Rightarrow>
          if \<not> IS_NUM (ex_ch s) then fail HPE_INVALID_CONTENT_LENGTH s
          else if has_flag (hp_flags (parser s)) F_CONTENTLENGTH
          then fail HPE_UNEXPECTED_CONTENT_LENGTH s
          else
            let s = set_flag F_CONTENTLENGTH s;
                s = s\<lparr>parser := (parser s)\<lparr>hp_content_length := of_nat (digit_val (ex_ch s))\<rparr>\<rparr>
            in Break (set_header_state h_content_length_num s)
      | h_content_length_ws \<Rightarrow> Break s
      | h_connection \<Rightarrow>
          Break (set_header_state
            (if c = CHR ''k'' then h_matching_connection_keep_alive
             else if c = CHR ''c'' then h_matching_connection_close
             else if c = CHR ''u'' then h_matching_connection_upgrade
             else h_matching_connection_token) s)
      | h_matching_connection_token_start \<Rightarrow> Break s
      | _ \<Rightarrow> Break (set_header_state h_general s))"

definition exec_header_value_discard_ws :: "'u env \<Rightarrow> 'u locals \<Rightarrow> 'u outcome" where [step_defs]:
  "exec_header_value_discard_ws e s =
     (if ex_ch s = SP \<or> ex_ch s = HT then Break s
      else if ex_ch s = CR then Break (UPDATE_STATE s_header_value_discard_ws_almost_done s)
      else if ex_ch s = LF then Break (UPDATE_STATE s_header_value_discard_lws s)
      else exec_header_value_start e s)"

text \<open>
  One pass through the switch of the header-value loop for a header state other than
  \<open>h_general\<close>: the new \<^verbatim>\<open>h_state\<close> and parser object, an error (with the header state
  that is stored before \<^verbatim>\<open>goto error\<close>), or a failed assertion.
\<close>

datatype 'u hv_step =
    HV_go header_states "'u http_parser"
  | HV_bad http_errno header_states
  | HV_assert
  | HV_bounds

definition match_value ::
  "string \<Rightarrow> header_states \<Rightarrow> header_states \<Rightarrow> header_states \<Rightarrow> char \<Rightarrow> 'u http_parser \<Rightarrow>
     'u hv_step" where
  "match_value str h token whole c q =
     (let q = q\<lparr>hp_index := hp_index q + 1\<rparr>
      in case match_word str c (unat (hp_index q)) of
           Inl r \<Rightarrow> HV_bounds
         | Inr No_match \<Rightarrow> HV_go token q
         | Inr Whole_word \<Rightarrow> HV_go whole q
         | Inr More \<Rightarrow> HV_go h q)"

definition content_length_digit :: "char \<Rightarrow> 'u http_parser \<Rightarrow> 'u hv_step" where
  "content_length_digit ch q =
     (if ch = SP then HV_go h_content_length_ws q
      else if \<not> IS_NUM ch then HV_bad HPE_INVALID_CONTENT_LENGTH h_content_length_num
      else
        let t = hp_content_length q * 10 + of_nat (digit_val ch)
        in if (ULLONG_MAX - 10) div 10 < hp_content_length q
           then HV_bad HPE_INVALID_CONTENT_LENGTH h_content_length_num
           else HV_go h_content_length_num (q\<lparr>hp_content_length := t\<rparr>))"

definition header_value_char ::
  "char \<Rightarrow> header_states \<Rightarrow> 'u http_parser \<Rightarrow> 'u hv_step" where
  "header_value_char ch h q =
     (let c = LOWER ch; q0 = q\<lparr>hp_index := 0\<rparr>;
          end_token = (\<lambda>F.
            if ch = CHR '','' then
              HV_go h_matching_connection_token_start
                (q0\<lparr>hp_flags := add_flag (hp_flags q) F\<rparr>)
            else if ch \<noteq> SP then HV_go h_matching_connection_token q
            else HV_go h q)
      in case h of
        h_connection \<Rightarrow> HV_assert
      | h_transfer_encoding \<Rightarrow> HV_assert
      | h_content_length \<Rightarrow>
          if ch = SP then HV_go h q else content_length_digit ch q
      | h_content_length_num \<Rightarrow> content_length_digit ch q
      | h_content_length_ws \<Rightarrow>
          if ch = SP then HV_go h q else HV_bad HPE_INVALID_CONTENT_LENGTH h
      | h_matching_transfer_encoding_token_start \<Rightarrow>
          HV_go (if c = CHR ''c'' then h_matching_transfer_encoding_chunked
                 else if STRICT_TOKEN c \<noteq> NUL then h_matching_transfer_encoding_token
                 else if c = SP \<or> c = HT then h
                 else h_general) q
      | h_matching_transfer_encoding_chunked \<Rightarrow>
          match_value ''chunked'' h h_matching_transfer_encoding_token
            h_transfer_encoding_chunked c q
      | h_matching_transfer_encoding_token \<Rightarrow>
          if ch = CHR '','' then HV_go h_matching_transfer_encoding_token_start q0
          else HV_go h q
      | h_matching_connection_token_start \<Rightarrow>
          HV_go (if c = CHR ''k'' then h_matching_connection_keep_alive
                 else if c = CHR ''c'' then h_matching_connection_close
                 else if c = CHR ''u'' then h_matching_connection_upgrade
                 else if STRICT_TOKEN c \<noteq> NUL then h_matching_connection_token
                 else if c = SP \<or> c = HT then h
                 else h_general) q
      | h_matching_connection_keep_alive \<Rightarrow>
          match_value ''keep-alive'' h h_matching_connection_token h_connection_keep_alive c q
      | h_matching_connection_close \<Rightarrow>
          match_value ''close'' h h_matching_connection_token h_connection_close c q
      | h_matching_connection_upgrade \<Rightarrow>
          match_value ''upgrade'' h h_matching_connection_token h_connection_upgrade c q
      | h_matching_connection_token \<Rightarrow>
          if ch = CHR '','' then HV_go h_matching_connection_token_start q0
          else HV_go h q
      | h_transfer_encoding_chunked \<Rightarrow>
          HV_go (if ch \<noteq> SP then h_matching_transfer_encoding_token else h) q
      | h_connection_keep_alive \<Rightarrow> end_token F_CONNECTION_KEEP_ALIVE
      | h_connection_close \<Rightarrow> end_token F_CONNECTION_CLOSE
      | h_connection_upgrade \<Rightarrow> end_token F_CONNECTION_UPGRADE
      | _ \<Rightarrow> HV_go h_general q)"

text \<open>
  The scan of \<open>h_general\<close>: \<open>Inl p\<close> is an invalid character at \<open>p\<close>, \<open>Inr p\<close> the end
  of the scan (before a CR or LF it steps back by one).
\<close>

function value_scan :: "bool \<Rightarrow> string \<Rightarrow> nat \<Rightarrow> nat \<Rightarrow> nat + nat" where
  "value_scan l d pe p =
     (if p < pe then
        let ch = d ! p
        in if ch = CR \<or> ch = LF then Inr (p - 1)
           else if \<not> l \<and> \<not> IS_HEADER_CHAR ch then Inl p
           else value_scan l d pe (p + 1)
      else Inr p)"
  by pat_completeness auto
termination
  by (relation "measure (\<lambda>(l, d, pe, p). pe - p)") auto

declare value_scan.simps [simp del]

lemma value_scan_bounds:
  "value_scan l d pe p = Inr p' \<Longrightarrow> p \<le> pe \<Longrightarrow> p \<le> Suc p' \<and> p' \<le> pe"
proof (induction l d pe p rule: value_scan.induct)
  case (1 l d pe p)
  from "1.prems"(1) show ?case
    by (subst (asm) value_scan.simps)
      (use "1.prems"(2) "1.IH" in \<open>auto simp: Let_def split: if_splits\<close>)
qed

lemma value_scan_ge:
  assumes "value_scan l d pe p = Inr p'" and "p \<le> pe" and "d ! p \<noteq> CR" and "d ! p \<noteq> LF"
  shows "p \<le> p'"
proof (cases "p < pe")
  case True
  with assms have "value_scan l d pe (p + 1) = Inr p'"
    by (subst (asm) value_scan.simps) (auto simp: Let_def split: if_splits)
  from value_scan_bounds [OF this] True show ?thesis by simp
next
  case False
  with assms(1,2) show ?thesis by (subst (asm) value_scan.simps) simp
qed

lemma scan_limit_bounds:
  "p \<le> length (input e) \<Longrightarrow> p \<le> scan_limit e p \<and> scan_limit e p \<le> length (input e)"
  by (auto simp: scan_limit_def)

lemma value_scan_progress:
  assumes "value_scan l (input e) (scan_limit e p) p = Inr p'" and "p < length (input e)"
    and "input e ! p \<noteq> CR" and "input e ! p \<noteq> LF"
  shows "p \<le> p'" and "p' \<le> length (input e)"
proof -
  have lim: "p \<le> scan_limit e p" "scan_limit e p \<le> length (input e)"
    using scan_limit_bounds [of p e] assms(2) by auto
  show "p \<le> p'" using value_scan_ge [OF assms(1) lim(1) assms(3,4)] .
  show "p' \<le> length (input e)" using value_scan_bounds [OF assms(1) lim(1)] lim(2) by simp
qed

text \<open>How the loop over a header value ends.\<close>

datatype 'u hv_exit =
    HV_end nat header_states "'u http_parser"
  | HV_CR nat header_states "'u http_parser"
  | HV_LF nat header_states "'u http_parser"
  | HV_fail nat http_errno "'u http_parser"
  | HV_abort abort_reason

function header_value_loop ::
  "'u env \<Rightarrow> nat \<Rightarrow> header_states \<Rightarrow> 'u http_parser \<Rightarrow> 'u hv_exit" where
  "header_value_loop e p h q =
     (if p < length (input e) then
        let ch = input e ! p
        in if ch = CR then HV_CR p h q
           else if ch = LF then HV_LF p h q
           else if \<not> lenient e \<and> \<not> IS_HEADER_CHAR ch then HV_fail p HPE_INVALID_HEADER_TOKEN q
           else if h = h_general then
             (case value_scan (lenient e) (input e) (scan_limit e p) p of
                Inl p' \<Rightarrow> HV_fail p' HPE_INVALID_HEADER_TOKEN q
              | Inr p' \<Rightarrow>
                  header_value_loop e (Suc (if p' = length (input e) then p' - 1 else p')) h q)
           else
             (case header_value_char ch h q of
                HV_go h' q' \<Rightarrow> header_value_loop e (Suc p) h' q'
              | HV_bad err h' \<Rightarrow> HV_fail p err (q\<lparr>hp_header_state := h'\<rparr>)
              | HV_assert \<Rightarrow> HV_abort Assertion
              | HV_bounds \<Rightarrow> HV_abort Out_of_bounds)
      else if p = length (input e) then HV_end p h q
      else HV_abort Out_of_bounds)"
  by pat_completeness auto
termination
  by (relation "measure (\<lambda>(e, p, h, q). length (input e) - p)")
    (auto dest: value_scan_progress)

declare header_value_loop.simps [simp del]

definition exec_header_value :: "'u env \<Rightarrow> 'u locals \<Rightarrow> 'u outcome" where [step_defs]:
  "exec_header_value e s =
     (let start = ex_p s
      in case header_value_loop e (ex_p s) (hp_header_state (parser s)) (parser s) of
           HV_abort r \<Rightarrow> Abort r
         | HV_fail p err q \<Rightarrow> fail err (s\<lparr>ex_p := p, parser := q\<rparr>)
         | HV_CR p h q \<Rightarrow>
             CALLBACK_DATA M_header_value e
               (set_header_state h (UPDATE_STATE s_header_almost_done
                 (s\<lparr>ex_p := p, ex_ch := CR, parser := q\<rparr>)))
               (\<lambda>s. COUNT_HEADER_SIZE e (p - start) (set_header_state h s) Break)
         | HV_LF p h q \<Rightarrow>
             COUNT_HEADER_SIZE e (p - start)
               (UPDATE_STATE s_header_almost_done (s\<lparr>ex_p := p, ex_ch := LF, parser := q\<rparr>))
               (\<lambda>s. CALLBACK_DATA_NOADVANCE M_header_value e (set_header_state h s) Reexecute)
         | HV_end p h q \<Rightarrow>
             COUNT_HEADER_SIZE e (p - 1 - start)
               (set_header_state h (s\<lparr>ex_p := p - 1, parser := q\<rparr>)) Break)"

definition exec_header_almost_done :: "'u env \<Rightarrow> 'u locals \<Rightarrow> 'u outcome" where [step_defs]:
  "exec_header_almost_done e s =
     (if ex_ch s \<noteq> LF then fail HPE_LF_EXPECTED s
      else Break (UPDATE_STATE s_header_value_lws s))"

text \<open>The flag a finished header value sets.\<close>

definition finish_header :: "'u locals \<Rightarrow> 'u locals" where
  "finish_header s =
     (case hp_header_state (parser s) of
        h_connection_keep_alive \<Rightarrow> set_flag F_CONNECTION_KEEP_ALIVE s
      | h_connection_close \<Rightarrow> set_flag F_CONNECTION_CLOSE s
      | h_transfer_encoding_chunked \<Rightarrow> set_flag F_CHUNKED s
      | h_connection_upgrade \<Rightarrow> set_flag F_CONNECTION_UPGRADE s
      | _ \<Rightarrow> s)"

definition exec_header_value_lws :: "'u env \<Rightarrow> 'u locals \<Rightarrow> 'u outcome" where [step_defs]:
  "exec_header_value_lws e s =
     (if ex_ch s = SP \<or> ex_ch s = HT then
        Reexecute (UPDATE_STATE s_header_value_start
          (if hp_header_state (parser s) = h_content_length_num
           then set_header_state h_content_length_ws s else s))
      else Reexecute (UPDATE_STATE s_header_field_start (finish_header s)))"

definition exec_header_value_discard_ws_almost_done ::
  "'u env \<Rightarrow> 'u locals \<Rightarrow> 'u outcome" where [step_defs]:
  "exec_header_value_discard_ws_almost_done e = expect LF s_header_value_discard_lws"

definition exec_header_value_discard_lws :: "'u env \<Rightarrow> 'u locals \<Rightarrow> 'u outcome" where [step_defs]:
  "exec_header_value_discard_lws e s =
     (if ex_ch s = SP \<or> ex_ch s = HT then Break (UPDATE_STATE s_header_value_discard_ws s)
      else if hp_header_state (parser s) = h_content_length then fail HPE_INVALID_CONTENT_LENGTH s
      else
        CALLBACK_DATA_NOADVANCE M_header_value e
          (UPDATE_STATE s_header_field_start (MARK M_header_value (finish_header s))) Reexecute)"

section \<open>End of the headers\<close>

definition new_message :: "'u env \<Rightarrow> 'u locals \<Rightarrow> ('u locals \<Rightarrow> 'u outcome) \<Rightarrow> 'u outcome" where
  "new_message e s k =
     CALLBACK_NOTIFY on_message_complete HPE_CB_message_complete e
       (UPDATE_STATE (NEW_MESSAGE (parser s)) s) k"

text \<open>
  \<^verbatim>\<open>on_headers_complete\<close> is called without the callback macro: the state is not stored
  before the call nor read back after it, and the result 1 or 2 is no error.
\<close>

definition headers_complete :: "'u env \<Rightarrow> 'u locals \<Rightarrow> 'u outcome" where
  "headers_complete e s =
     (let finish = (\<lambda>s. if hp_http_errno (parser s) \<noteq> HPE_OK then RETURN (ex_p s) s
                        else Reexecute s)
      in case on_headers_complete (settings e) of
           None \<Rightarrow> finish s
         | Some f \<Rightarrow>
             (case f (parser s) of
                Inl r \<Rightarrow> Abort r
              | Inr (r, q) \<Rightarrow>
                  let s = s\<lparr>parser := q\<rparr>
                  in if r = 0 then finish s
                     else if r = 2
                     then finish (set_flag F_SKIPBODY (s\<lparr>parser := q\<lparr>hp_upgrade := True\<rparr>\<rparr>))
                     else if r = 1 then finish (set_flag F_SKIPBODY s)
                     else let s = SET_ERRNO HPE_CB_headers_complete s in RETURN (ex_p s) s))"

definition exec_headers_almost_done :: "'u env \<Rightarrow> 'u locals \<Rightarrow> 'u outcome" where [step_defs]:
  "exec_headers_almost_done e s =
     STRICT_CHECK (ex_ch s \<noteq> LF) s (\<lambda>s.
       let q = parser s; fl = hp_flags q
       in if has_flag fl F_TRAILING then
            CALLBACK_NOTIFY_NOADVANCE on_chunk_complete HPE_CB_chunk_complete e
              (UPDATE_STATE s_message_done s) Reexecute
          else if has_flag fl F_TRANSFER_ENCODING \<and> has_flag fl F_CONTENTLENGTH \<and>
                  (\<not> lenient e \<or> has_flag fl F_CHUNKED)
          then fail HPE_UNEXPECTED_CONTENT_LENGTH s
          else
            let up = (if has_flag fl F_UPGRADE \<and> has_flag fl F_CONNECTION_UPGRADE
                      then hp_type q = HTTP_REQUEST \<or> hp_status_code q = 101
                      else hp_method q = HTTP_CONNECT)
            in headers_complete e
                 ((UPDATE_STATE s_headers_done s)\<lparr>parser := q\<lparr>hp_upgrade := up\<rparr>\<rparr>))"

definition reset_nread :: "'u locals \<Rightarrow> 'u locals" where
  "reset_nread s = s\<lparr>l_nread := 0, parser := (parser s)\<lparr>hp_nread := 0\<rparr>\<rparr>"

definition exec_headers_done :: "'u env \<Rightarrow> 'u locals \<Rightarrow> 'u outcome" where [step_defs]:
  "exec_headers_done e s =
     STRICT_CHECK (ex_ch s \<noteq> LF) s (\<lambda>s.
       let s = reset_nread s; q = parser s; fl = hp_flags q;
           hasBody = (has_flag fl F_CHUNKED \<or>
                      (hp_content_length q > 0 \<and> hp_content_length q \<noteq> ULLONG_MAX))
       in if hp_upgrade q \<and>
             (hp_method q = HTTP_CONNECT \<or> has_flag fl F_SKIPBODY \<or> \<not> hasBody)
          then new_message e s (\<lambda>s. RETURN (ex_p s + 1) s)
          else if has_flag fl F_SKIPBODY then new_message e s Break
          else if has_flag fl F_CHUNKED then Break (UPDATE_STATE s_chunk_size_start s)
          else if has_flag fl F_TRANSFER_ENCODING then
            (if hp_type q = HTTP_REQUEST \<and> \<not> lenient e
             then RETURN (ex_p s) (SET_ERRNO HPE_INVALID_TRANSFER_ENCODING s)
             else Break (UPDATE_STATE s_body_identity_eof s))
          else if hp_content_length q = 0 then new_message e s Break
          else if hp_content_length q \<noteq> ULLONG_MAX then Break (UPDATE_STATE s_body_identity s)
          else if \<not> http_message_needs_eof q then new_message e s Break
          else Break (UPDATE_STATE s_body_identity_eof s))"

section \<open>Bodies and chunks\<close>

definition assert_that :: "bool \<Rightarrow> 'u outcome \<Rightarrow> 'u outcome" where
  "assert_that b k = (if b then k else Abort Assertion)"

text \<open>\<^verbatim>\<open>MIN(parser->content_length, (uint64_t)((data + len) - p))\<close>\<close>

definition to_read :: "'u env \<Rightarrow> 'u locals \<Rightarrow> 64 word" where
  "to_read e s = min (hp_content_length (parser s)) (of_nat (length (input e) - ex_p s))"

text \<open>
  \<^verbatim>\<open>MARK(body); parser->content_length -= to_read; p += to_read - 1;\<close>
\<close>

definition consume_body :: "'u env \<Rightarrow> 'u locals \<Rightarrow> 'u locals" where
  "consume_body e s =
     (let n = to_read e s; s = MARK M_body s
      in s\<lparr>ex_p := ex_p s + unat n - 1,
           parser := (parser s)\<lparr>hp_content_length := hp_content_length (parser s) - n\<rparr>\<rparr>)"

definition exec_body_identity :: "'u env \<Rightarrow> 'u locals \<Rightarrow> 'u outcome" where [step_defs]:
  "exec_body_identity e s =
     assert_that (hp_content_length (parser s) \<noteq> 0 \<and>
                  hp_content_length (parser s) \<noteq> ULLONG_MAX)
       (let s = consume_body e s
        in if hp_content_length (parser s) = 0
           then CALLBACK_DATA_AT M_body (ex_p s + 1) (ex_p s) e (UPDATE_STATE s_message_done s)
                  Reexecute
           else Break s)"

definition exec_body_identity_eof :: "'u env \<Rightarrow> 'u locals \<Rightarrow> 'u outcome" where [step_defs]:
  "exec_body_identity_eof e s = Break ((MARK M_body s)\<lparr>ex_p := length (input e) - 1\<rparr>)"

definition exec_message_done :: "'u env \<Rightarrow> 'u locals \<Rightarrow> 'u outcome" where [step_defs]:
  "exec_message_done e s =
     new_message e s (\<lambda>s. if hp_upgrade (parser s) then RETURN (ex_p s + 1) s else Break s)"

definition is_chunked :: "'u locals \<Rightarrow> bool" where
  "is_chunked s \<longleftrightarrow> has_flag (hp_flags (parser s)) F_CHUNKED"

definition exec_chunk_size_start :: "'u env \<Rightarrow> 'u locals \<Rightarrow> 'u outcome" where [step_defs]:
  "exec_chunk_size_start e s =
     assert_that (l_nread s = 1) (assert_that (is_chunked s)
       (let unhex_val = unhex ! uchar (ex_ch s)
        in if unhex_val = -1 then fail HPE_INVALID_CHUNK_SIZE s
           else Break (UPDATE_STATE s_chunk_size
                  (s\<lparr>parser := (parser s)\<lparr>hp_content_length := of_int unhex_val\<rparr>\<rparr>))))"

definition exec_chunk_size :: "'u env \<Rightarrow> 'u locals \<Rightarrow> 'u outcome" where [step_defs]:
  "exec_chunk_size e s =
     assert_that (is_chunked s)
       (if ex_ch s = CR then Break (UPDATE_STATE s_chunk_size_almost_done s)
        else
          let unhex_val = unhex ! uchar (ex_ch s)
          in if unhex_val = -1 then
               (if ex_ch s = CHR '';'' \<or> ex_ch s = SP
                then Break (UPDATE_STATE s_chunk_parameters s)
                else fail HPE_INVALID_CHUNK_SIZE s)
             else
               let t = hp_content_length (parser s) * 16 + of_int unhex_val
               in if (ULLONG_MAX - 16) div 16 < hp_content_length (parser s)
                  then fail HPE_INVALID_CONTENT_LENGTH s
                  else Break (s\<lparr>parser := (parser s)\<lparr>hp_content_length := t\<rparr>\<rparr>))"

definition exec_chunk_parameters :: "'u env \<Rightarrow> 'u locals \<Rightarrow> 'u outcome" where [step_defs]:
  "exec_chunk_parameters e s =
     assert_that (is_chunked s)
       (if ex_ch s = CR then Break (UPDATE_STATE s_chunk_size_almost_done s) else Break s)"

definition exec_chunk_size_almost_done :: "'u env \<Rightarrow> 'u locals \<Rightarrow> 'u outcome" where [step_defs]:
  "exec_chunk_size_almost_done e s =
     assert_that (is_chunked s)
       (STRICT_CHECK (ex_ch s \<noteq> LF) s (\<lambda>s.
          let s = reset_nread s;
              s = (if hp_content_length (parser s) = 0
                   then UPDATE_STATE s_header_field_start (set_flag F_TRAILING s)
                   else UPDATE_STATE s_chunk_data s)
          in CALLBACK_NOTIFY on_chunk_header HPE_CB_chunk_header e s Break))"

definition exec_chunk_data :: "'u env \<Rightarrow> 'u locals \<Rightarrow> 'u outcome" where [step_defs]:
  "exec_chunk_data e s =
     assert_that (is_chunked s)
       (assert_that (hp_content_length (parser s) \<noteq> 0 \<and>
                     hp_content_length (parser s) \<noteq> ULLONG_MAX)
          (let s = consume_body e s
           in if hp_content_length (parser s) = 0
              then Break (UPDATE_STATE s_chunk_data_almost_done s)
              else Break s))"

definition exec_chunk_data_almost_done :: "'u env \<Rightarrow> 'u locals \<Rightarrow> 'u outcome" where [step_defs]:
  "exec_chunk_data_almost_done e s =
     assert_that (is_chunked s)
       (assert_that (hp_content_length (parser s) = 0)
          (STRICT_CHECK (ex_ch s \<noteq> CR) s (\<lambda>s.
             CALLBACK_DATA M_body e (UPDATE_STATE s_chunk_data_done s) Break)))"

definition exec_chunk_data_done :: "'u env \<Rightarrow> 'u locals \<Rightarrow> 'u outcome" where [step_defs]:
  "exec_chunk_data_done e s =
     assert_that (is_chunked s)
       (STRICT_CHECK (ex_ch s \<noteq> LF) s (\<lambda>s.
          CALLBACK_NOTIFY on_chunk_complete HPE_CB_chunk_complete e
            (UPDATE_STATE s_chunk_size_start (reset_nread s)) Break))"

section \<open>The switch, the loop, the function\<close>

definition exec_switch :: "'u env \<Rightarrow> 'u locals \<Rightarrow> 'u outcome" where
  "exec_switch e s =
     (case p_state s of
        s_dead \<Rightarrow> exec_dead e s
      | s_start_req_or_res \<Rightarrow> exec_start_req_or_res e s
      | s_res_or_resp_H \<Rightarrow> exec_res_or_resp_H e s
      | s_start_res \<Rightarrow> exec_start_res e s
      | s_res_H \<Rightarrow> exec_res_H e s
      | s_res_HT \<Rightarrow> exec_res_HT e s
      | s_res_HTT \<Rightarrow> exec_res_HTT e s
      | s_res_HTTP \<Rightarrow> exec_res_HTTP e s
      | s_res_http_major \<Rightarrow> exec_http_major s_res_http_dot s
      | s_res_http_dot \<Rightarrow> exec_http_dot s_res_http_minor s
      | s_res_http_minor \<Rightarrow> exec_http_minor s_res_http_end s
      | s_res_http_end \<Rightarrow> exec_res_http_end e s
      | s_res_first_status_code \<Rightarrow> exec_res_first_status_code e s
      | s_res_status_code \<Rightarrow> exec_res_status_code e s
      | s_res_status_start \<Rightarrow> exec_res_status_start e s
      | s_res_status \<Rightarrow> exec_res_status e s
      | s_res_line_almost_done \<Rightarrow> exec_res_line_almost_done e s
      | s_start_req \<Rightarrow> exec_start_req e s
      | s_req_method \<Rightarrow> exec_req_method e s
      | s_req_spaces_before_url \<Rightarrow> exec_req_spaces_before_url e s
      | s_req_schema \<Rightarrow> exec_req_schema e s
      | s_req_schema_slash \<Rightarrow> exec_req_schema e s
      | s_req_schema_slash_slash \<Rightarrow> exec_req_schema e s
      | s_req_server_start \<Rightarrow> exec_req_schema e s
      | s_req_server \<Rightarrow> exec_req_url e s
      | s_req_server_with_at \<Rightarrow> exec_req_url e s
      | s_req_path \<Rightarrow> exec_req_url e s
      | s_req_query_string_start \<Rightarrow> exec_req_url e s
      | s_req_query_string \<Rightarrow> exec_req_url e s
      | s_req_fragment_start \<Rightarrow> exec_req_url e s
      | s_req_fragment \<Rightarrow> exec_req_url e s
      | s_req_http_start \<Rightarrow> exec_req_http_start e s
      | s_req_http_H \<Rightarrow> exec_req_http_H e s
      | s_req_http_HT \<Rightarrow> exec_req_http_HT e s
      | s_req_http_HTT \<Rightarrow> exec_req_http_HTT e s
      | s_req_http_HTTP \<Rightarrow> exec_req_http_HTTP e s
      | s_req_http_I \<Rightarrow> exec_req_http_I e s
      | s_req_http_IC \<Rightarrow> exec_req_http_IC e s
      | s_req_http_major \<Rightarrow> exec_http_major s_req_http_dot s
      | s_req_http_dot \<Rightarrow> exec_http_dot s_req_http_minor s
      | s_req_http_minor \<Rightarrow> exec_http_minor s_req_http_end s
      | s_req_http_end \<Rightarrow> exec_req_http_end e s
      | s_req_line_almost_done \<Rightarrow> exec_req_line_almost_done e s
      | s_header_field_start \<Rightarrow> exec_header_field_start e s
      | s_header_field \<Rightarrow> exec_header_field e s
      | s_header_value_discard_ws \<Rightarrow> exec_header_value_discard_ws e s
      | s_header_value_discard_ws_almost_done \<Rightarrow> exec_header_value_discard_ws_almost_done e s
      | s_header_value_discard_lws \<Rightarrow> exec_header_value_discard_lws e s
      | s_header_value_start \<Rightarrow> exec_header_value_start e s
      | s_header_value \<Rightarrow> exec_header_value e s
      | s_header_value_lws \<Rightarrow> exec_header_value_lws e s
      | s_header_almost_done \<Rightarrow> exec_header_almost_done e s
      | s_chunk_size_start \<Rightarrow> exec_chunk_size_start e s
      | s_chunk_size \<Rightarrow> exec_chunk_size e s
      | s_chunk_parameters \<Rightarrow> exec_chunk_parameters e s
      | s_chunk_size_almost_done \<Rightarrow> exec_chunk_size_almost_done e s
      | s_headers_almost_done \<Rightarrow> exec_headers_almost_done e s
      | s_headers_done \<Rightarrow> exec_headers_done e s
      | s_chunk_data \<Rightarrow> exec_chunk_data e s
      | s_chunk_data_almost_done \<Rightarrow> exec_chunk_data_almost_done e s
      | s_chunk_data_done \<Rightarrow> exec_chunk_data_done e s
      | s_body_identity \<Rightarrow> exec_body_identity e s
      | s_body_identity_eof \<Rightarrow> exec_body_identity_eof e s
      | s_message_done \<Rightarrow> exec_message_done e s)"

text \<open>
  From the label \<^verbatim>\<open>reexecute\<close> to the first exit of the switch that is not a
  \<^verbatim>\<open>goto reexecute\<close>. Callbacks can change the state, so the repetition need not end:
  \<open>None\<close> is "does not return".
\<close>

partial_function (option) dispatch :: "'u env \<Rightarrow> 'u locals \<Rightarrow> 'u outcome option" where
  "dispatch e s =
     (case exec_switch e s of
        Reexecute s' \<Rightarrow> dispatch e s'
      | Break s' \<Rightarrow> Some (Break s')
      | Return n q \<Rightarrow> Some (Return n q)
      | Abort r \<Rightarrow> Some (Abort r))"

text \<open>The code after the loop: the leftover marks.\<close>

definition marks_set :: "'u locals \<Rightarrow> nat" where
  "marks_set s =
     length (filter (\<lambda>m. get_mark m s \<noteq> None)
       [M_header_field, M_header_value, M_url, M_body, M_status])"

definition finish_execute :: "'u env \<Rightarrow> 'u locals \<Rightarrow> 'u outcome" where
  "finish_execute e s =
     assert_that (marks_set s \<le> 1)
       (CALLBACK_DATA_NOADVANCE M_header_field e s (\<lambda>s.
        CALLBACK_DATA_NOADVANCE M_header_value e s (\<lambda>s.
        CALLBACK_DATA_NOADVANCE M_url e s (\<lambda>s.
        CALLBACK_DATA_NOADVANCE M_body e s (\<lambda>s.
        CALLBACK_DATA_NOADVANCE M_status e s (\<lambda>s.
          RETURN (length (input e)) s))))))"

text \<open>\<^verbatim>\<open>ch = *p; if (PARSING_HEADER(CURRENT_STATE())) COUNT_HEADER_SIZE(1);\<close>\<close>

definition begin_byte :: "'u env \<Rightarrow> 'u locals \<Rightarrow> 'u outcome" where
  "begin_byte e s =
     (let s = s\<lparr>ex_ch := input e ! ex_p s\<rparr>
      in if PARSING_HEADER (p_state s) then COUNT_HEADER_SIZE e 1 s Reexecute else Reexecute s)"

definition next_byte :: "'u locals \<Rightarrow> 'u locals" where
  "next_byte s = s\<lparr>ex_p := Suc (ex_p s)\<rparr>"

partial_function (option) execute_loop :: "'u env \<Rightarrow> 'u locals \<Rightarrow> 'u outcome option" where
  "execute_loop e s =
     (if ex_p s = length (input e) then Some (finish_execute e s)
      else if ex_p s > length (input e) then Some (Abort Out_of_bounds)
      else case begin_byte e s of
        Reexecute s' \<Rightarrow>
          (case dispatch e s' of
             None \<Rightarrow> None
           | Some r \<Rightarrow>
               (case r of
                  Break s'' \<Rightarrow> execute_loop e (next_byte s'')
                | Reexecute s'' \<Rightarrow> None
                | Return n q \<Rightarrow> Some (Return n q)
                | Abort a \<Rightarrow> Some (Abort a)))
      | Break s' \<Rightarrow> Some (Break s')
      | Return n q \<Rightarrow> Some (Return n q)
      | Abort a \<Rightarrow> Some (Abort a))"

declare dispatch.simps [code] execute_loop.simps [code]

definition url_mark_states :: "pstate set" where
  "url_mark_states =
     {s_req_path, s_req_schema, s_req_schema_slash, s_req_schema_slash_slash, s_req_server_start,
      s_req_server, s_req_server_with_at, s_req_query_string_start, s_req_query_string,
      s_req_fragment_start, s_req_fragment}"

text \<open>The locals before the loop: the marks of a token that began in an earlier call.\<close>

definition start_locals :: "'u http_parser \<Rightarrow> 'u locals" where
  "start_locals q = \<lparr>
     ex_p = 0, ex_ch = NUL, p_state = hp_state q, l_nread = hp_nread q,
     header_field_mark = (if hp_state q = s_header_field then Some 0 else None),
     header_value_mark = (if hp_state q = s_header_value then Some 0 else None),
     url_mark = (if hp_state q \<in> url_mark_states then Some 0 else None),
     body_mark = None,
     status_mark = (if hp_state q = s_res_status then Some 0 else None),
     parser = q\<rparr>"

text \<open>A call with \<^verbatim>\<open>len == 0\<close> signals the end of the stream.\<close>

definition execute_eof :: "'u env \<Rightarrow> 'u http_parser \<Rightarrow> 'u outcome" where
  "execute_eof e q =
     (let s = start_locals q
      in case hp_state q of
           s_body_identity_eof \<Rightarrow>
             CALLBACK_NOTIFY_NOADVANCE on_message_complete HPE_CB_message_complete e s
               (\<lambda>s. Return 0 (parser s))
         | s_dead \<Rightarrow> Return 0 q
         | s_start_req_or_res \<Rightarrow> Return 0 q
         | s_start_res \<Rightarrow> Return 0 q
         | s_start_req \<Rightarrow> Return 0 q
         | _ \<Rightarrow> Return 1 (parser (SET_ERRNO HPE_INVALID_EOF_STATE s)))"

definition mk_env ::
  "32 word \<Rightarrow> 'u http_parser_settings \<Rightarrow> 'u http_parser \<Rightarrow> string \<Rightarrow> 'u env" where
  "mk_env mx st q data =
     \<lparr>settings = st, input = data, lenient = hp_lenient_http_headers q, max_header_size = mx\<rparr>"

text \<open>
  \<open>mx\<close> is the value of the global \<^verbatim>\<open>max_header_size\<close>. The result: \<open>None\<close> if the call
  does not return, \<open>Abort\<close> if the process stops, otherwise \<open>Return n q\<close> with the number of
  bytes and the parser object.
\<close>

definition http_parser_execute ::
  "32 word \<Rightarrow> 'u http_parser_settings \<Rightarrow> 'u http_parser \<Rightarrow> string \<Rightarrow> 'u outcome option" where
  "http_parser_execute mx st q data =
     (let e = mk_env mx st q data
      in if hp_http_errno q \<noteq> HPE_OK then Some (Return 0 q)
         else if length data = 0 then Some (execute_eof e q)
         else execute_loop e (start_locals q))"

end
