(* ===== verification/Http_Safety.thy ===== *)
theory Http_Safety
  imports Http_Execute
begin

text \<open>
  Safety and termination of \<^verbatim>\<open>http_parser_execute\<close> for any table of callbacks that keep
  to the documented interface (they may pause the parser and change their own data, no other
  field): no assertion of the parser fails, no read leaves its array, the call returns, and
  the number of parsed bytes is what the header file promises. The state-dependent invariant
  \<open>state_inv\<close> says what each state of the automaton relies on.
\<close>

section \<open>Invariants\<close>

text \<open>The header states the loop over header names can be in.\<close>

definition field_hstate :: "header_states \<Rightarrow> bool" where
  "field_hstate h \<longleftrightarrow> header_state_num h \<le> 10 \<or> h = h_transfer_encoding \<or> h = h_upgrade"

text \<open>The header states the loop over header values asserts it is never in.\<close>

definition value_hstate :: "header_states \<Rightarrow> bool" where
  "value_hstate h \<longleftrightarrow> h \<noteq> h_connection \<and> h \<noteq> h_transfer_encoding"

text \<open>
  What a state relies on; \<open>k\<close> is the value of \<^verbatim>\<open>nread\<close> in \<open>s_chunk_size_start\<close>, 0 between
  two bytes and 1 once the byte has been counted.
\<close>

definition state_inv :: "nat \<Rightarrow> pstate \<Rightarrow> 32 word \<Rightarrow> 'u http_parser \<Rightarrow> bool" where
  "state_inv k st nr q =
     (let chunked = has_flag (hp_flags q) F_CHUNKED; cl = hp_content_length q
      in case st of
        s_req_method \<Rightarrow> unat (hp_index q) \<le> length (method_string (hp_method q))
      | s_header_field \<Rightarrow> field_hstate (hp_header_state q)
      | s_header_value \<Rightarrow> value_hstate (hp_header_state q)
      | s_chunk_size_start \<Rightarrow> chunked \<and> nr = of_nat k
      | s_chunk_size \<Rightarrow> chunked \<and> cl \<noteq> ULLONG_MAX
      | s_chunk_parameters \<Rightarrow> chunked \<and> cl \<noteq> ULLONG_MAX
      | s_chunk_size_almost_done \<Rightarrow> chunked \<and> cl \<noteq> ULLONG_MAX
      | s_chunk_data \<Rightarrow> chunked \<and> cl \<noteq> 0 \<and> cl \<noteq> ULLONG_MAX
      | s_chunk_data_almost_done \<Rightarrow> chunked \<and> cl = 0
      | s_chunk_data_done \<Rightarrow> chunked
      | s_body_identity \<Rightarrow> cl \<noteq> 0 \<and> cl \<noteq> ULLONG_MAX
      | _ \<Rightarrow> True)"

text \<open>A parser object between two calls.\<close>

definition parser_inv :: "'u http_parser \<Rightarrow> bool" where
  "parser_inv q \<longleftrightarrow> state_inv 0 (hp_state q) (hp_nread q) q"

text \<open>A mark is set only in the states of its token, and not beyond the current byte.\<close>

definition mark_states :: "mark \<Rightarrow> pstate set" where
  "mark_states m =
     (case m of
        M_header_field \<Rightarrow> {s_header_field}
      | M_header_value \<Rightarrow> {s_header_value}
      | M_url \<Rightarrow> url_mark_states
      | M_body \<Rightarrow> {s_body_identity, s_body_identity_eof, s_chunk_data, s_chunk_data_almost_done}
      | M_status \<Rightarrow> {s_res_status})"

definition marks_inv :: "'u locals \<Rightarrow> bool" where
  "marks_inv s \<longleftrightarrow>
     (\<forall>m at. get_mark m s = Some at \<longrightarrow> p_state s \<in> mark_states m \<and> at \<le> ex_p s)"

definition locals_inv :: "nat \<Rightarrow> 'u env \<Rightarrow> 'u locals \<Rightarrow> bool" where
  "locals_inv k e s \<longleftrightarrow>
     hp_http_errno (parser s) = HPE_OK \<and> ex_p s < length (input e) \<and> marks_inv s \<and>
     state_inv k (p_state s) (l_nread s) (parser s)"

text \<open>
  What the caller may rely on when the call returns \<open>n\<close>: \<open>n\<close> is in range, a parser that is
  not in an error state can be used again, and without error all input has been consumed,
  except after an upgrade.
\<close>

definition return_ok :: "nat \<Rightarrow> nat \<Rightarrow> 'u http_parser \<Rightarrow> bool" where
  "return_ok len n q \<longleftrightarrow>
     n \<le> len \<and>
     (hp_http_errno q = HPE_OK \<or> hp_http_errno q = HPE_PAUSED \<longrightarrow> parser_inv q) \<and>
     (hp_http_errno q = HPE_OK \<longrightarrow> n = len \<or> hp_upgrade q)"

text \<open>How often the switch can still be re-executed without a new byte.\<close>

definition rank :: "pstate \<Rightarrow> nat" where
  "rank st =
     (case st of
        s_start_req_or_res \<Rightarrow> 1
      | s_res_status_code \<Rightarrow> 2
      | s_res_status_start \<Rightarrow> 1
      | s_header_value_lws \<Rightarrow> 4
      | s_header_value_discard_lws \<Rightarrow> 4
      | s_header_field_start \<Rightarrow> 3
      | s_headers_almost_done \<Rightarrow> 2
      | s_headers_done \<Rightarrow> 1
      | s_header_value \<Rightarrow> 1
      | s_body_identity \<Rightarrow> 1
      | _ \<Rightarrow> 0)"

section \<open>Postconditions of outcomes\<close>

definition sat ::
  "('u locals \<Rightarrow> bool) \<Rightarrow> ('u locals \<Rightarrow> bool) \<Rightarrow> nat \<Rightarrow> 'u outcome \<Rightarrow> bool" where
  "sat B R len oc =
     (case oc of
        Break s \<Rightarrow> B s
      | Reexecute s \<Rightarrow> R s
      | Return n q \<Rightarrow> return_ok len n q
      | Abort a \<Rightarrow> a = Process_abort)"

lemma sat_simps [simp]:
  "sat B R len (Break s) = B s"
  "sat B R len (Reexecute s) = R s"
  "sat B R len (Return n q) = return_ok len n q"
  "sat B R len (Abort a) = (a = Process_abort)"
  by (simp_all add: sat_def)

text \<open>The postcondition of a pass through the switch from locals \<open>s\<close>.\<close>

definition step_ok :: "'u env \<Rightarrow> 'u locals \<Rightarrow> 'u outcome \<Rightarrow> bool" where
  "step_ok e s =
     sat (\<lambda>t. locals_inv 0 e t \<and> ex_p s \<le> ex_p t)
         (\<lambda>t. locals_inv 1 e t \<and> ex_p s \<le> ex_p t \<and> rank (p_state t) < rank (p_state s))
         (length (input e))"

section \<open>Callbacks\<close>

text \<open>
  The documented interface: a callback may pause the parser and change its own data; it does
  not touch the other fields of the object.
\<close>

definition callback_frame :: "'u http_parser \<Rightarrow> 'u http_parser \<Rightarrow> bool" where
  "callback_frame q q' \<longleftrightarrow>
     q' = q\<lparr>hp_http_errno := hp_http_errno q', hp_data := hp_data q'\<rparr> \<and>
     (hp_http_errno q' = hp_http_errno q \<or> hp_http_errno q' = HPE_PAUSED)"

definition callback_ok :: "'u http_cb \<Rightarrow> 'u http_parser \<Rightarrow> bool" where
  "callback_ok f q =
     (case f q of Inl r \<Rightarrow> r = Process_abort | Inr (r, q') \<Rightarrow> callback_frame q q')"

definition notify_cbs :: "'u http_parser_settings \<Rightarrow> 'u http_cb option list" where
  "notify_cbs st =
     [on_message_begin st, on_headers_complete st, on_message_complete st, on_chunk_header st,
      on_chunk_complete st]"

definition data_cbs :: "'u http_parser_settings \<Rightarrow> 'u http_data_cb option list" where
  "data_cbs st =
     [on_url st, on_status st, on_header_field st, on_header_value st, on_body st]"

locale parser_callbacks =
  fixes st :: "'u http_parser_settings"
  assumes notify_ok: "Some f \<in> set (notify_cbs st) \<Longrightarrow> callback_ok f q"
    and data_ok: "Some g \<in> set (data_cbs st) \<Longrightarrow> callback_ok (g bytes) q"

section \<open>Rules for the macros\<close>

lemma return_ok_error:
  "n \<le> len \<Longrightarrow> hp_http_errno q \<noteq> HPE_OK \<Longrightarrow> hp_http_errno q \<noteq> HPE_PAUSED \<Longrightarrow>
     return_ok len n q"
  by (simp add: return_ok_def)

lemma sat_fail [wp_rules]:
  "ex_p s \<le> len \<Longrightarrow> err \<noteq> HPE_OK \<Longrightarrow> err \<noteq> HPE_PAUSED \<Longrightarrow> sat B R len (fail err s)"
  by (simp add: fail_def goto_error_def SET_ERRNO_def RETURN_def return_ok_error)

lemma sat_COUNT_HEADER_SIZE [wp_rules]:
  "ex_p s \<le> len \<Longrightarrow> sat B R len (k (s\<lparr>l_nread := l_nread s + of_nat v\<rparr>)) \<Longrightarrow>
     sat B R len (COUNT_HEADER_SIZE e v s k)"
  by (auto simp: COUNT_HEADER_SIZE_def Let_def intro!: sat_fail)

lemma sat_STRICT_CHECK [wp_rules]:
  "ex_p s \<le> len \<Longrightarrow> (\<not> c \<Longrightarrow> sat B R len (k s)) \<Longrightarrow> sat B R len (STRICT_CHECK c s k)"
  by (auto simp: STRICT_CHECK_def intro!: sat_fail)

lemma put_mark_None: "get_mark m s = None \<Longrightarrow> put_mark m None s = s"
  by (cases m) auto

lemma mark_errno_not_OK [simp]: "mark_errno m \<noteq> HPE_OK" "mark_errno m \<noteq> HPE_PAUSED"
  by (cases m; simp)+

text \<open>\<open>state_inv\<close> does not read the fields a callback or a store of the state changes.\<close>

lemma state_inv_frame [simp]:
  "state_inv k st nr (q\<lparr>hp_state := x\<rparr>) = state_inv k st nr q"
  "state_inv k st nr (q\<lparr>hp_data := d\<rparr>) = state_inv k st nr q"
  "state_inv k st nr (q\<lparr>hp_http_errno := err\<rparr>) = state_inv k st nr q"
  "state_inv k st nr (q\<lparr>hp_nread := n\<rparr>) = state_inv k st nr q"
  by (simp_all add: state_inv_def cong: pstate.case_cong)

lemma errno_update_id: "hp_http_errno q = HPE_OK \<Longrightarrow> q\<lparr>hp_http_errno := HPE_OK\<rparr> = q"
  by (cases q) simp

lemma callback_frameE:
  assumes "callback_frame q q'" and "hp_http_errno q = HPE_OK"
  obtains d where "q' = q\<lparr>hp_data := d\<rparr>"
  | d where "q' = q\<lparr>hp_http_errno := HPE_PAUSED, hp_data := d\<rparr>"
proof -
  from assms(1) have q': "q' = q\<lparr>hp_http_errno := hp_http_errno q', hp_data := hp_data q'\<rparr>"
    and "hp_http_errno q' = HPE_OK \<or> hp_http_errno q' = HPE_PAUSED"
    by (auto simp: callback_frame_def assms(2))
  then show ?thesis
  proof (elim disjE)
    assume "hp_http_errno q' = HPE_OK"
    with q' have "q' = q\<lparr>hp_http_errno := HPE_OK\<rparr>\<lparr>hp_data := hp_data q'\<rparr>" by metis
    then show ?thesis using that(1) by (simp add: errno_update_id assms(2))
  next
    assume "hp_http_errno q' = HPE_PAUSED"
    with q' show ?thesis using that(2) by metis
  qed
qed

lemma sat_after_callback:
  assumes frame: "callback_frame ((parser s)\<lparr>hp_state := p_state s\<rparr>) q"
    and OK: "hp_http_errno (parser s) = HPE_OK"
    and er: "er \<le> len" "err \<noteq> HPE_OK" "err \<noteq> HPE_PAUSED"
    and inv: "state_inv 0 (p_state s) (hp_nread (parser s)) (parser s)"
    and k: "\<And>d. sat B R len
       (k (s\<lparr>parser := (parser s)\<lparr>hp_state := p_state s, hp_data := d\<rparr>\<rparr>))"
  shows "sat B R len (after_callback r q err er s k)"
  using frame
proof (rule callback_frameE)
  show "hp_http_errno ((parser s)\<lparr>hp_state := p_state s\<rparr>) = HPE_OK" using OK by simp
next
  fix d
  assume "q = (parser s)\<lparr>hp_state := p_state s, hp_data := d\<rparr>"
  then show ?thesis using k [of d] er
    by (auto simp: after_callback_def UPDATE_STATE_def SET_ERRNO_def Let_def OK
        intro: return_ok_error)
next
  fix d
  assume "q = (parser s)\<lparr>hp_state := p_state s, hp_http_errno := HPE_PAUSED, hp_data := d\<rparr>"
  then show ?thesis using er inv
    by (auto simp: after_callback_def UPDATE_STATE_def SET_ERRNO_def Let_def OK
        return_ok_def parser_inv_def)
qed


section \<open>Marks\<close>

lemma get_mark_frame [simp]:
  "get_mark m (s\<lparr>parser := q\<rparr>) = get_mark m s"
  "get_mark m (s\<lparr>ex_p := p\<rparr>) = get_mark m s"
  "get_mark m (s\<lparr>ex_ch := c\<rparr>) = get_mark m s"
  "get_mark m (s\<lparr>p_state := x\<rparr>) = get_mark m s"
  "get_mark m (s\<lparr>l_nread := n\<rparr>) = get_mark m s"
  by (cases m; simp)+

lemma get_mark_put [simp]:
  "get_mark m (put_mark m' x s) = (if m = m' then x else get_mark m s)"
  by (cases m; cases m') auto

lemma put_mark_frame [simp]:
  "parser (put_mark m x s) = parser s"
  "ex_p (put_mark m x s) = ex_p s"
  "ex_ch (put_mark m x s) = ex_ch s"
  "p_state (put_mark m x s) = p_state s"
  "l_nread (put_mark m x s) = l_nread s"
  by (cases m; simp)+

lemma MARK_frame [simp]:
  "parser (MARK m s) = parser s"
  "ex_p (MARK m s) = ex_p s"
  "ex_ch (MARK m s) = ex_ch s"
  "p_state (MARK m s) = p_state s"
  "l_nread (MARK m s) = l_nread s"
  by (simp_all add: MARK_def)

definition no_marks :: "'u locals \<Rightarrow> bool" where
  "no_marks s \<longleftrightarrow> (\<forall>m. get_mark m s = None)"

text \<open>At most the mark \<open>m\<close> is set, not beyond \<open>p\<close>.\<close>

definition only_mark :: "mark \<Rightarrow> nat \<Rightarrow> 'u locals \<Rightarrow> bool" where
  "only_mark m p s \<longleftrightarrow> (\<forall>m' at. get_mark m' s = Some at \<longrightarrow> m' = m \<and> at \<le> p)"

lemma no_marks_frame [simp]:
  "no_marks (s\<lparr>parser := q\<rparr>) = no_marks s"
  "no_marks (s\<lparr>ex_p := p\<rparr>) = no_marks s"
  "no_marks (s\<lparr>ex_ch := c\<rparr>) = no_marks s"
  "no_marks (s\<lparr>p_state := x\<rparr>) = no_marks s"
  "no_marks (s\<lparr>l_nread := n\<rparr>) = no_marks s"
  by (simp_all add: no_marks_def)

lemma only_mark_frame [simp]:
  "only_mark m i (s\<lparr>parser := q\<rparr>) = only_mark m i s"
  "only_mark m i (s\<lparr>ex_p := p\<rparr>) = only_mark m i s"
  "only_mark m i (s\<lparr>ex_ch := c\<rparr>) = only_mark m i s"
  "only_mark m i (s\<lparr>p_state := x\<rparr>) = only_mark m i s"
  "only_mark m i (s\<lparr>l_nread := n\<rparr>) = only_mark m i s"
  by (simp_all add: only_mark_def)

lemma marks_inv_frame [simp]:
  "marks_inv (s\<lparr>parser := q\<rparr>) = marks_inv s"
  "marks_inv (s\<lparr>ex_ch := c\<rparr>) = marks_inv s"
  "marks_inv (s\<lparr>l_nread := n\<rparr>) = marks_inv s"
  by (simp_all add: marks_inv_def)

lemma no_marks_inv: "no_marks s \<Longrightarrow> marks_inv s"
  by (simp add: no_marks_def marks_inv_def)

lemma no_marks_only: "no_marks s \<Longrightarrow> only_mark m p s"
  by (simp add: no_marks_def only_mark_def)

lemma only_mark_MARK: "only_mark m (ex_p s) s \<Longrightarrow> only_mark m (ex_p s) (MARK m s)"
  by (auto simp: only_mark_def MARK_def)

lemma only_mark_inv:
  "only_mark m p s \<Longrightarrow> p_state s \<in> mark_states m \<Longrightarrow> p \<le> ex_p s \<Longrightarrow> marks_inv s"
  by (fastforce simp: only_mark_def marks_inv_def)

lemma only_mark_put: "only_mark m p s \<Longrightarrow> no_marks (put_mark m None s)"
  by (simp add: only_mark_def no_marks_def) (metis not_Some_eq)

lemma only_mark_le: "only_mark m p s \<Longrightarrow> get_mark m s = Some at \<Longrightarrow> at \<le> p"
  by (simp add: only_mark_def)

lemma no_marks_put: "no_marks s \<Longrightarrow> no_marks (put_mark m None s)"
  by (simp add: no_marks_def)

lemma no_marks_get: "no_marks s \<Longrightarrow> get_mark m s = Some at \<Longrightarrow> at \<le> p"
  by (simp add: no_marks_def)

lemma mark_states_disjoint: "x \<in> mark_states m \<Longrightarrow> x \<in> mark_states m' \<Longrightarrow> m = m'"
  by (cases m; cases m') (auto simp: mark_states_def url_mark_states_def)

lemma marks_inv_only: "marks_inv s \<Longrightarrow> p_state s \<in> mark_states m \<Longrightarrow> only_mark m (ex_p s) s"
  using mark_states_disjoint by (fastforce simp: marks_inv_def only_mark_def)

lemma marks_inv_none: "marks_inv s \<Longrightarrow> (\<And>m. p_state s \<notin> mark_states m) \<Longrightarrow> no_marks s"
  by (simp add: marks_inv_def no_marks_def)

section \<open>Rules for the callback macros\<close>

lemma parser_id [simp]:
  "s\<lparr>parser := (parser s)\<lparr>hp_state := hp_state (parser s), hp_data := hp_data (parser s)\<rparr>\<rparr> = s"
  by (cases s, cases "parser s") simp

context parser_callbacks begin

lemma sat_CALLBACK_NOTIFY_AT:
  assumes "settings e = st" and "cb st \<in> set (notify_cbs st)"
    and "hp_http_errno (parser s) = HPE_OK"
    and "er \<le> len" and "err \<noteq> HPE_OK" and "err \<noteq> HPE_PAUSED"
    and "state_inv 0 (p_state s) (hp_nread (parser s)) (parser s)"
    and k: "\<And>x d. x \<in> {p_state s, hp_state (parser s)} \<Longrightarrow>
       sat B R len (k (s\<lparr>parser := (parser s)\<lparr>hp_state := x, hp_data := d\<rparr>\<rparr>))"
  shows "sat B R len (CALLBACK_NOTIFY_AT cb err er e s k)"
proof (cases "cb st")
  case None
  with k [of "hp_state (parser s)" "hp_data (parser s)"] assms(1,3) show ?thesis
    by (simp add: CALLBACK_NOTIFY_AT_def)
next
  case (Some f)
  let ?q = "(parser s)\<lparr>hp_state := p_state s\<rparr>"
  have "callback_ok f ?q" using notify_ok assms(2) Some by metis
  then show ?thesis using assms Some
    by (auto simp: CALLBACK_NOTIFY_AT_def callback_ok_def split: sum.splits prod.splits
        intro!: sat_after_callback)
qed

lemma sat_CALLBACK_DATA_AT:
  assumes "settings e = st"
    and "hp_http_errno (parser s) = HPE_OK"
    and "er \<le> len" and "len = length (input e)"
    and "stop \<le> len" and "\<And>at. get_mark m s = Some at \<Longrightarrow> at \<le> stop"
    and "state_inv 0 (p_state s) (hp_nread (parser s)) (parser s)"
    and k: "\<And>x d. sat B R len
       (k (put_mark m None (s\<lparr>parser := (parser s)\<lparr>hp_state := x, hp_data := d\<rparr>\<rparr>)))"
  shows "sat B R len (CALLBACK_DATA_AT m stop er e s k)"
proof -
  have k': "sat B R len (k (put_mark m None s))"
    using k [of "hp_data (parser s)" "hp_state (parser s)"] by simp
  show ?thesis
  proof (cases "get_mark m s")
    case None
    with k' assms(1,2) put_mark_None [OF None] show ?thesis by (simp add: CALLBACK_DATA_AT_def)
  next
    case (Some at)
    note at = this
    show ?thesis
    proof (cases "mark_cb m st")
      case None
      with k' assms(1,2) at show ?thesis by (simp add: CALLBACK_DATA_AT_def)
    next
      case (Some f)
      then have "Some f \<in> set (data_cbs st)" by (cases m) (auto simp: data_cbs_def)
      then have "callback_ok (f bytes) q" for bytes q by (rule data_ok)
      then have "callback_ok (f (take (stop - at) (drop at (input e))))
                   ((parser s)\<lparr>hp_state := p_state s\<rparr>)" .
      then show ?thesis using assms Some at
        by (auto simp: CALLBACK_DATA_AT_def callback_ok_def split: sum.splits prod.splits
            intro!: sat_after_callback)
    qed
  qed
qed

end

end
