(* ===== verification/Http_Steps.thy ===== *)
theory Http_Steps
  imports Http_Safety
begin

text \<open>
  The loops over header names and values, the URL automaton and the body arithmetic keep the
  parser's invariant; every case of the switch of \<^verbatim>\<open>http_parser_execute\<close> satisfies
  \<open>step_ok\<close>.
\<close>

section \<open>The loops inside a byte\<close>

lemma match_field_ok:
  assumes "field_hstate (hp_header_state q)" and "field_hstate whole"
  shows "\<exists>q'. match_field str whole c q = Inr q' \<and> field_hstate (hp_header_state q') \<and>
           hp_http_errno q' = hp_http_errno q"
proof -
  have "\<exists>m. match_word str c i = Inr m" for i
    by (auto simp: match_word_def c_str_at_def)
  then obtain m where "match_word str c (unat (hp_index q + 1)) = Inr m" by blast
  with assms show ?thesis
    by (cases m) (simp_all add: match_field_def Let_def field_hstate_def)
qed

lemma header_field_char_ok:
  assumes "field_hstate (hp_header_state q)"
  shows "\<exists>q'. header_field_char c ch q = Inr q' \<and> field_hstate (hp_header_state q') \<and>
           hp_http_errno q' = hp_http_errno q"
proof -
  have whole: "field_hstate h_connection" "field_hstate h_content_length"
    "field_hstate h_transfer_encoding" "field_hstate h_upgrade" "field_hstate h_general"
    by (simp_all add: field_hstate_def)
  note M = match_field_ok [OF assms whole(1)] match_field_ok [OF assms whole(2)]
    match_field_ok [OF assms whole(4)]
  obtain q3 where q3: "match_field ''transfer-encoding'' h_transfer_encoding c q = Inr q3"
      "field_hstate (hp_header_state q3)" "hp_http_errno q3 = hp_http_errno q"
    using match_field_ok [OF assms whole(3)] by blast
  show ?thesis
    using assms M q3 by (cases "hp_header_state q") (auto simp: header_field_char_def Let_def field_hstate_def)
qed

lemma header_field_loop_ok:
  assumes "p \<le> length (input e)" and "field_hstate (hp_header_state q)"
  shows "\<exists>p' ch' q'. header_field_loop e p ch q = Inr (p', ch', q') \<and> p \<le> p' \<and>
           p' \<le> length (input e) \<and> field_hstate (hp_header_state q') \<and>
           hp_http_errno q' = hp_http_errno q"
  using assms
proof (induction e p ch q rule: header_field_loop.induct)
  case (1 e p ch q)
  show ?case
  proof (cases "p < length (input e) \<and> TOKEN (input e ! p) \<noteq> NUL")
    case False
    with "1.prems" show ?thesis by (subst header_field_loop.simps) (auto simp: Let_def)
  next
    case True
    let ?ch = "input e ! p"
    let ?p = "if hp_header_state q = h_general then field_scan (input e) (scan_limit e p) p else p"
    obtain q' where q': "header_field_char (TOKEN ?ch) ?ch q = Inr q'"
        "field_hstate (hp_header_state q')" "hp_http_errno q' = hp_http_errno q"
      using header_field_char_ok [OF "1.prems"(2)] by blast
    have "?p < length (input e)"
    proof (cases "p < scan_limit e p")
      case True
      then show ?thesis
        using field_scan_less [OF True, of "input e"] scan_limit_bounds [of p e] "1.prems"(1) \<open>p < length (input e) \<and> _\<close>
        by auto
    next
      case False
      then have "field_scan (input e) (scan_limit e p) p = p" by (subst field_scan.simps) simp
      with True show ?thesis by simp
    qed
    then have "Suc ?p \<le> length (input e)" by (rule Suc_leI)
    moreover have "p \<le> ?p" using field_scan_ge by simp
    moreover have "header_field_loop e p ch q = header_field_loop e (Suc ?p) ?ch q'"
      using True q'(1) by (subst header_field_loop.simps) (simp add: Let_def)
    ultimately show ?thesis
      using "1.IH" [OF _ refl refl _ q'(1)] True q'(2,3) by fastforce
  qed
qed

lemma match_value_ok:
  assumes "value_hstate h" and "value_hstate token" and "value_hstate whole"
  shows "\<exists>h' q'. match_value str h token whole c q = HV_go h' q' \<and> value_hstate h' \<and>
           hp_http_errno q' = hp_http_errno q"
proof -
  have "\<exists>m. match_word str c i = Inr m" for i
    by (auto simp: match_word_def c_str_at_def)
  then obtain m where "match_word str c (unat (hp_index q + 1)) = Inr m" by blast
  with assms show ?thesis by (cases m) (simp_all add: match_value_def Let_def)
qed

text \<open>What a pass through the header-value switch may produce.\<close>

definition hv_step_ok :: "'u http_parser \<Rightarrow> 'u hv_step \<Rightarrow> bool" where
  "hv_step_ok q r =
     (case r of
        HV_go h' q' \<Rightarrow> value_hstate h' \<and> hp_http_errno q' = hp_http_errno q
      | HV_bad err h' \<Rightarrow> err = HPE_INVALID_CONTENT_LENGTH
      | _ \<Rightarrow> False)"

lemma header_value_char_ok:
  assumes "value_hstate h"
  shows "hv_step_ok q (header_value_char ch h q)"
proof -
  have "hv_step_ok q (match_value str h token whole c q)"
    if "value_hstate token" "value_hstate whole" for str token whole c
    using match_value_ok [OF assms that, of str c q] by (auto simp: hv_step_ok_def)
  moreover have "hv_step_ok q (content_length_digit ch q)"
    by (simp add: hv_step_ok_def content_length_digit_def Let_def value_hstate_def)
  ultimately show ?thesis using assms
    by (cases h)
      (simp_all add: header_value_char_def Let_def value_hstate_def hv_step_ok_def)
qed

definition hv_exit_ok :: "'u env \<Rightarrow> nat \<Rightarrow> 'u http_parser \<Rightarrow> 'u hv_exit \<Rightarrow> bool" where
  "hv_exit_ok e p q r =
     (case r of
        HV_end p' h' q' \<Rightarrow>
          p' = length (input e) \<and> value_hstate h' \<and> hp_http_errno q' = hp_http_errno q
      | HV_CR p' h' q' \<Rightarrow>
          p \<le> p' \<and> p' < length (input e) \<and> hp_http_errno q' = hp_http_errno q
      | HV_LF p' h' q' \<Rightarrow>
          p \<le> p' \<and> p' < length (input e) \<and> hp_http_errno q' = hp_http_errno q
      | HV_fail p' err q' \<Rightarrow>
          p' \<le> length (input e) \<and> err \<noteq> HPE_OK \<and> err \<noteq> HPE_PAUSED
      | HV_abort a \<Rightarrow> False)"

lemma hv_exit_ok_mono:
  "hv_exit_ok e p' q' r \<Longrightarrow> p \<le> p' \<Longrightarrow> hp_http_errno q' = hp_http_errno q \<Longrightarrow> hv_exit_ok e p q r"
  by (auto simp: hv_exit_ok_def split: hv_exit.splits)

lemma value_scan_Inl: "value_scan l d pe p = Inl p' \<Longrightarrow> p' < pe"
proof (induction l d pe p rule: value_scan.induct)
  case (1 l d pe p)
  from "1.prems"(1) show ?case
    by (subst (asm) value_scan.simps) (use "1.IH" in \<open>auto simp: Let_def split: if_splits\<close>)
qed

lemma header_value_loop_ok:
  assumes "p \<le> length (input e)" and "value_hstate h"
  shows "hv_exit_ok e p q (header_value_loop e p h q)"
  using assms
proof (induction e p h q rule: header_value_loop.induct)
  case (1 e p h q)
  let ?ch = "input e ! p"
  consider (stop) "p = length (input e) \<or> ?ch = CR \<or> ?ch = LF \<or>
        (\<not> lenient e \<and> \<not> IS_HEADER_CHAR ?ch)"
    | (scan) "p < length (input e)" "?ch \<noteq> CR" "?ch \<noteq> LF" "lenient e \<or> IS_HEADER_CHAR ?ch"
        "h = h_general"
    | (char) "p < length (input e)" "?ch \<noteq> CR" "?ch \<noteq> LF" "lenient e \<or> IS_HEADER_CHAR ?ch"
        "h \<noteq> h_general"
    using "1.prems"(1) by fastforce
  then show ?case
  proof cases
    case stop
    with "1.prems" show ?thesis
      by (subst header_value_loop.simps) (auto simp: Let_def hv_exit_ok_def)
  next
    case scan
    show ?thesis
    proof (cases "value_scan (lenient e) (input e) (scan_limit e p) p")
      case (Inl p')
      with value_scan_Inl [OF Inl] scan_limit_bounds [of p e] scan(1)
      have "p' \<le> length (input e)" by auto
      with Inl scan show ?thesis
        by (subst header_value_loop.simps) (auto simp: Let_def hv_exit_ok_def)
    next
      case (Inr p')
      let ?p = "if p' = length (input e) then p' - 1 else p'"
      note p' = value_scan_progress [OF Inr scan(1-3)]
      have "hv_exit_ok e (Suc ?p) q (header_value_loop e (Suc ?p) h q)"
        by (rule "1.IH"(1) [OF scan(1) refl scan(2,3) _ scan(5) Inr]) (use p' scan "1.prems" in auto)
      then have "hv_exit_ok e p q (header_value_loop e (Suc ?p) h q)"
        by (rule hv_exit_ok_mono) (use p' scan(1) in auto)
      then show ?thesis using scan Inr
        by (subst header_value_loop.simps) (auto simp: Let_def)
    qed
  next
    case char
    have ok: "hv_step_ok q (header_value_char ?ch h q)"
      using header_value_char_ok "1.prems"(2) .
    show ?thesis
    proof (cases "header_value_char ?ch h q")
      case (HV_go h' q')
      with ok have "value_hstate h'" and same: "hp_http_errno q' = hp_http_errno q"
        by (simp_all add: hv_step_ok_def)
      then have "hv_exit_ok e (Suc p) q' (header_value_loop e (Suc p) h' q')"
        by (intro "1.IH"(2) [OF char(1) refl char(2,3) _ char(5) HV_go]) (use char in auto)
      then have "hv_exit_ok e p q (header_value_loop e (Suc p) h' q')"
        by (rule hv_exit_ok_mono) (use same in auto)
      then show ?thesis using char HV_go
        by (subst header_value_loop.simps) (auto simp: Let_def)
    qed (use ok char in \<open>subst header_value_loop.simps,
           auto simp: Let_def hv_exit_ok_def hv_step_ok_def\<close>)+
  qed
qed

section \<open>The cases of the switch\<close>

lemma url_states_inv [simp]: "x \<in> url_mark_states \<Longrightarrow> state_inv k x nr q"
  by (auto simp: url_mark_states_def state_inv_def)

lemma parse_url_char_states: "parse_url_char x ch \<in> insert s_dead url_mark_states"
  by (cases x) (simp_all add: parse_url_char_def url_server_char_def url_mark_states_def)

lemma state_inv_trivial [simp]:
  "x \<notin> {s_req_method, s_header_field, s_header_value, s_chunk_size_start, s_chunk_size,
     s_chunk_parameters, s_chunk_size_almost_done, s_chunk_data, s_chunk_data_almost_done,
     s_chunk_data_done, s_body_identity} \<Longrightarrow> state_inv k x nr q"
  by (cases x) (simp_all add: state_inv_def)

lemmas macro_defs = UPDATE_STATE_def RETURN_def SET_ERRNO_def CALLBACK_NOTIFY_def
  CALLBACK_NOTIFY_NOADVANCE_def CALLBACK_DATA_def CALLBACK_DATA_NOADVANCE_def
  set_header_state_def set_flag_def reset_nread_def

text \<open>What every case of the switch may rely on.\<close>

definition at_byte :: "'u env \<Rightarrow> 'u locals \<Rightarrow> bool" where
  "at_byte e s \<longleftrightarrow> hp_http_errno (parser s) = HPE_OK \<and> ex_p s < length (input e)"

lemma only_mark_mono: "only_mark m p s \<Longrightarrow> p \<le> p' \<Longrightarrow> only_mark m p' s"
  by (fastforce simp: only_mark_def)

lemma only_mark_here: "only_mark m (ex_p s) s \<Longrightarrow> p_state s \<in> mark_states m \<Longrightarrow> marks_inv s"
  by (rule only_mark_inv) auto

lemmas step_simps = step_ok_def at_byte_def locals_inv_def macro_defs

text \<open>After a callback only the state field and the user's data may differ.\<close>

definition same_locals :: "'u locals \<Rightarrow> 'u locals \<Rightarrow> bool" where
  "same_locals t t' \<longleftrightarrow>
     p_state t' = p_state t \<and> ex_p t' = ex_p t \<and> ex_ch t' = ex_ch t \<and> l_nread t' = l_nread t \<and>
     (\<exists>x d. parser t' = (parser t)\<lparr>hp_state := x, hp_data := d\<rparr>)"

context parser_callbacks begin

lemma notify_rule:
  assumes "settings e = st" and "cb st \<in> set (notify_cbs st)"
    and "hp_http_errno (parser t) = HPE_OK"
    and "er \<le> len" and "err \<noteq> HPE_OK" and "err \<noteq> HPE_PAUSED"
    and "state_inv 0 (p_state t) (hp_nread (parser t)) (parser t)"
    and "no_marks t"
    and "\<And>t'. no_marks t' \<Longrightarrow> marks_inv t' \<Longrightarrow> same_locals t t' \<Longrightarrow> sat B R len (k t')"
  shows "sat B R len (CALLBACK_NOTIFY_AT cb err er e t k)"
  using assms(1-7)
  by (rule sat_CALLBACK_NOTIFY_AT)
    (rule assms(9), use assms(8) in \<open>auto simp: same_locals_def intro: no_marks_inv\<close>)

lemma data_rule:
  assumes "settings e = st" and "hp_http_errno (parser t) = HPE_OK"
    and "er \<le> len" and "len = length (input e)" and "stop \<le> len" and "ex_p t \<le> stop"
    and "only_mark m (ex_p t) t"
    and "state_inv 0 (p_state t) (hp_nread (parser t)) (parser t)"
    and "\<And>t'. no_marks t' \<Longrightarrow> marks_inv t' \<Longrightarrow> same_locals t t' \<Longrightarrow> sat B R len (k t')"
  shows "sat B R len (CALLBACK_DATA_AT m stop er e t k)"
  using assms(1-5) _ assms(8)
proof (rule sat_CALLBACK_DATA_AT)
  show "at \<le> stop" if "get_mark m t = Some at" for at
    using only_mark_le [OF assms(7) that] assms(6) by simp
  show "sat B R len (k (put_mark m None (t\<lparr>parser := (parser t)\<lparr>hp_state := x, hp_data := d\<rparr>\<rparr>)))"
    for x d
  proof -
    let ?t = "put_mark m None (t\<lparr>parser := (parser t)\<lparr>hp_state := x, hp_data := d\<rparr>\<rparr>)"
    have "no_marks ?t" by (rule only_mark_put) (use assms(7) in simp)
    then show ?thesis by (intro assms(9)) (auto simp: same_locals_def intro: no_marks_inv)
  qed
qed

lemma step_expect:
  assumes "at_byte e s" and "no_marks s" and "state_inv 0 next (l_nread s) (parser s)"
  shows "step_ok e s (expect c next s)"
  using assms by (auto simp: expect_def step_simps intro!: wp_rules no_marks_inv)

lemma step_dead:
  assumes "at_byte e s" and "no_marks s" and "p_state s = s_dead" and "settings e = st"
  shows "step_ok e s (exec_dead e s)"
  using assms by (auto simp: step_defs step_simps
    intro!: wp_rules intro: no_marks_inv only_mark_here)

lemma step_res_or_resp_H:
  assumes "at_byte e s" and "no_marks s" and "p_state s = s_res_or_resp_H" and "settings e = st"
  shows "step_ok e s (exec_res_or_resp_H e s)"
  using assms by (auto simp: step_defs step_simps state_inv_def
    intro!: wp_rules intro: no_marks_inv only_mark_here)

lemma step_res_http_end:
  assumes "at_byte e s" and "no_marks s" and "p_state s = s_res_http_end" and "settings e = st"
  shows "step_ok e s (exec_res_http_end e s)"
  using assms by (auto simp: step_defs step_simps
    intro!: wp_rules intro: no_marks_inv only_mark_here)

lemma step_res_first_status_code:
  assumes "at_byte e s" and "no_marks s" and "p_state s = s_res_first_status_code" and "settings e = st"
  shows "step_ok e s (exec_res_first_status_code e s)"
  using assms by (auto simp: step_defs step_simps
    intro!: wp_rules intro: no_marks_inv only_mark_here)

lemma step_res_status_code:
  assumes "at_byte e s" and "no_marks s" and "p_state s = s_res_status_code" and "settings e = st"
  shows "step_ok e s (exec_res_status_code e s)"
  using assms by (auto simp: step_defs step_simps rank_def Let_def
    intro!: wp_rules intro: no_marks_inv only_mark_here)

lemma step_req_http_start:
  assumes "at_byte e s" and "no_marks s" and "p_state s = s_req_http_start" and "settings e = st"
  shows "step_ok e s (exec_req_http_start e s)"
  using assms by (auto simp: step_defs step_simps
    intro!: wp_rules intro: no_marks_inv only_mark_here)

lemma step_req_http_end:
  assumes "at_byte e s" and "no_marks s" and "p_state s = s_req_http_end" and "settings e = st"
  shows "step_ok e s (exec_req_http_end e s)"
  using assms by (auto simp: step_defs step_simps
    intro!: wp_rules intro: no_marks_inv only_mark_here)

lemma step_req_line_almost_done:
  assumes "at_byte e s" and "no_marks s" and "p_state s = s_req_line_almost_done" and "settings e = st"
  shows "step_ok e s (exec_req_line_almost_done e s)"
  using assms by (auto simp: step_defs step_simps
    intro!: wp_rules intro: no_marks_inv only_mark_here)

lemma step_header_almost_done:
  assumes "at_byte e s" and "no_marks s" and "p_state s = s_header_almost_done" and "settings e = st"
  shows "step_ok e s (exec_header_almost_done e s)"
  using assms by (auto simp: step_defs step_simps
    intro!: wp_rules intro: no_marks_inv only_mark_here)

lemma step_http_digits:
  assumes "at_byte e s" and "no_marks s" and "next \<in> {s_res_http_dot, s_res_http_minor,
    s_res_http_end, s_req_http_dot, s_req_http_minor, s_req_http_end}"
  shows "step_ok e s (exec_http_major next s)" and "step_ok e s (exec_http_minor next s)"
    and "step_ok e s (exec_http_dot next s)"
  using assms by (auto simp: step_defs step_simps intro!: wp_rules intro: no_marks_inv)

lemma step_res_status_start:
  assumes "at_byte e s" and "no_marks s" and "p_state s = s_res_status_start"
  shows "step_ok e s (exec_res_status_start e s)"
proof -
  have "only_mark M_status (ex_p s) (MARK M_status s)"
    using assms(2) by (intro only_mark_MARK no_marks_only)
  then show ?thesis using assms
    by (auto simp: step_defs step_simps Let_def mark_states_def rank_def intro: only_mark_here)
qed

lemma step_res_status:
  assumes "at_byte e s" and "only_mark M_status (ex_p s) s" and "settings e = st"
   "p_state s = s_res_status"
  shows "step_ok e s (exec_res_status e s)"
  using assms by (auto simp: step_defs step_simps same_locals_def mark_states_def
    intro!: wp_rules data_rule intro: no_marks_inv only_mark_here)

lemma step_start_req_or_res:
  assumes "at_byte e s" and "no_marks s" and "p_state s = s_start_req_or_res" and "settings e = st"
  shows "step_ok e s (exec_start_req_or_res e s)"
  using assms by (auto simp: step_defs step_simps same_locals_def Let_def rank_def notify_cbs_def
    intro!: wp_rules notify_rule intro: no_marks_inv)

lemma step_start_res:
  assumes "at_byte e s" and "no_marks s" and "p_state s = s_start_res" and "settings e = st"
  shows "step_ok e s (exec_start_res e s)"
  using assms by (auto simp: step_defs step_simps same_locals_def Let_def rank_def notify_cbs_def
    intro!: wp_rules notify_rule intro: no_marks_inv)

lemma method_string_pos: "1 \<le> length (method_string m)"
  by (cases m) simp_all

lemma step_start_req:
  assumes "at_byte e s" and "no_marks s" and "p_state s = s_start_req" and "settings e = st"
  shows "step_ok e s (exec_start_req e s)"
  using assms method_string_pos by (auto simp: step_defs step_simps same_locals_def Let_def
    rank_def notify_cbs_def state_inv_def split: option.splits
    intro!: wp_rules notify_rule intro: no_marks_inv)

lemma method_switch_length:
  "method_switch m i ch = Some m' \<Longrightarrow> i + 1 \<le> length (method_string m')"
  by (auto simp: method_switch_def split: if_splits)

lemma method_string_less: "length (method_string m) < 2 ^ 7 - 1"
  by (cases m) simp_all

lemma step_req_method:
  assumes byte: "at_byte e s" and marks: "no_marks s" and st: "p_state s = s_req_method"
    and idx: "unat (hp_index (parser s)) \<le> length (method_string (hp_method (parser s)))"
  shows "step_ok e s (exec_req_method e s)"
proof -
  let ?i = "unat (hp_index (parser s))" and ?m = "hp_method (parser s)"
  have "?i < 2 ^ 7 - 1" using idx method_string_less [of ?m] by linarith
  then have idx1: "unat (hp_index (parser s) + 1) = ?i + 1"
    by (simp add: unat_word_ariths)
  have neq: "?i < length (method_string ?m)"
    if "c_str_at (method_string ?m) ?i = Inr (ex_ch s)" "ex_ch s \<noteq> NUL"
    using that by (auto simp: c_str_at_def split: if_splits)
  obtain c where c: "c_str_at (method_string ?m) ?i = Inr c"
    using c_str_at_in_bounds [OF idx] by blast
  show ?thesis
    using byte marks st c neq idx1 method_switch_length [of ?m ?i "ex_ch s"]
    by (auto simp: exec_req_method_def Let_def step_simps state_inv_def Suc_le_eq
        split: option.splits intro!: wp_rules intro: no_marks_inv)
qed

lemma step_url_step:
  assumes "at_byte e s" and "only_mark M_url (ex_p s) s" and "ex_p s0 = ex_p s"
  shows "step_ok e s0 (url_step s)"
  using assms parse_url_char_states [of "p_state s" "ex_ch s"]
  by (auto simp: url_step_def Let_def step_simps mark_states_def
      intro!: wp_rules intro: only_mark_here)

lemma step_req_spaces_before_url:
  assumes "at_byte e s" and "no_marks s" and "p_state s = s_req_spaces_before_url"
  shows "step_ok e s (exec_req_spaces_before_url e s)"
proof (cases "ex_ch s = SP")
  case True
  then show ?thesis using assms
    by (auto simp: step_defs step_simps intro: no_marks_inv)
next
  case False
  have "only_mark M_url (ex_p s) (MARK M_url s)"
    using assms(2) by (intro only_mark_MARK no_marks_only)
  with False assms(1) show ?thesis
    by (auto simp: exec_req_spaces_before_url_def Let_def UPDATE_STATE_def at_byte_def
        intro!: step_url_step)
qed

lemma step_req_schema:
  assumes "at_byte e s" and "only_mark M_url (ex_p s) s"
  shows "step_ok e s (exec_req_schema e s)"
  using assms step_url_step [OF assms refl]
  by (auto simp: exec_req_schema_def step_ok_def at_byte_def intro!: wp_rules)

lemma step_req_url:
  assumes "at_byte e s" and "only_mark M_url (ex_p s) s" and "settings e = st"
  shows "step_ok e s (exec_req_url e s)"
  using assms step_url_step [OF assms(1,2) refl]
  by (auto simp: exec_req_url_def step_simps same_locals_def
    intro!: wp_rules data_rule intro: no_marks_inv)

lemma step_header_field_start:
  assumes "at_byte e s" and "no_marks s" and "p_state s = s_header_field_start"
  shows "step_ok e s (exec_header_field_start e s)"
proof -
  have "only_mark M_header_field (ex_p s) (MARK M_header_field s)"
    using assms(2) by (intro only_mark_MARK no_marks_only)
  then show ?thesis using assms
    by (auto simp: exec_header_field_start_def step_simps Let_def mark_states_def rank_def
        state_inv_def field_hstate_def intro!: wp_rules intro: only_mark_here no_marks_inv)
qed

lemma step_header_field:
  assumes "at_byte e s" and "only_mark M_header_field (ex_p s) s" and "settings e = st"
    and "p_state s = s_header_field" and "field_hstate (hp_header_state (parser s))"
  shows "step_ok e s (exec_header_field e s)"
proof -
  obtain p' ch' q' where loop: "header_field_loop e (ex_p s) (ex_ch s) (parser s) = Inr (p', ch', q')"
      "ex_p s \<le> p'" "p' \<le> length (input e)" "field_hstate (hp_header_state q')"
      "hp_http_errno q' = hp_http_errno (parser s)"
    using header_field_loop_ok [of "ex_p s" e "parser s" "ex_ch s"] assms by (auto simp: at_byte_def)
  let ?s = "s\<lparr>ex_p := p', ex_ch := ch', parser := q'\<rparr>"
  have mark: "only_mark M_header_field i s" if "ex_p s \<le> i" for i
    using only_mark_mono [OF assms(2) that] .
  show ?thesis
  proof (cases "p' = length (input e)")
    case True
    have marks: "only_mark M_header_field (p' - 1) s" using mark True assms(1)
      by (auto simp: at_byte_def)
    then show ?thesis using True loop assms marks
      by (auto simp: exec_header_field_def step_simps Let_def mark_states_def state_inv_def
          intro!: wp_rules only_mark_here)
  next
    case False
    then show ?thesis using loop assms mark [OF loop(2)]
      by (auto simp: exec_header_field_def step_simps Let_def same_locals_def
          intro!: wp_rules data_rule intro: no_marks_inv)
  qed
qed

lemma step_header_value_start:
  assumes "at_byte e s" and "no_marks s"
  shows "step_ok e s (exec_header_value_start e s)"
proof -
  have "only_mark M_header_value (ex_p s) (MARK M_header_value s)"
    using assms(2) by (intro only_mark_MARK no_marks_only)
  then show ?thesis using assms(1)
    by (cases "hp_header_state (parser s)")
      (auto simp: exec_header_value_start_def step_simps Let_def mark_states_def state_inv_def
        value_hstate_def intro!: wp_rules only_mark_here)
qed

lemma step_header_value_discard_ws:
  assumes "at_byte e s" and "no_marks s" and "p_state s = s_header_value_discard_ws"
  shows "step_ok e s (exec_header_value_discard_ws e s)"
proof (cases "ex_ch s \<in> {SP, HT, CR, LF}")
  case True
  then show ?thesis using assms
    by (auto simp: exec_header_value_discard_ws_def step_simps intro: no_marks_inv)
next
  case False
  with step_header_value_start [OF assms(1,2)] show ?thesis
    by (simp add: exec_header_value_discard_ws_def)
qed

lemma step_header_value:
  assumes "at_byte e s" and "only_mark M_header_value (ex_p s) s" and "settings e = st"
    and "p_state s = s_header_value" and "value_hstate (hp_header_state (parser s))"
  shows "step_ok e s (exec_header_value e s)"
proof -
  let ?r = "header_value_loop e (ex_p s) (hp_header_state (parser s)) (parser s)"
  have ok: "hv_exit_ok e (ex_p s) (parser s) ?r"
    using assms by (intro header_value_loop_ok) (auto simp: at_byte_def)
  have mark: "only_mark M_header_value i s" if "ex_p s \<le> i" for i
    using only_mark_mono [OF assms(2) that] .
  show ?thesis
  proof (cases ?r)
    case (HV_end p' h' q')
    with ok assms(1) have "ex_p s \<le> p' - 1" "p' - 1 < length (input e)" "p' = length (input e)"
      by (auto simp: hv_exit_ok_def at_byte_def)
    with HV_end ok assms mark [of "p' - 1"] show ?thesis
      by (auto simp: exec_header_value_def step_simps Let_def mark_states_def state_inv_def
          hv_exit_ok_def intro!: wp_rules only_mark_here)
  next
    case (HV_CR p' h' q')
    with ok assms mark [of p'] show ?thesis
      by (auto simp: exec_header_value_def step_simps Let_def same_locals_def hv_exit_ok_def
          intro!: data_rule wp_rules)
  next
    case (HV_LF p' h' q')
    with ok assms mark [of p'] show ?thesis
      by (auto simp: exec_header_value_def step_simps Let_def same_locals_def hv_exit_ok_def
          rank_def intro!: data_rule wp_rules)
  next
    case (HV_fail p' err q')
    with ok show ?thesis
      by (auto simp: exec_header_value_def step_simps Let_def hv_exit_ok_def intro!: wp_rules)
  next
    case (HV_abort a)
    with ok show ?thesis by (simp add: hv_exit_ok_def)
  qed
qed

lemma finish_header_frame [simp]:
  "p_state (finish_header s) = p_state s"
  "ex_p (finish_header s) = ex_p s"
  "ex_ch (finish_header s) = ex_ch s"
  "l_nread (finish_header s) = l_nread s"
  "hp_http_errno (parser (finish_header s)) = hp_http_errno (parser s)"
  "no_marks (finish_header s) = no_marks s"
  by (auto simp: finish_header_def set_flag_def split: header_states.split)

lemma step_header_value_lws:
  assumes "at_byte e s" and "no_marks s" and "p_state s = s_header_value_lws"
  shows "step_ok e s (exec_header_value_lws e s)"
  using assms by (auto simp: exec_header_value_lws_def step_simps rank_def intro!: no_marks_inv)

lemma step_header_value_discard_lws:
  assumes "at_byte e s" and "no_marks s" and "p_state s = s_header_value_discard_lws"
    and "settings e = st"
  shows "step_ok e s (exec_header_value_discard_lws e s)"
proof -
  let ?s = "MARK M_header_value (finish_header s)"
  have "only_mark M_header_value (ex_p (finish_header s)) ?s"
    using assms(2) by (intro only_mark_MARK no_marks_only) simp
  then show ?thesis using assms
    by (auto simp: exec_header_value_discard_lws_def step_simps same_locals_def rank_def
        intro!: data_rule wp_rules intro: no_marks_inv)
qed

lemma NEW_MESSAGE_inv [simp]: "state_inv k (NEW_MESSAGE q) nr r"
  using NEW_MESSAGE_cases [of q] by (auto simp: state_inv_def)

text \<open>The end of a message, followed by a return or by the next byte.\<close>

lemma new_message_rule:
  assumes "settings e = st" and "at_byte e s" and "no_marks s" and "len = length (input e)"
    and "\<And>t x. no_marks t \<Longrightarrow> marks_inv t \<Longrightarrow>
           same_locals (s\<lparr>p_state := NEW_MESSAGE (parser s)\<rparr>) t \<Longrightarrow> sat B R len (k t)"
  shows "sat B R len (new_message e s k)"
  using assms unfolding new_message_def CALLBACK_NOTIFY_def
  by (intro notify_rule) (auto simp: at_byte_def UPDATE_STATE_def notify_cbs_def)

lemma headers_complete_ok:
  assumes "settings e = st" and "at_byte e s" and "no_marks s" and "p_state s = s_headers_done"
    and "rank (p_state s0) = 2" and "ex_p s0 = ex_p s"
  shows "step_ok e s0 (headers_complete e s)"
proof (cases "on_headers_complete st")
  case None
  with assms show ?thesis
    by (auto simp: headers_complete_def Let_def step_simps rank_def intro!: no_marks_inv)
next
  case (Some f)
  then have "callback_ok f (parser s)" by (intro notify_ok) (simp add: notify_cbs_def)
  then consider (abort) "f (parser s) = Inl Process_abort"
    | (returns) r q where "f (parser s) = Inr (r, q)" "callback_frame (parser s) q"
    by (auto simp: callback_ok_def split: sum.splits)
  then show ?thesis
  proof cases
    case abort
    with Some assms(1) show ?thesis by (simp add: headers_complete_def step_ok_def Let_def)
  next
    case returns
    have "hp_http_errno (parser s) = HPE_OK" using assms(2) by (simp add: at_byte_def)
    with returns(2) show ?thesis
      by (rule callback_frameE)
        (use returns(1) Some assms in \<open>auto simp: headers_complete_def Let_def step_simps rank_def
           return_ok_def parser_inv_def intro!: no_marks_inv\<close>)
  qed
qed

lemma step_headers_almost_done:
  assumes "at_byte e s" and "no_marks s" and "p_state s = s_headers_almost_done"
    and "settings e = st"
  shows "step_ok e s (exec_headers_almost_done e s)"
proof -
  let ?fl = "hp_flags (parser s)"
  have ok: "step_ok e s (headers_complete e
          ((UPDATE_STATE s_headers_done s)\<lparr>parser := (parser s)\<lparr>hp_upgrade := up\<rparr>\<rparr>))" for up
    using assms by (intro headers_complete_ok) (auto simp: at_byte_def UPDATE_STATE_def rank_def)
  have bad: "step_ok e s (fail err s)" if "err \<noteq> HPE_OK" "err \<noteq> HPE_PAUSED" for err
    using assms(1) that by (auto simp: step_ok_def at_byte_def intro!: wp_rules)
  show ?thesis
  proof (cases "ex_ch s = LF \<and> has_flag ?fl F_TRAILING")
    case True
    then show ?thesis using assms
      by (auto simp: exec_headers_almost_done_def Let_def step_simps same_locals_def
          notify_cbs_def rank_def intro!: notify_rule wp_rules)
  next
    case False
    then show ?thesis using ok bad
      by (simp add: exec_headers_almost_done_def STRICT_CHECK_def Let_def)
  qed
qed

lemma step_message_done:
  assumes "at_byte e s" and "no_marks s" and "settings e = st"
  shows "step_ok e s (exec_message_done e s)"
  using assms unfolding exec_message_done_def step_ok_def
  by (intro new_message_rule)
    (auto simp: at_byte_def same_locals_def locals_inv_def RETURN_def return_ok_def
      parser_inv_def)

lemma step_headers_done:
  assumes "at_byte e s" and "no_marks s" and "p_state s = s_headers_done" and "settings e = st"
  shows "step_ok e s (exec_headers_done e s)"
proof -
  have bad: "step_ok e s (fail err s)" if "err \<noteq> HPE_OK" "err \<noteq> HPE_PAUSED" for err
    using assms(1) that by (auto simp: step_ok_def at_byte_def intro!: wp_rules)
  let ?s = "reset_nread s"
  have s: "at_byte e ?s" "no_marks ?s" "ex_p ?s = ex_p s"
    using assms by (simp_all add: at_byte_def reset_nread_def)
  have new: "step_ok e s (new_message e ?s Break)"
    using s assms unfolding step_ok_def
    by (intro new_message_rule)
      (auto simp: at_byte_def same_locals_def locals_inv_def)
  have up: "step_ok e s (new_message e ?s (\<lambda>s. RETURN (ex_p s + 1) s))" if "hp_upgrade (parser ?s)"
    using s assms that unfolding step_ok_def
    by (intro new_message_rule)
      (auto simp: at_byte_def same_locals_def RETURN_def return_ok_def parser_inv_def)
  have go: "step_ok e s (Break (UPDATE_STATE x ?s))" if "state_inv 0 x 0 (parser ?s)" for x
    using s assms that
    by (auto simp: step_simps intro!: no_marks_inv)
  have te: "step_ok e s (RETURN n (SET_ERRNO HPE_INVALID_TRANSFER_ENCODING ?s))" if "n \<le> ex_p s" for n
    using s assms(1) that by (auto simp: step_ok_def RETURN_def SET_ERRNO_def at_byte_def intro!: return_ok_error)
  show ?thesis
    using bad new up go te s(3)
    by (simp add: exec_headers_done_def STRICT_CHECK_def Let_def state_inv_def)
qed

end

section \<open>Bodies and chunks\<close>

lemma ULLONG_MAX_max: "ULLONG_MAX = - 1"
  by (simp add: ULLONG_MAX_def)

lemma to_read_bounds:
  assumes "ex_p s < length (input e)" and "length (input e) < 2 ^ 64"
    and "hp_content_length (parser s) \<noteq> 0"
  shows "0 < unat (to_read e s)" and "unat (to_read e s) \<le> length (input e) - ex_p s"
    and "to_read e s \<le> hp_content_length (parser s)"
proof -
  let ?k = "length (input e) - ex_p s"
  have k: "unat (of_nat ?k :: 64 word) = ?k"
    using assms(2) by (simp add: unat_of_nat take_bit_eq_mod)
  show "to_read e s \<le> hp_content_length (parser s)" by (simp add: to_read_def)
  have "unat (to_read e s) \<le> unat (of_nat ?k :: 64 word)"
    by (simp add: to_read_def word_le_nat_alt [symmetric])
  then show "unat (to_read e s) \<le> ?k" using k by simp
  have "(of_nat ?k :: 64 word) \<noteq> 0" using k assms(1) by (metis unat_0 zero_less_diff less_numeral_extra(3))
  then show "0 < unat (to_read e s)"
    using assms(3) by (auto simp: to_read_def min_def unat_gt_0)
qed

lemma consume_body_frame [simp]:
  "p_state (consume_body e s) = p_state s"
  "l_nread (consume_body e s) = l_nread s"
  "hp_http_errno (parser (consume_body e s)) = hp_http_errno (parser s)"
  "hp_flags (parser (consume_body e s)) = hp_flags (parser s)"
  by (simp_all add: consume_body_def Let_def)

lemma consume_body_ok:
  assumes "ex_p s < length (input e)" and "length (input e) < 2 ^ 64"
    and "hp_content_length (parser s) \<noteq> 0" and "hp_content_length (parser s) \<noteq> ULLONG_MAX"
    and "only_mark M_body (ex_p s) s"
  shows "ex_p s \<le> ex_p (consume_body e s)" and "ex_p (consume_body e s) < length (input e)"
    and "hp_content_length (parser (consume_body e s)) \<noteq> ULLONG_MAX"
    and "only_mark M_body (ex_p (consume_body e s)) (consume_body e s)"
proof -
  note n = to_read_bounds [OF assms(1-3)]
  have p: "ex_p (consume_body e s) = ex_p s + unat (to_read e s) - 1"
    by (simp add: consume_body_def Let_def)
  show le: "ex_p s \<le> ex_p (consume_body e s)" using n(1) p by simp
  show "ex_p (consume_body e s) < length (input e)" using n(1,2) p assms(1) by simp
  have "hp_content_length (parser s) - to_read e s \<le> hp_content_length (parser s)"
    using n(3) by (simp add: word_sub_le)
  moreover have "hp_content_length (parser s) < ULLONG_MAX"
    using assms(4) by (simp add: ULLONG_MAX_max word_order.not_eq_extremum)
  ultimately show "hp_content_length (parser (consume_body e s)) \<noteq> ULLONG_MAX"
    by (auto simp: consume_body_def Let_def)
  have "only_mark M_body (ex_p s) (MARK M_body s)" using assms(5) by (rule only_mark_MARK)
  then have "only_mark M_body (ex_p s) (consume_body e s)"
    by (simp add: consume_body_def Let_def)
  then show "only_mark M_body (ex_p (consume_body e s)) (consume_body e s)"
    using le by (rule only_mark_mono)
qed

lemma unhex_range: "unhex ! uchar c = -1 \<or> (0 \<le> unhex ! uchar c \<and> unhex ! uchar c \<le> 15)"
proof -
  have "\<forall>v \<in> set unhex. v = -1 \<or> (0 \<le> v \<and> v \<le> 15)" by (simp add: unhex_def)
  then show ?thesis by (rule bspec) (simp only: nth_mem table_index)
qed

lemma chunk_size_limit: "(ULLONG_MAX - 16) div 16 = 0x0FFFFFFFFFFFFFFE"
  by (simp add: ULLONG_MAX_def)

lemma chunk_size_digit:
  fixes cl :: "64 word"
  assumes "\<not> (ULLONG_MAX - 16) div 16 < cl" and "0 \<le> v" and "v \<le> 15"
  shows "unat (cl * 16 + of_int v) = unat cl * 16 + nat v"
    and "cl * 16 + of_int v \<noteq> ULLONG_MAX"
proof -
  from assms(1) have "cl \<le> 0x0FFFFFFFFFFFFFFE" by (simp only: chunk_size_limit not_less)
  then have "unat cl \<le> 0x0FFFFFFFFFFFFFFE" by (simp add: word_le_nat_alt)
  moreover have "of_int v = (of_nat (nat v) :: 64 word)" using assms(2) by simp
  moreover have "nat v \<le> 15" using assms(3) by simp
  ultimately show "unat (cl * 16 + of_int v) = unat cl * 16 + nat v"
    by (simp only:) (simp add: unat_word_ariths unat_of_nat take_bit_eq_mod)
  with \<open>unat cl \<le> _\<close> \<open>nat v \<le> 15\<close> have "unat (cl * 16 + of_int v) < 2 ^ 64 - 1" by simp
  moreover have "unat ULLONG_MAX = 2 ^ 64 - 1" by (simp add: ULLONG_MAX_def unsigned_minus_1_eq_mask mask_eq_exp_minus_1)
  ultimately show "cl * 16 + of_int v \<noteq> ULLONG_MAX" by (metis less_irrefl)
qed

context parser_callbacks begin

lemma step_body_identity:
  assumes "at_byte e s" and "only_mark M_body (ex_p s) s" and "p_state s = s_body_identity"
    and "settings e = st" and "length (input e) < 2 ^ 64"
    and "hp_content_length (parser s) \<noteq> 0" and "hp_content_length (parser s) \<noteq> ULLONG_MAX"
  shows "step_ok e s (exec_body_identity e s)"
proof -
  note c = consume_body_ok [of s e, OF _ assms(5-7,2)]
  show ?thesis using assms c
    by (auto simp: exec_body_identity_def assert_that_def Let_def step_simps same_locals_def
        rank_def mark_states_def state_inv_def
        intro!: data_rule wp_rules intro: only_mark_here)
qed

lemma step_body_identity_eof:
  assumes "at_byte e s" and "only_mark M_body (ex_p s) s" and "p_state s = s_body_identity_eof"
  shows "step_ok e s (exec_body_identity_eof e s)"
proof -
  let ?s = "MARK M_body s"
  have "only_mark M_body (length (input e) - 1) ?s"
    using only_mark_MARK [OF assms(2)] assms(1) by (rule_tac only_mark_mono) (auto simp: at_byte_def)
  then show ?thesis using assms
    by (auto simp: exec_body_identity_eof_def step_simps mark_states_def intro!: only_mark_here)
qed

lemma step_chunk_data:
  assumes "at_byte e s" and "only_mark M_body (ex_p s) s" and "p_state s = s_chunk_data"
    and "length (input e) < 2 ^ 64" and "is_chunked s"
    and "hp_content_length (parser s) \<noteq> 0" and "hp_content_length (parser s) \<noteq> ULLONG_MAX"
  shows "step_ok e s (exec_chunk_data e s)"
proof -
  note c = consume_body_ok [of s e, OF _ assms(4,6,7,2)]
  show ?thesis using assms c
    by (auto simp: exec_chunk_data_def assert_that_def Let_def step_simps is_chunked_def
        rank_def mark_states_def state_inv_def intro!: only_mark_here)
qed

lemma step_chunk_data_almost_done:
  assumes "at_byte e s" and "only_mark M_body (ex_p s) s" and "settings e = st"
    and "is_chunked s" and "hp_content_length (parser s) = 0"
  shows "step_ok e s (exec_chunk_data_almost_done e s)"
  using assms
  by (auto simp: exec_chunk_data_almost_done_def assert_that_def step_simps is_chunked_def
      same_locals_def state_inv_def intro!: data_rule wp_rules)

lemma step_chunk_data_done:
  assumes "at_byte e s" and "no_marks s" and "settings e = st" and "is_chunked s"
  shows "step_ok e s (exec_chunk_data_done e s)"
  using assms
  by (auto simp: exec_chunk_data_done_def assert_that_def step_simps is_chunked_def
      same_locals_def state_inv_def notify_cbs_def intro!: notify_rule wp_rules)

lemma step_chunk_size_start:
  assumes "at_byte e s" and "no_marks s" and "is_chunked s" and "l_nread s = 1"
  shows "step_ok e s (exec_chunk_size_start e s)"
  using assms unhex_range [of "ex_ch s"] chunk_size_digit(2) [of 0 "unhex ! uchar (ex_ch s)"]
  by (auto simp: exec_chunk_size_start_def assert_that_def step_simps is_chunked_def Let_def
      state_inv_def intro!: wp_rules no_marks_inv)

lemma step_chunk_size:
  assumes "at_byte e s" and "no_marks s" and "p_state s = s_chunk_size" and "is_chunked s"
    and "hp_content_length (parser s) \<noteq> ULLONG_MAX"
  shows "step_ok e s (exec_chunk_size e s)"
  using assms unhex_range [of "ex_ch s"]
    chunk_size_digit(2) [of "hp_content_length (parser s)" "unhex ! uchar (ex_ch s)"]
  by (auto simp: exec_chunk_size_def assert_that_def step_simps is_chunked_def Let_def
      state_inv_def intro!: wp_rules no_marks_inv)

lemma step_chunk_parameters:
  assumes "at_byte e s" and "no_marks s" and "p_state s = s_chunk_parameters" and "is_chunked s"
    and "hp_content_length (parser s) \<noteq> ULLONG_MAX"
  shows "step_ok e s (exec_chunk_parameters e s)"
  using assms
  by (auto simp: exec_chunk_parameters_def assert_that_def step_simps is_chunked_def
      state_inv_def intro!: wp_rules no_marks_inv)

lemma step_chunk_size_almost_done:
  assumes "at_byte e s" and "no_marks s" and "is_chunked s" and "settings e = st"
    and "hp_content_length (parser s) \<noteq> ULLONG_MAX"
  shows "step_ok e s (exec_chunk_size_almost_done e s)"
  using assms
  by (auto simp: exec_chunk_size_almost_done_def assert_that_def step_simps is_chunked_def Let_def
      state_inv_def same_locals_def notify_cbs_def intro!: notify_rule wp_rules)

end

end
