(* ===== verification/Http_Run.thy ===== *)
theory Http_Run
  imports Http_Steps
begin

text \<open>
  The whole call: the switch, the repetition of the switch on one byte, the loop over the
  input and the callbacks for leftover marks. \<^verbatim>\<open>http_parser_execute\<close> always returns,
  with a usable parser and the promised number of bytes.
\<close>

section \<open>One byte\<close>

definition marked_states :: "pstate set" where
  "marked_states = (\<Union>m. mark_states m)"

lemma no_marks_state: "marks_inv s \<Longrightarrow> p_state s \<notin> marked_states \<Longrightarrow> no_marks s"
  by (rule marks_inv_none) (auto simp: marked_states_def)

lemma marked_states_simps:
  "x \<in> marked_states \<longleftrightarrow>
     x \<in> url_mark_states \<or>
     x \<in> {s_header_field, s_header_value, s_body_identity, s_body_identity_eof, s_chunk_data,
          s_chunk_data_almost_done, s_res_status}"
proof -
  have "x \<in> marked_states \<longleftrightarrow> (\<exists>m. x \<in> mark_states m)" by (simp add: marked_states_def)
  also have "\<dots> \<longleftrightarrow> x \<in> mark_states M_header_field \<or> x \<in> mark_states M_header_value \<or>
      x \<in> mark_states M_url \<or> x \<in> mark_states M_body \<or> x \<in> mark_states M_status"
    by (metis mark.exhaust)
  finally show ?thesis by (auto simp: mark_states_def)
qed

context parser_callbacks begin

lemmas step_cases = step_dead step_start_req_or_res step_res_or_resp_H step_start_res step_expect
  step_http_digits step_res_http_end step_res_first_status_code step_res_status_code
  step_res_status_start step_res_status step_start_req step_req_method
  step_req_spaces_before_url step_req_schema step_req_url step_req_http_start step_req_http_end
  step_req_line_almost_done step_header_field_start step_header_field
  step_header_value_discard_ws step_header_value_start step_header_value
  step_header_value_lws step_header_almost_done step_header_value_discard_lws
  step_headers_almost_done step_headers_done step_message_done step_body_identity
  step_body_identity_eof step_chunk_size_start step_chunk_size step_chunk_parameters
  step_chunk_size_almost_done step_chunk_data step_chunk_data_almost_done step_chunk_data_done

lemmas expect_defs = exec_res_H_def exec_res_HT_def exec_res_HTT_def exec_res_HTTP_def
  exec_res_line_almost_done_def exec_req_http_H_def exec_req_http_HT_def exec_req_http_HTT_def
  exec_req_http_HTTP_def exec_req_http_I_def exec_req_http_IC_def
  exec_header_value_discard_ws_almost_done_def

lemma exec_switch_ok:
  assumes "locals_inv 1 e s" and "settings e = st" and "length (input e) < 2 ^ 64"
  shows "step_ok e s (exec_switch e s)"
proof -
  have byte: "at_byte e s" and marks: "marks_inv s"
    and inv: "state_inv 1 (p_state s) (l_nread s) (parser s)"
    using assms(1) by (simp_all add: locals_inv_def at_byte_def)
  have unmarked: "no_marks s" if "p_state s \<notin> marked_states" using marks that by (rule no_marks_state)
  have marked: "only_mark m (ex_p s) s" if "p_state s \<in> mark_states m" for m
    using marks that by (rule marks_inv_only)
  show ?thesis
    using inv unmarked marked assms(2,3) byte
    by (cases "p_state s")
      (simp_all add: exec_switch_def state_inv_def Let_def is_chunked_def marked_states_simps
        mark_states_def url_mark_states_def expect_defs step_cases)
qed

text \<open>The switch is re-executed at most four times on one byte.\<close>

lemma dispatch_ok:
  assumes "locals_inv 1 e s" and "settings e = st" and "length (input e) < 2 ^ 64"
  shows "\<exists>oc. dispatch e s = Some oc \<and>
           sat (\<lambda>t. locals_inv 0 e t \<and> ex_p s \<le> ex_p t) (\<lambda>_. False) (length (input e)) oc"
  using assms(1)
proof (induction "rank (p_state s)" arbitrary: s rule: less_induct)
  case less
  have ok: "step_ok e s (exec_switch e s)"
    using exec_switch_ok less.prems assms(2,3) .
  show ?case
  proof (cases "exec_switch e s")
    case (Reexecute t)
    with ok have t: "locals_inv 1 e t" "ex_p s \<le> ex_p t" "rank (p_state t) < rank (p_state s)"
      by (simp_all add: step_ok_def)
    from less.hyps [OF t(3,1)] obtain oc where oc: "dispatch e t = Some oc"
        "sat (\<lambda>u. locals_inv 0 e u \<and> ex_p t \<le> ex_p u) (\<lambda>_. False) (length (input e)) oc"
      by blast
    from oc(2) t(2)
    have "sat (\<lambda>u. locals_inv 0 e u \<and> ex_p s \<le> ex_p u) (\<lambda>_. False) (length (input e)) oc"
      by (cases oc) auto
    moreover have "dispatch e s = Some oc"
      using Reexecute oc(1) by (subst dispatch.simps) simp
    ultimately show ?thesis by blast
  qed (use ok in \<open>subst dispatch.simps, simp add: step_ok_def\<close>)+
qed

end

section \<open>The loop over the input\<close>

text \<open>Between two bytes; at the end the pointer equals the length.\<close>

definition between_bytes :: "'u env \<Rightarrow> 'u locals \<Rightarrow> bool" where
  "between_bytes e s \<longleftrightarrow>
     hp_http_errno (parser s) = HPE_OK \<and> ex_p s \<le> length (input e) \<and> marks_inv s \<and>
     state_inv 0 (p_state s) (l_nread s) (parser s)"

lemma state_inv_nread:
  "state_inv k x nr q \<Longrightarrow> x \<noteq> s_chunk_size_start \<Longrightarrow> state_inv k' x nr' q"
  by (cases x) (simp_all add: state_inv_def)

lemma begin_byte_ok:
  assumes "between_bytes e s" and "ex_p s < length (input e)"
  shows "sat (\<lambda>_. False) (\<lambda>t. locals_inv 1 e t \<and> ex_p t = ex_p s) (length (input e)) (begin_byte e s)"
proof (cases "p_state s = s_chunk_size_start")
  case True
  then have "PARSING_HEADER (p_state s)" by (simp add: PARSING_HEADER_num)
  with True assms show ?thesis
    by (auto simp: begin_byte_def Let_def between_bytes_def locals_inv_def state_inv_def
        intro!: wp_rules)
next
  case False
  then have "state_inv 1 (p_state s) nr (parser s)" for nr
    using assms(1) state_inv_nread by (auto simp: between_bytes_def)
  with assms show ?thesis
    by (auto simp: begin_byte_def Let_def between_bytes_def locals_inv_def intro!: wp_rules)
qed

lemma marks_set_le_1:
  assumes "marks_inv s"
  shows "marks_set s \<le> 1"
proof (cases "\<exists>m. p_state s \<in> mark_states m")
  case True
  then obtain m where "p_state s \<in> mark_states m" by blast
  with assms have "only_mark m (ex_p s) s" by (rule marks_inv_only)
  then have "get_mark m' s = None" if "m' \<noteq> m" for m'
    using that unfolding only_mark_def by (metis not_Some_eq)
  then show ?thesis by (cases m) (simp_all add: marks_set_def del: get_mark.simps)
next
  case False
  with assms have "no_marks s" by (blast intro: marks_inv_none)
  then show ?thesis by (simp add: marks_set_def no_marks_def del: get_mark.simps)
qed

context parser_callbacks begin

lemma leftover_rule:
  assumes "settings e = st" and "between_bytes e s" and "ex_p s = length (input e)"
    and "len = length (input e)"
    and k: "\<And>t. between_bytes e t \<Longrightarrow> ex_p t = length (input e) \<Longrightarrow> sat B R len (k t)"
  shows "sat B R len (CALLBACK_DATA_NOADVANCE m e s k)"
proof (cases "get_mark m s")
  case None
  with assms(2) k [OF assms(2,3)] show ?thesis
    by (simp add: CALLBACK_DATA_NOADVANCE_def CALLBACK_DATA_AT_def between_bytes_def)
next
  case (Some at)
  with assms(2) have x: "p_state s \<in> mark_states m" and inv: "marks_inv s"
    and OK: "hp_http_errno (parser s) = HPE_OK"
    and st: "state_inv 0 (p_state s) (l_nread s) (parser s)"
    by (auto simp: between_bytes_def marks_inv_def)
  from x have "p_state s \<noteq> s_chunk_size_start"
    by (auto simp: mark_states_def url_mark_states_def split: mark.splits)
  with st have inv0: "state_inv 0 (p_state s) nr (parser s)" for nr by (rule state_inv_nread)
  show ?thesis unfolding CALLBACK_DATA_NOADVANCE_def
  proof (rule data_rule [OF assms(1) OK _ assms(4) _ _ marks_inv_only [OF inv x] inv0])
    fix t assume "no_marks t" and "marks_inv t" and "same_locals s t"
    then show "sat B R len (k t)" using assms(3) OK inv0
      by (intro k) (auto simp: between_bytes_def same_locals_def)
  qed (use assms(3,4) in simp_all)
qed

lemma finish_execute_ok:
  assumes "settings e = st" and "between_bytes e s" and "ex_p s = length (input e)"
  shows "sat (\<lambda>_. False) (\<lambda>_. False) (length (input e)) (finish_execute e s)"
proof -
  have "marks_set s \<le> 1" using assms(2) by (intro marks_set_le_1) (simp add: between_bytes_def)
  then have "finish_execute e s =
      CALLBACK_DATA_NOADVANCE M_header_field e s (\<lambda>s.
      CALLBACK_DATA_NOADVANCE M_header_value e s (\<lambda>s.
      CALLBACK_DATA_NOADVANCE M_url e s (\<lambda>s.
      CALLBACK_DATA_NOADVANCE M_body e s (\<lambda>s.
      CALLBACK_DATA_NOADVANCE M_status e s (\<lambda>s. RETURN (length (input e)) s)))))"
    by (simp add: finish_execute_def assert_that_def)
  also have "sat (\<lambda>_. False) (\<lambda>_. False) (length (input e)) \<dots>"
    using assms
    by (intro leftover_rule)
      (auto simp: between_bytes_def RETURN_def return_ok_def parser_inv_def)
  finally show ?thesis .
qed

lemma execute_loop_ok:
  assumes "settings e = st" and "length (input e) < 2 ^ 64" and "between_bytes e s"
  shows "\<exists>oc. execute_loop e s = Some oc \<and>
           sat (\<lambda>_. False) (\<lambda>_. False) (length (input e)) oc"
  using assms(3)
proof (induction "length (input e) - ex_p s" arbitrary: s rule: less_induct)
  case less
  show ?case
  proof (cases "ex_p s = length (input e)")
    case True
    then show ?thesis
      using finish_execute_ok [OF assms(1) less.prems] by (subst execute_loop.simps) simp
  next
    case False
    with less.prems have p: "ex_p s < length (input e)" by (simp add: between_bytes_def)
    note first = begin_byte_ok [OF less.prems p]
    show ?thesis
    proof (cases "begin_byte e s")
      case (Reexecute t)
      with first have t: "locals_inv 1 e t" "ex_p t = ex_p s" by simp_all
      from dispatch_ok [OF t(1) assms(1,2)] obtain oc where oc: "dispatch e t = Some oc"
        "sat (\<lambda>u. locals_inv 0 e u \<and> ex_p t \<le> ex_p u) (\<lambda>_. False) (length (input e)) oc"
        by blast
      show ?thesis
      proof (cases oc)
        case (Break u)
        with oc(2) have u: "locals_inv 0 e u" "ex_p s \<le> ex_p u" using t(2) by simp_all
        then have "between_bytes e (next_byte u)"
          by (auto simp: between_bytes_def locals_inv_def next_byte_def marks_inv_def)
            (meson le_SucI)
        moreover have "length (input e) - ex_p (next_byte u) < length (input e) - ex_p s"
          using u p by (simp add: next_byte_def)
        moreover have "execute_loop e s = execute_loop e (next_byte u)"
          using p Reexecute oc(1) Break by (subst execute_loop.simps) simp
        ultimately show ?thesis using less.hyps by metis
      qed (use oc p Reexecute in \<open>subst execute_loop.simps, simp\<close>)+
    qed (use first p in \<open>subst execute_loop.simps, simp\<close>)+
  qed
qed

end

section \<open>The call\<close>

text \<open>
  A parser object a caller may pass: its invariant holds unless it is in an error state (in
  which the function returns at once).
\<close>

definition usable :: "'u http_parser \<Rightarrow> bool" where
  "usable q \<longleftrightarrow> (hp_http_errno q = HPE_OK \<or> hp_http_errno q = HPE_PAUSED \<longrightarrow> parser_inv q)"

lemma return_ok_usable: "return_ok len n q \<Longrightarrow> usable q"
  by (simp add: return_ok_def usable_def)

lemma start_locals_between:
  assumes "hp_http_errno q = HPE_OK" and "parser_inv q"
  shows "between_bytes (mk_env mx st q data) (start_locals q)"
proof -
  have "get_mark m (start_locals q) = Some at \<longrightarrow> hp_state q \<in> mark_states m \<and> at = 0" for m at
    by (cases m) (simp_all add: start_locals_def mark_states_def)
  then have "marks_inv (start_locals q)" by (auto simp: marks_inv_def start_locals_def)
  then show ?thesis using assms
    by (simp add: between_bytes_def start_locals_def parser_inv_def)
qed

text \<open>What a call promises; \<open>Process_abort\<close> is an \<^verbatim>\<open>abort()\<close> inside a callback.\<close>

definition call_ok :: "string \<Rightarrow> 'u outcome option \<Rightarrow> bool" where
  "call_ok data r =
     (case r of
        None \<Rightarrow> False
      | Some (Return n q) \<Rightarrow>
          usable q \<and> n \<le> max 1 (length data) \<and>
          (hp_http_errno q = HPE_OK \<longrightarrow> n = length data \<or> hp_upgrade q)
      | Some (Abort a) \<Rightarrow> a = Process_abort
      | Some _ \<Rightarrow> False)"

context parser_callbacks begin

lemma execute_eof_ok:
  assumes "settings e = st" and "input e = []" and "hp_http_errno q = HPE_OK" and "parser_inv q"
  shows "call_ok [] (Some (execute_eof e q))"
proof (cases "hp_state q \<in> {s_body_identity_eof, s_dead, s_start_req_or_res, s_start_res, s_start_req}")
  case True
  have "sat B (\<lambda>_. False) 0
      (CALLBACK_NOTIFY_NOADVANCE on_message_complete HPE_CB_message_complete e (start_locals q)
        (\<lambda>s. Return 0 (parser s)))" if "hp_state q = s_body_identity_eof" for B
    using assms that unfolding CALLBACK_NOTIFY_NOADVANCE_def
    by (intro sat_CALLBACK_NOTIFY_AT)
      (auto simp: start_locals_def notify_cbs_def return_ok_def parser_inv_def)
  then have "sat (\<lambda>_. False) (\<lambda>_. False) 0 (execute_eof e q)"
    using True assms(3,4) by (auto simp: execute_eof_def Let_def return_ok_def)
  then show ?thesis
    by (cases "execute_eof e q") (auto simp: call_ok_def return_ok_def usable_def)
next
  case False
  then have "execute_eof e q = Return 1 (parser (SET_ERRNO HPE_INVALID_EOF_STATE (start_locals q)))"
    by (cases "hp_state q") (simp_all add: execute_eof_def Let_def)
  then show ?thesis by (simp add: call_ok_def usable_def SET_ERRNO_def)
qed

lemma execute_ok:
  assumes "usable q" and "length data < 2 ^ 64"
  shows "call_ok data (http_parser_execute mx st q data)"
proof (cases "hp_http_errno q = HPE_OK")
  case False
  then show ?thesis using assms(1)
    by (simp add: http_parser_execute_def Let_def call_ok_def)
next
  case True
  let ?e = "mk_env mx st q data"
  have e: "settings ?e = st" "input ?e = data" by (simp_all add: mk_env_def)
  have inv: "parser_inv q" using assms(1) True by (simp add: usable_def)
  show ?thesis
  proof (cases "data = []")
    case True
    then show ?thesis using execute_eof_ok [of ?e q] e \<open>hp_http_errno q = HPE_OK\<close> inv
      by (simp add: http_parser_execute_def Let_def)
  next
    case False
    obtain oc where oc: "execute_loop ?e (start_locals q) = Some oc"
        "sat (\<lambda>_. False) (\<lambda>_. False) (length data) oc"
      using execute_loop_ok [OF e(1) _ start_locals_between [OF True inv]] e(2) assms(2) by auto
    then have "call_ok data (Some oc)"
      by (cases oc) (auto simp: call_ok_def return_ok_def usable_def)
    then show ?thesis using True False oc(1) by (simp add: http_parser_execute_def Let_def)
  qed
qed

end

end
