(* ===== verification/Http_Api.thy ===== *)
theory Http_Api
  imports Http_Run
begin

text \<open>
  The parser as its users see it: a parser object is initialised, fed with reads of any size,
  paused and resumed. The protocol is an inductive relation; its invariant gives safety and
  termination of every call a program can make.
\<close>

section \<open>Objects a program can reach\<close>

lemma parser_inv_init: "parser_inv (http_parser_init q t)"
  by (simp add: parser_inv_def http_parser_init_def)

lemma usable_pause: "usable q \<Longrightarrow> http_parser_pause q b = Inr q' \<Longrightarrow> usable q'"
  by (auto simp: usable_def http_parser_pause_def parser_inv_def split: if_splits)

inductive reachable_parser ::
  "32 word \<Rightarrow> 'u http_parser_settings \<Rightarrow> 'u http_parser \<Rightarrow> bool" for mx st where
  created: "reachable_parser mx st (http_parser_init q t)"
| executed: "reachable_parser mx st q \<Longrightarrow> length data < 2 ^ 64 \<Longrightarrow>
    http_parser_execute mx st q data = Some (Return n q') \<Longrightarrow> reachable_parser mx st q'"
| paused: "reachable_parser mx st q \<Longrightarrow> http_parser_pause q b = Inr q' \<Longrightarrow>
    reachable_parser mx st q'"
| user_data: "reachable_parser mx st q \<Longrightarrow> reachable_parser mx st (q\<lparr>hp_data := d\<rparr>)"

inductive_cases reachable_parserE: "reachable_parser mx st q"

context parser_callbacks begin

lemma reachable_usable: "reachable_parser mx st q \<Longrightarrow> usable q"
proof (induction rule: reachable_parser.induct)
  case (created q t)
  then show ?case by (simp add: usable_def parser_inv_init)
next
  case (executed q data n q')
  then show ?case using execute_ok [of q data mx] by (simp add: call_ok_def)
next
  case (paused q b q')
  then show ?case by (blast intro: usable_pause)
next
  case (user_data q d)
  then show ?case by (simp add: usable_def parser_inv_def)
qed

end

section \<open>Tables of callbacks\<close>

text \<open>The empty table satisfies the interface.\<close>

interpretation no_callbacks: parser_callbacks http_parser_settings_init
  by unfold_locales
    (simp_all add: notify_cbs_def data_cbs_def http_parser_settings_init_def)

text \<open>
  A table that collects the events of a message in the user's data, and one of whose
  callbacks pauses the parser, as \<^verbatim>\<open>http_parser_pause\<close> allows.
\<close>

datatype event = Begin | Url string | Status string | Field string | Value string
  | Headers | Body string | Complete | Chunk_header | Chunk_complete

definition log_event :: "event \<Rightarrow> event list http_cb" where
  "log_event v q = Inr (0, q\<lparr>hp_data := hp_data q @ [v]\<rparr>)"

definition logging :: "event list http_parser_settings" where
  "logging = \<lparr>
     on_message_begin = Some (log_event Begin),
     on_url = Some (\<lambda>b. log_event (Url b)),
     on_status = Some (\<lambda>b. log_event (Status b)),
     on_header_field = Some (\<lambda>b. log_event (Field b)),
     on_header_value = Some (\<lambda>b. log_event (Value b)),
     on_headers_complete = Some (log_event Headers),
     on_body = Some (\<lambda>b. log_event (Body b)),
     on_message_complete = Some (log_event Complete),
     on_chunk_header = Some (log_event Chunk_header),
     on_chunk_complete = Some (log_event Chunk_complete)\<rparr>"

lemma log_event_ok: "callback_ok (log_event v) q"
  by (simp add: callback_ok_def log_event_def callback_frame_def)

interpretation logged: parser_callbacks logging
  by unfold_locales
    (auto simp: notify_cbs_def data_cbs_def logging_def log_event_ok)

definition example_parser :: "'u \<Rightarrow> 'u http_parser" where
  "example_parser d = \<lparr>
     hp_type = HTTP_BOTH, hp_state = s_dead, hp_header_state = h_general, hp_index = 0,
     hp_lenient_http_headers = False, hp_flags = 0, hp_nread = 0, hp_content_length = 0,
     hp_http_major = 0, hp_http_minor = 0, hp_status_code = 0, hp_method = HTTP_DELETE,
     hp_http_errno = HPE_OK, hp_upgrade = False, hp_data = d\<rparr>"

section \<open>Properties\<close>

text \<open>
  C1. \<^verbatim>\<open>http_parser_execute\<close> is total and safe: on every parser object that is in an error
  state or satisfies the state invariant, every input of less than \<open>2 ^ 64\<close> bytes and every
  table of callbacks that keeps to the interface, the call returns (no infinite
  \<^verbatim>\<open>goto reexecute\<close>), no assertion fails, no table, string literal or input byte is read
  out of bounds. The result counts at most the bytes given (1 for a failed end-of-file call),
  the parser object is usable again, and unless an error is stored all input has been
  consumed or the connection has been upgraded.
\<close>

theorem http_parser_execute_safe:
  assumes "parser_callbacks st" and "usable q" and "length data < 2 ^ 64"
  shows "http_parser_execute mx st q data = Some (Abort Process_abort) \<or>
    (\<exists>n q'. http_parser_execute mx st q data = Some (Return n q') \<and> usable q' \<and>
       n \<le> max 1 (length data) \<and>
       (hp_http_errno q' = HPE_OK \<longrightarrow> n = length data \<or> hp_upgrade q'))"
proof -
  from assms have "call_ok data (http_parser_execute mx st q data)"
    by (rule parser_callbacks.execute_ok)
  then show ?thesis
    by (auto simp: call_ok_def split: option.splits outcome.splits)
qed

theorem http_parser_execute_safe_witness:
  "\<exists>n q'. http_parser_execute 80 logging (http_parser_init (example_parser []) HTTP_REQUEST)
       ''GET / HTTP/1.1'' = Some (Return n q') \<and> usable q'"
proof -
  let ?q = "http_parser_init (example_parser []) HTTP_REQUEST"
  have "usable ?q" by (simp add: usable_def parser_inv_init)
  moreover have "case http_parser_execute 80 logging ?q ''GET / HTTP/1.1'' of
      Some (Return n q') \<Rightarrow> True | _ \<Rightarrow> False"
    by code_simp
  ultimately show ?thesis
    using http_parser_execute_safe [OF logged.parser_callbacks_axioms, of ?q "''GET / HTTP/1.1''" 80]
    by (auto split: option.splits outcome.splits)
qed

end
