(* ===== verification/Http_Url_Props.thy ===== *)
theory Http_Url_Props
  imports Http_Url
begin

text \<open>
  What \<^verbatim>\<open>http_parser_parse_url\<close> guarantees for every buffer (no failed assertion, no read
  outside the buffer, components inside the buffer) and what it computes on the URLs a server
  sees in a request line, \<open>/path?query#fragment\<close>.
\<close>

section \<open>Components stay inside the buffer\<close>

definition field_end :: "http_parser_url \<Rightarrow> http_parser_url_fields \<Rightarrow> nat" where
  "field_end u f = unat (uf_off u f) + unat (uf_len u f)"

definition fields_in :: "nat \<Rightarrow> http_parser_url \<Rightarrow> bool" where
  "fields_in n u \<longleftrightarrow> (\<forall>f. has_field u f \<longrightarrow> field_end u f \<le> n)"

lemma fields_in_mono: "fields_in n u \<Longrightarrow> n \<le> m \<Longrightarrow> fields_in m u"
  by (auto simp: fields_in_def intro: le_trans)

lemma has_field_simps [simp]:
  "has_field (set_field f u) g \<longleftrightarrow> has_field u g \<or> g = f"
  "has_field (set_off f n u) g = has_field u g"
  "has_field (set_len f l u) g = has_field u g"
  "has_field (inc_len f u) g = has_field u g"
  "has_field (u\<lparr>url_port := v\<rparr>) g = has_field u g"
  by (auto simp: has_field_def set_field_def set_off_def set_len_def inc_len_def)

lemma unat_of_nat_le: "unat (of_nat n :: 'a :: len word) \<le> n"
  by (simp add: unat_of_nat take_bit_eq_mod)

lemma unat_inc_le: "unat (w + 1) \<le> unat w + 1" for w :: "'a :: len word"
  by (simp add: unat_word_ariths)

lemma field_end_set_field [simp]: "field_end (set_field g u) f = field_end u f"
  by (simp add: field_end_def set_field_def)

lemma field_end_inc: "field_end (inc_len g u) f \<le> (if f = g then field_end u f + 1 else field_end u f)"
  using unat_inc_le [of "uf_len u g"] by (simp add: field_end_def inc_len_def)

lemma field_end_set_len [simp]:
  "field_end (set_len g l u) f = (if f = g then unat (uf_off u g) + unat l else field_end u f)"
  by (simp add: field_end_def set_len_def)

lemma field_end_set_off:
  "field_end (set_off g n u) f = (if f = g then unat (of_nat n :: 16 word) + unat (uf_len u g) else field_end u f)"
  by (simp add: field_end_def set_off_def)

lemma uf_off_simps [simp]:
  "uf_off (set_len g l u) = uf_off u"
  "uf_off (inc_len g u) = uf_off u"
  "uf_off (set_field g u) = uf_off u"
  "uf_len (set_off g n u) = uf_len u"
  "uf_len (set_field g u) = uf_len u"
  "uf_off (set_off g n u) g = of_nat n"
  "uf_len (set_len g l u) g = l"
  by (simp_all add: set_len_def inc_len_def set_field_def set_off_def)

text \<open>A new component of length 1 at offset \<open>p\<close>.\<close>

lemma field_end_new: "unat (uf_off (set_off g p u) g) + unat (1 :: 16 word) \<le> p + 1"
  using unat_of_nat_le [of p, where 'a = 16] by (simp add: set_off_def)

lemma url_field_of_ok: "s \<noteq> s_dead \<Longrightarrow> \<exists>r. url_field_of (parse_url_char x c) = Inr r"
  if "s = parse_url_char x c" for s
  using that by (cases x) (auto simp: parse_url_char_def url_server_char_def url_field_of_def
      split: if_splits)

text \<open>The components the first loop may set.\<close>

definition loop_fields :: "http_parser_url_fields set" where
  "loop_fields = {UF_SCHEMA, UF_HOST, UF_PATH, UF_QUERY, UF_FRAGMENT}"

lemma url_field_of_loop: "url_field_of s = Inr (Some f) \<Longrightarrow> f \<in> loop_fields"
  by (cases s) (auto simp: url_field_of_def loop_fields_def)

definition url_loop_inv :: "nat \<Rightarrow> http_parser_url_fields option \<Rightarrow> http_parser_url \<Rightarrow> bool" where
  "url_loop_inv p old_uf u \<longleftrightarrow>
     fields_in p u \<and> (\<forall>f. has_field u f \<longrightarrow> f \<in> loop_fields) \<and>
     (case old_uf of None \<Rightarrow> True | Some f \<Rightarrow> has_field u f)"

lemma url_loop_inv_same:
  assumes "url_loop_inv p (Some f) u"
  shows "url_loop_inv (Suc p) (Some f) (inc_len f u)"
proof -
  have "field_end (inc_len f u) g \<le> Suc p" if "has_field u g" for g
    using field_end_inc [of f u g] assms that
    by (fastforce simp: url_loop_inv_def fields_in_def split: if_splits)
  then show ?thesis using assms by (simp add: url_loop_inv_def fields_in_def)
qed

lemma url_loop_inv_new:
  assumes "url_loop_inv p old_uf u" and "f \<in> loop_fields"
  shows "url_loop_inv (Suc p) (Some f) (set_field f (set_len f 1 (set_off f p u)))"
  using assms field_end_new [of f p u]
  by (auto simp: url_loop_inv_def fields_in_def field_end_set_off intro: le_SucI)

lemma url_loop_inv_skip: "url_loop_inv p old_uf u \<Longrightarrow> url_loop_inv (Suc p) old_uf u"
  by (auto simp: url_loop_inv_def intro: fields_in_mono)

lemma parse_url_loop_ok:
  assumes "url_loop_inv p old_uf u"
  shows "\<exists>r. parse_url_loop rest p s old_uf found_at u = Inr r \<and>
    (\<forall>u' at. r = Inr (u', at) \<longrightarrow>
       fields_in (p + length rest) u' \<and> (\<forall>f. has_field u' f \<longrightarrow> f \<in> loop_fields))"
  using assms
proof (induction rest arbitrary: p s old_uf found_at u)
  case Nil
  then show ?case by (auto simp: url_loop_inv_def)
next
  case (Cons c rest)
  let ?s = "parse_url_char s c"
  let ?at = "found_at \<or> ?s = s_req_server_with_at"
  show ?case
  proof (cases "?s = s_dead")
    case True
    then show ?thesis by simp
  next
    case False
    then obtain r where r: "url_field_of ?s = Inr r" using url_field_of_ok by blast
    consider (skip) "r = None" | (same) f where "r = Some f" "old_uf = Some f"
      | (new) f where "r = Some f" "old_uf \<noteq> Some f"
      by (cases r) auto
    then show ?thesis
    proof cases
      case skip
      with Cons.IH [OF url_loop_inv_skip [OF Cons.prems], of ?s ?at] r False
      show ?thesis by (simp add: Let_def)
    next
      case same
      with Cons.prems have "url_loop_inv (Suc p) (Some f) (inc_len f u)"
        by (auto intro: url_loop_inv_same)
      with Cons.IH [OF this, of ?s ?at] r False same show ?thesis by (simp add: Let_def)
    next
      case new
      with r have "f \<in> loop_fields" using url_field_of_loop by simp
      with Cons.IH [OF url_loop_inv_new [OF Cons.prems this], of ?s ?at] r False new
      show ?thesis by (simp add: Let_def)
    qed
  qed
qed

section \<open>The host part\<close>

text \<open>The states before the first character of the host proper.\<close>

definition before_host :: "http_host_state set" where
  "before_host = {s_http_userinfo_start, s_http_userinfo, s_http_host_start, s_http_host_v6_start}"

definition host_inv :: "nat \<Rightarrow> nat \<Rightarrow> http_parser_url \<Rightarrow> bool" where
  "host_inv n p u \<longleftrightarrow> fields_in n u \<and> p \<le> n \<and> field_end u UF_HOST \<le> p \<and>
     (\<forall>f \<in> {UF_PORT, UF_USERINFO}. has_field u f \<longrightarrow> field_end u f \<le> p)"

lemma host_inv_inc:
  assumes "host_inv n p u" and "p < n" and f: "f \<in> {UF_HOST, UF_PORT, UF_USERINFO}"
  shows "host_inv n (Suc p) (inc_len f u)"
proof -
  have "field_end (inc_len f u) g \<le> Suc p"
    if "g \<in> {UF_HOST, UF_PORT, UF_USERINFO}" "has_field u g \<or> g = UF_HOST" for g
    using field_end_inc [of f u g] assms(1) that by (auto simp: host_inv_def split: if_splits)
  moreover have "field_end (inc_len f u) g \<le> n" if "has_field u g" for g
  proof (cases "g = f")
    case True
    with assms that have "field_end u g \<le> p" by (auto simp: host_inv_def)
    with field_end_inc [of f u g] assms(2) True show ?thesis by simp
  next
    case False
    with field_end_inc [of f u g] assms(1) that show ?thesis
      by (auto simp: host_inv_def fields_in_def intro: le_trans)
  qed
  ultimately show ?thesis using assms by (simp add: host_inv_def fields_in_def)
qed

lemma host_inv_Suc: "host_inv n p u \<Longrightarrow> p < n \<Longrightarrow> host_inv n (Suc p) u"
  by (auto simp: host_inv_def intro: le_SucI)

text \<open>Start of a component at offset \<open>p\<close> with length 0.\<close>

lemma host_inv_start:
  assumes "host_inv n p u"
  shows "uf_len u UF_HOST = 0 \<Longrightarrow> host_inv n p (set_off UF_HOST p u)"
    and "f \<in> {UF_PORT, UF_USERINFO} \<Longrightarrow>
           host_inv n p (set_field f (set_len f 0 (set_off f p u)))"
  using assms unat_of_nat_le [of p, where 'a = 16]
  by (auto simp: host_inv_def fields_in_def field_end_set_off intro: le_trans)

lemma host_update_len:
  "new_s \<in> before_host \<Longrightarrow> uf_len (host_update p s new_s u) UF_HOST = uf_len u UF_HOST"
  by (auto simp: before_host_def host_update_def inc_len_def set_len_def set_off_def set_field_def)

lemma host_char_before:
  assumes "new_s = http_parse_host_char s c" and "new_s \<noteq> s_http_host_dead"
  shows "new_s \<in> before_host \<Longrightarrow> s \<in> before_host"
    and "new_s = s_http_host \<Longrightarrow> s \<noteq> s_http_host \<Longrightarrow> s \<in> before_host"
    and "new_s = s_http_host_v6 \<Longrightarrow> s \<noteq> s_http_host_v6 \<Longrightarrow> s \<in> before_host"
  using assms
  by (cases s; simp add: http_parse_host_char_def before_host_def host_v6_char_def
      host_v6_zone_char_def Let_def split: if_splits)+

lemma host_update_inv:
  assumes "host_inv n p u" and "p < n"
    and "new_s = http_parse_host_char s c" and "new_s \<noteq> s_http_host_dead"
    and "s \<in> before_host \<Longrightarrow> uf_len u UF_HOST = 0"
  shows "host_inv n (Suc p) (host_update p s new_s u)"
  using assms(1,2,5) host_char_before [OF assms(3,4)] assms(4)
  by (cases new_s)
    (simp_all add: host_update_def host_inv_inc host_inv_Suc host_inv_start)

lemma http_parse_host_loop_ok:
  assumes "host_inv n p u" and "buflen \<le> n" and "n \<le> length buf"
    and "s \<in> before_host \<Longrightarrow> uf_len u UF_HOST = 0"
  shows "\<exists>r. http_parse_host_loop buf buflen p s u = Inr r \<and>
           (\<forall>s' u'. r = Inr (s', u') \<longrightarrow> fields_in n u')"
  using assms
proof (induction buf buflen p s u rule: http_parse_host_loop.induct)
  case (1 buf buflen p s u)
  show ?case
  proof (cases "p < buflen")
    case False
    with "1.prems"(1) show ?thesis
      by (subst http_parse_host_loop.simps) (simp add: host_inv_def)
  next
    case True
    with "1.prems"(2,3) have p: "p < n" "p < length buf" by simp_all
    let ?s = "http_parse_host_char s (buf ! p)"
    show ?thesis
    proof (cases "?s = s_http_host_dead")
      case dead: True
      with True p show ?thesis by (subst http_parse_host_loop.simps) simp
    next
      case False
      have inv: "host_inv n (Suc p) (host_update p s ?s u)"
        by (rule host_update_inv [OF "1.prems"(1) p(1) refl False "1.prems"(4)])
      have len: "uf_len (host_update p s ?s u) UF_HOST = 0" if "?s \<in> before_host"
        using host_update_len [OF that] "1.prems"(4) host_char_before(1) [OF refl False that] by simp
      from "1.IH" [OF True p(2) refl False inv "1.prems"(2,3) len] True p(2) False
      show ?thesis by (subst http_parse_host_loop.simps) (simp add: Let_def)
    qed
  qed
qed

lemma http_parse_host_ok:
  assumes "has_field u UF_HOST" and "fields_in (length buf) u"
    and "\<forall>f. has_field u f \<longrightarrow> f \<in> loop_fields"
  shows "\<exists>r u'. http_parse_host buf u at = Inr (r, u') \<and> r \<in> {0, 1} \<and>
           (r = 0 \<longrightarrow> fields_in (length buf) u')"
proof -
  let ?off = "unat (uf_off u UF_HOST)" and ?u = "set_len UF_HOST 0 u"
  let ?s = "if at then s_http_userinfo_start else s_http_host_start"
  have buflen: "?off + unat (uf_len u UF_HOST) \<le> length buf"
    using assms(1,2) by (simp add: fields_in_def field_end_def)
  have "host_inv (length buf) ?off ?u"
    using assms buflen
    by (auto simp: host_inv_def fields_in_def loop_fields_def)
  then obtain r where r: "http_parse_host_loop buf (?off + unat (uf_len u UF_HOST)) ?off ?s ?u = Inr r"
    "\<forall>s' u'. r = Inr (s', u') \<longrightarrow> fields_in (length buf) u'"
    using http_parse_host_loop_ok [OF _ buflen order_refl, of ?off ?u ?s] by (auto simp: set_len_def)
  then show ?thesis using assms(1)
    by (cases r) (auto simp: http_parse_host_def Let_def split: prod.splits)
qed

lemma url_port_step_ok:
  assumes "fields_in (length buf) u"
  shows "\<exists>r u'. url_port_step buf u = Inr (r, u') \<and> r \<in> {0, 1} \<and>
           (r = 0 \<longrightarrow> fields_in (length buf) u')"
  using assms
  by (auto simp: url_port_step_def Let_def fields_in_def field_end_def split: option.splits)

lemma http_parser_parse_url_ok:
  "\<exists>r u'. http_parser_parse_url buf is_connect u = Inr (r, u') \<and> r \<in> {0, 1} \<and>
     (r = 0 \<longrightarrow> fields_in (length buf) u')"
proof (cases "buf = []")
  case True
  then show ?thesis by (simp add: http_parser_parse_url_def)
next
  case False
  let ?u = "u\<lparr>url_port := 0, field_set := 0\<rparr>"
  let ?s = "if is_connect then s_req_server_start else s_req_spaces_before_url"
  have "\<not> has_field ?u f" for f by (simp add: has_field_def)
  then have "url_loop_inv 0 None ?u" by (simp add: url_loop_inv_def fields_in_def)
  from parse_url_loop_ok [OF this, of buf ?s False] obtain r where
    r: "parse_url_loop buf 0 ?s None False ?u = Inr r"
      "\<And>u' at. r = Inr (u', at) \<Longrightarrow> fields_in (length buf) u' \<and> (\<forall>f. has_field u' f \<longrightarrow> f \<in> loop_fields)"
    by auto
  show ?thesis
  proof (cases r)
    case (Inl u')
    with r(1) False show ?thesis by (simp add: http_parser_parse_url_def Let_def)
  next
    case (Inr x)
    obtain u1 at where x: "r = Inr (u1, at)" using Inr by (cases x) simp
    note u1 = r(2) [OF x]
    have host: "\<exists>r u'. (if has_field u1 UF_HOST then http_parse_host buf u1 at else Inr (0, u1)) = Inr (r, u') \<and>
        r \<in> {0, 1} \<and> (r = 0 \<longrightarrow> fields_in (length buf) u')"
      using http_parse_host_ok [of u1 buf at] u1 by auto
    then obtain r2 u2 where u2:
      "(if has_field u1 UF_HOST then http_parse_host buf u1 at else Inr (0, u1)) = Inr (r2, u2)"
      "r2 \<in> {0, 1}" "r2 = 0 \<longrightarrow> fields_in (length buf) u2" by blast
    then show ?thesis using r(1) x False url_port_step_ok [of buf u2]
      by (auto simp: http_parser_parse_url_def Let_def)
  qed
qed

section \<open>The URL of a request line\<close>

definition origin_url :: "string \<Rightarrow> string \<Rightarrow> string \<Rightarrow> string" where
  "origin_url path q f =
     CHR ''/'' # path @ (if q = [] then [] else CHR ''?'' # q) @ (if f = [] then [] else CHR ''#'' # f)"

definition query_char :: "char \<Rightarrow> bool" where
  "query_char c \<longleftrightarrow> IS_URL_CHAR c \<or> c = CHR ''?''"

definition fragment_char :: "char \<Rightarrow> bool" where
  "fragment_char c \<longleftrightarrow> IS_URL_CHAR c \<or> c = CHR ''?'' \<or> c = CHR ''#''"

lemma IS_URL_CHAR_not_space:
  "IS_URL_CHAR c \<Longrightarrow> c \<noteq> SP \<and> c \<noteq> CR \<and> c \<noteq> LF \<and> c \<noteq> HT \<and> c \<noteq> FF"
  by (auto simp: spec_simps url_char_spec_def)

lemma not_url_chars: "\<not> IS_URL_CHAR (CHR ''?'')" "\<not> IS_URL_CHAR (CHR ''#'')"
  by (simp_all add: spec_simps url_char_spec_def)

lemma parse_url_char_steps:
  "IS_URL_CHAR c \<Longrightarrow> parse_url_char s_req_path c = s_req_path"
  "query_char c \<Longrightarrow> parse_url_char s_req_query_string_start c = s_req_query_string"
  "query_char c \<Longrightarrow> parse_url_char s_req_query_string c = s_req_query_string"
  "fragment_char c \<Longrightarrow> c \<noteq> CHR ''#'' \<Longrightarrow> parse_url_char s_req_fragment_start c = s_req_fragment"
  "fragment_char c \<Longrightarrow> parse_url_char s_req_fragment c = s_req_fragment"
  using IS_URL_CHAR_not_space [of c]
  by (auto simp: parse_url_char_def query_char_def fragment_char_def)

lemma delimiter_steps:
  "parse_url_char s_req_path (CHR ''?'') = s_req_query_string_start"
  "parse_url_char s_req_path (CHR ''#'') = s_req_fragment_start"
  "parse_url_char s_req_query_string (CHR ''#'') = s_req_fragment_start"
  "parse_url_char s_req_spaces_before_url (CHR ''/'') = s_req_path"
  using not_url_chars by (simp_all add: parse_url_char_def)

definition add_len :: "http_parser_url_fields \<Rightarrow> nat \<Rightarrow> http_parser_url \<Rightarrow> http_parser_url" where
  "add_len f n u = u\<lparr>uf_len := (uf_len u)(f := uf_len u f + of_nat n)\<rparr>"

lemma add_len_0 [simp]: "add_len f 0 u = u"
  by (simp add: add_len_def)

lemma add_len_inc [simp]: "add_len f n (inc_len f u) = add_len f (Suc n) u"
  by (simp add: add_len_def inc_len_def algebra_simps)

lemma parse_url_run:
  assumes "\<forall>c \<in> set cs. parse_url_char s c = s" and "url_field_of s = Inr (Some f)"
    and "s \<noteq> s_req_server_with_at" and "s \<noteq> s_dead"
  shows "parse_url_loop (cs @ rest) p s (Some f) at u =
         parse_url_loop rest (p + length cs) s (Some f) at (add_len f (length cs) u)"
  using assms by (induction cs arbitrary: p u) (simp_all add: Let_def)

text \<open>A component after its delimiter.\<close>

lemma parse_url_part:
  assumes "parse_url_char s0 sep = s1" and "url_field_of s1 = Inr None"
    and "s1 \<noteq> s_req_server_with_at" and "s1 \<noteq> s_dead"
    and "parse_url_char s1 c = s" and "\<forall>c \<in> set cs. parse_url_char s c = s"
    and "url_field_of s = Inr (Some f)" and "s \<noteq> s_req_server_with_at" and "s \<noteq> s_dead"
    and "old_uf \<noteq> Some f"
  shows "parse_url_loop (sep # (c # cs) @ rest) p s0 old_uf at u =
         parse_url_loop rest (p + 1 + length (c # cs)) s (Some f) at
           (add_len f (length cs) (set_field f (set_len f 1 (set_off f (p + 1) u))))"
proof -
  have "parse_url_loop (sep # (c # cs) @ rest) p s0 old_uf at u =
      parse_url_loop (cs @ rest) (p + 2) s (Some f) at (set_field f (set_len f 1 (set_off f (p + 1) u)))"
    using assms by (simp add: Let_def)
  also have "\<dots> = parse_url_loop rest (p + 2 + length cs) s (Some f) at
      (add_len f (length cs) (set_field f (set_len f 1 (set_off f (p + 1) u))))"
    using assms by (intro parse_url_run) auto
  finally show ?thesis by simp
qed

definition put_part :: "http_parser_url_fields \<Rightarrow> nat \<Rightarrow> nat \<Rightarrow> http_parser_url \<Rightarrow> http_parser_url" where
  "put_part f p n u = (if n = 0 then u else add_len f (n - 1) (set_field f (set_len f 1 (set_off f p u))))"

lemma put_part_simps:
  "has_field (put_part f p n u) g \<longleftrightarrow> has_field u g \<or> (g = f \<and> n \<noteq> 0)"
  "n \<noteq> 0 \<Longrightarrow> uf_off (put_part f p n u) f = of_nat p"
  "n \<noteq> 0 \<Longrightarrow> uf_len (put_part f p n u) f = of_nat n"
  "g \<noteq> f \<Longrightarrow> uf_off (put_part f p n u) g = uf_off u g"
  "g \<noteq> f \<Longrightarrow> uf_len (put_part f p n u) g = uf_len u g"
  by (auto simp: put_part_def add_len_def set_field_def set_len_def set_off_def has_field_def
      of_nat_diff)

definition query_part :: "nat \<Rightarrow> string \<Rightarrow> http_parser_url \<Rightarrow> http_parser_url" where
  "query_part p q u = put_part UF_QUERY (p + 1) (length q) u"

lemma parse_query:
  assumes "\<forall>c \<in> set q. query_char c"
  shows "\<exists>s old_uf. parse_url_loop ((if q = [] then [] else CHR ''?'' # q) @ rest) p s_req_path (Some UF_PATH) at u =
           parse_url_loop rest (p + length (if q = [] then [] else CHR ''?'' # q)) s old_uf at
             (put_part UF_QUERY (p + 1) (length q) u) \<and>
         s \<in> {s_req_path, s_req_query_string} \<and> old_uf \<in> {Some UF_PATH, Some UF_QUERY}"
proof (cases q)
  case Nil
  then show ?thesis by (auto simp: put_part_def)
next
  case (Cons c cs)
  have "parse_url_loop (CHR ''?'' # (c # cs) @ rest) p s_req_path (Some UF_PATH) at u =
      parse_url_loop rest (p + 1 + length (c # cs)) s_req_query_string (Some UF_QUERY) at
        (add_len UF_QUERY (length cs) (set_field UF_QUERY (set_len UF_QUERY 1 (set_off UF_QUERY (p + 1) u))))"
    using assms Cons
    by (intro parse_url_part [where ?s1.0 = s_req_query_string_start])
      (simp_all add: parse_url_char_steps delimiter_steps url_field_of_def)
  then show ?thesis using Cons by (auto simp: put_part_def)
qed

lemma parse_fragment:
  assumes "\<forall>c \<in> set f. fragment_char c" and "f = [] \<or> hd f \<noteq> CHR ''#''" and "s \<in> {s_req_path, s_req_query_string}"
    and "old_uf \<in> {Some UF_PATH, Some UF_QUERY}"
  shows "parse_url_loop (if f = [] then [] else CHR ''#'' # f) p s old_uf at u =
           Inr (Inr (put_part UF_FRAGMENT (p + 1) (length f) u, at))"
proof (cases f)
  case Nil
  then show ?thesis by (simp add: put_part_def)
next
  case (Cons c cs)
  have "parse_url_loop (CHR ''#'' # (c # cs) @ []) p s old_uf at u =
      parse_url_loop [] (p + 1 + length (c # cs)) s_req_fragment (Some UF_FRAGMENT) at
        (add_len UF_FRAGMENT (length cs) (set_field UF_FRAGMENT (set_len UF_FRAGMENT 1 (set_off UF_FRAGMENT (p + 1) u))))"
    using assms Cons
    by (intro parse_url_part [where ?s1.0 = s_req_fragment_start])
      (auto simp: parse_url_char_steps delimiter_steps url_field_of_def)
  then show ?thesis using Cons by (auto simp: put_part_def)
qed

lemma parse_origin_loop:
  assumes "\<forall>c \<in> set path. IS_URL_CHAR c" and "\<forall>c \<in> set q. query_char c"
    and "\<forall>c \<in> set f. fragment_char c" and "f = [] \<or> hd f \<noteq> CHR ''#''"
  shows "parse_url_loop (origin_url path q f) 0 s_req_spaces_before_url None False u =
    Inr (Inr (put_part UF_FRAGMENT (length path + 2 + (if q = [] then 0 else length q + 1)) (length f)
      (put_part UF_QUERY (length path + 2) (length q)
        (put_part UF_PATH 0 (length path + 1) u)), False))"
proof -
  let ?Q = "if q = [] then [] else CHR ''?'' # q"
  let ?F = "if f = [] then [] else CHR ''#'' # f"
  let ?u = "put_part UF_PATH 0 (length path + 1) u"
  have "parse_url_loop (origin_url path q f) 0 s_req_spaces_before_url None False u =
      parse_url_loop (path @ ?Q @ ?F) 1 s_req_path (Some UF_PATH) False
        (set_field UF_PATH (set_len UF_PATH 1 (set_off UF_PATH 0 u)))"
    by (simp add: origin_url_def Let_def delimiter_steps url_field_of_def)
  also have "\<dots> = parse_url_loop (?Q @ ?F) (1 + length path) s_req_path (Some UF_PATH) False ?u"
    using assms(1) by (subst parse_url_run) (simp_all add: parse_url_char_steps url_field_of_def put_part_def)
  finally have *: "parse_url_loop (origin_url path q f) 0 s_req_spaces_before_url None False u =
      parse_url_loop (?Q @ ?F) (1 + length path) s_req_path (Some UF_PATH) False ?u" .
  from parse_query [OF assms(2), of ?F "1 + length path" False ?u] obtain s old_uf where
    "parse_url_loop (?Q @ ?F) (1 + length path) s_req_path (Some UF_PATH) False ?u =
       parse_url_loop ?F (1 + length path + length ?Q) s old_uf False
         (put_part UF_QUERY (1 + length path + 1) (length q) ?u)"
    "s \<in> {s_req_path, s_req_query_string}" "old_uf \<in> {Some UF_PATH, Some UF_QUERY}" by blast
  with * parse_fragment [OF assms(3,4) this(2,3)] show ?thesis
    by (simp add: algebra_simps)
qed

lemma parse_origin_url:
  assumes "\<forall>c \<in> set path. IS_URL_CHAR c" and "\<forall>c \<in> set q. query_char c"
    and "\<forall>c \<in> set f. fragment_char c" and "f = [] \<or> hd f \<noteq> CHR ''#''"
  shows "http_parser_parse_url (origin_url path q f) False u =
    Inr (0, put_part UF_FRAGMENT (length path + 2 + (if q = [] then 0 else length q + 1)) (length f)
      (put_part UF_QUERY (length path + 2) (length q)
        (put_part UF_PATH 0 (length path + 1) (u\<lparr>url_port := 0, field_set := 0\<rparr>))))"
proof -
  have none: "\<not> has_field (u\<lparr>url_port := 0, field_set := 0\<rparr>) g" for g by (simp add: has_field_def)
  have "origin_url path q f \<noteq> []" by (simp add: origin_url_def)
  then show ?thesis
    using parse_origin_loop [OF assms, of "u\<lparr>url_port := 0, field_set := 0\<rparr>"]
    by (simp add: http_parser_parse_url_def Let_def put_part_simps none url_port_step_def)
qed

text \<open>The URLs of a request line, short enough for 16-bit lengths, and the parts reported for them.\<close>

definition good_url :: "string \<Rightarrow> string \<Rightarrow> string \<Rightarrow> bool" where
  "good_url path q f \<longleftrightarrow>
     (\<forall>c \<in> set path. IS_URL_CHAR c) \<and> (\<forall>c \<in> set q. query_char c) \<and> (\<forall>c \<in> set f. fragment_char c) \<and>
     (f = [] \<or> hd f \<noteq> CHR ''#'') \<and> length (origin_url path q f) < 2 ^ 16"

lemma parse_good_url:
  assumes "good_url path q f"
  shows "\<exists>u'. http_parser_parse_url (origin_url path q f) False u = Inr (0, u') \<and>
    (\<forall>g. has_field u' g \<longleftrightarrow>
       g = UF_PATH \<or> (g = UF_QUERY \<and> q \<noteq> []) \<or> (g = UF_FRAGMENT \<and> f \<noteq> [])) \<and>
    field_text (origin_url path q f) u' UF_PATH = CHR ''/'' # path \<and>
    (q \<noteq> [] \<longrightarrow> field_text (origin_url path q f) u' UF_QUERY = q) \<and>
    (f \<noteq> [] \<longrightarrow> field_text (origin_url path q f) u' UF_FRAGMENT = f)"
proof -
  have none: "\<not> has_field (u\<lparr>url_port := 0, field_set := 0\<rparr>) g" for g by (simp add: has_field_def)
  have small: "unat (of_nat n :: 16 word) = n" if "n < 2 ^ 16" for n
    using that by (simp add: unat_of_nat take_bit_eq_mod)
  have len: "length path + 1 + (if q = [] then 0 else length q + 1) + (if f = [] then 0 else length f + 1) < 2 ^ 16"
    using assms by (auto simp: good_url_def origin_url_def split: if_splits)
  show ?thesis
    using len parse_origin_url [of path q f u] assms
    by (auto simp: good_url_def field_text_def put_part_simps none small origin_url_def
        simp del: of_nat_Suc of_nat_add)
qed

section \<open>Properties\<close>

text \<open>
  C15. \<^verbatim>\<open>http_parser_parse_url\<close> terminates on every buffer, with either value of
  \<^verbatim>\<open>is_connect\<close> and any previous content of the result structure, without a failed
  assertion or a read outside the buffer, and returns 0 or 1; on success every component it
  reports lies inside the buffer, so a caller may cut it out without further checks.
\<close>

theorem http_parser_parse_url_safe:
  "\<exists>r u'. http_parser_parse_url buf is_connect u = Inr (r, u') \<and> (r = 0 \<or> r = 1) \<and>
     (r = 0 \<longrightarrow> (\<forall>f. has_field u' f \<longrightarrow> unat (uf_off u' f) + unat (uf_len u' f) \<le> length buf))"
  using http_parser_parse_url_ok [of buf is_connect u]
  by (auto simp: fields_in_def field_end_def)

theorem http_parser_parse_url_safe_witness:
  "\<exists>u'. http_parser_parse_url ''http://a/b'' False http_parser_url_init = Inr (0, u') \<and>
     unat (uf_off u' UF_PATH) + unat (uf_len u' UF_PATH) \<le> 10"
proof -
  have "case http_parser_parse_url ''http://a/b'' False http_parser_url_init of
      Inr (r, u) \<Rightarrow> r = 0 \<and> has_field u UF_PATH | _ \<Rightarrow> False"
    by code_simp
  then show ?thesis
    using http_parser_parse_url_safe [of "''http://a/b''" False http_parser_url_init] by auto
qed

text \<open>
  C16. On the URL of a request line, \<open>/path?query#fragment\<close> with an optional query and
  fragment and of less than \<open>2 ^ 16\<close> bytes in all, \<^verbatim>\<open>http_parser_parse_url\<close> succeeds, and
  the components it reports are exactly the parts of the URL: the path with its slash, the
  query and the fragment when they are not empty, and no other component.
\<close>

theorem http_parser_parse_url_origin:
  assumes "\<forall>c \<in> set path. IS_URL_CHAR c" and "\<forall>c \<in> set q. query_char c"
    and "\<forall>c \<in> set f. fragment_char c" and "f = [] \<or> hd f \<noteq> CHR ''#''"
    and "length (origin_url path q f) < 2 ^ 16"
  shows "\<exists>u'. http_parser_parse_url (origin_url path q f) False u = Inr (0, u') \<and>
    (\<forall>g. has_field u' g \<longleftrightarrow>
       g = UF_PATH \<or> (g = UF_QUERY \<and> q \<noteq> []) \<or> (g = UF_FRAGMENT \<and> f \<noteq> [])) \<and>
    field_text (origin_url path q f) u' UF_PATH = CHR ''/'' # path \<and>
    (q \<noteq> [] \<longrightarrow> field_text (origin_url path q f) u' UF_QUERY = q) \<and>
    (f \<noteq> [] \<longrightarrow> field_text (origin_url path q f) u' UF_FRAGMENT = f)"
  using parse_good_url [of path q f u] assms by (simp add: good_url_def)

theorem http_parser_parse_url_origin_witness:
  "\<exists>u'. http_parser_parse_url ''/a?b=?#c'' False http_parser_url_init = Inr (0, u') \<and>
     field_text ''/a?b=?#c'' u' UF_QUERY = ''b=?''"
proof -
  have "IS_URL_CHAR CHR ''a''" "IS_URL_CHAR CHR ''b''" "IS_URL_CHAR CHR ''c''" "IS_URL_CHAR CHR ''=''"
    by (simp_all add: spec_simps url_char_spec_def)
  then show ?thesis
    using http_parser_parse_url_origin [of "''a''" "''b=?''" "''c''" http_parser_url_init]
    by (auto simp: origin_url_def query_char_def fragment_char_def)
qed

text \<open>
  C35. The length of a component is a 16-bit number: for a URL of any size, of which the path
  with its slash has \<open>n\<close> bytes, the reported length of the path is \<open>n mod 2 ^ 16\<close>. A URL of
  65536 bytes, which the default header limit of 80 KiB admits, is reported as a success with
  an empty path.
\<close>

theorem url_path_length_wraps:
  assumes "\<forall>c \<in> set path. IS_URL_CHAR c"
  shows "\<exists>u'. http_parser_parse_url (origin_url path [] []) False u = Inr (0, u') \<and>
    has_field u' UF_PATH \<and> unat (uf_len u' UF_PATH) = (length path + 1) mod 2 ^ 16"
proof -
  have none: "\<not> has_field (u\<lparr>url_port := 0, field_set := 0\<rparr>) g" for g by (simp add: has_field_def)
  show ?thesis
    using parse_origin_url [OF assms, of "[]" "[]" u]
    by (auto simp: put_part_simps none unat_of_nat take_bit_eq_mod simp del: of_nat_Suc of_nat_add)
qed

theorem url_path_length_wraps_witness:
  "\<exists>u'. http_parser_parse_url (origin_url (replicate 65535 CHR ''a'') [] []) False
      http_parser_url_init = Inr (0, u') \<and> has_field u' UF_PATH \<and> uf_len u' UF_PATH = 0"
proof -
  have "IS_URL_CHAR CHR ''a''" by (simp add: spec_simps url_char_spec_def)
  then show ?thesis
    using url_path_length_wraps [of "replicate 65535 CHR ''a''" http_parser_url_init]
    by (auto simp: unat_eq_zero)
qed

end
