(* ===== verification/Http_Context.thy ===== *)
theory Http_Context
  imports Http_Api Http_Url_Props
begin

text \<open>
  \<^verbatim>\<open>src/core/http/http_request.h\<close>, \<^verbatim>\<open>http_context.h\<close> and \<^verbatim>\<open>http_context.cpp\<close>:
  the request a connection is assembling, the callbacks the server gives to the HTTP parser,
  and \<^verbatim>\<open>HTTPContext::parse\<close>. The parser's user pointer leads to the context, whose only
  other part is the current request; the model keeps the request itself as the user data of
  the parser object.
\<close>

section \<open>Requests\<close>

datatype header_element = NONE | FIELD | VALUE

record HTTPRequest =
  req_name :: string
  req_raw :: string
  req_type :: http_parser_type
  req_method :: http_method
  req_status_code :: int
  request_path :: string
  request_url :: string
  fragment :: string
  query_string :: string
  req_body :: string
  last_header_element :: header_element
  req_headers :: "string \<rightharpoonup> string"
  last_filed_value :: "string \<times> string"
  req_should_keep_alive :: bool
  body_is_final :: bool
  message_is_end :: bool

text \<open>
  The constructor sets three members; the strings and the map start empty. The members of
  scalar type it does not mention have the value the memory had: \<open>g\<close>.
\<close>

definition new_HTTPRequest :: "HTTPRequest \<Rightarrow> HTTPRequest" where
  "new_HTTPRequest g = \<lparr>
     req_name = [], req_raw = [], req_type = req_type g, req_method = req_method g,
     req_status_code = req_status_code g, request_path = [], request_url = [], fragment = [],
     query_string = [], req_body = [], last_header_element = last_header_element g,
     req_headers = Map.empty, last_filed_value = ([], []), req_should_keep_alive = False,
     body_is_final = False, message_is_end = False\<rparr>"

type_synonym req_parser = "HTTPRequest http_parser"

text \<open>\<^verbatim>\<open>std::map::emplace\<close> does not replace an existing entry.\<close>

definition emplace :: "'k \<Rightarrow> 'v \<Rightarrow> ('k \<rightharpoonup> 'v) \<Rightarrow> ('k \<rightharpoonup> 'v)" where
  "emplace k v m = (if m k = None then m(k \<mapsto> v) else m)"

definition getRequest :: "req_parser \<Rightarrow> HTTPRequest" where
  "getRequest psr = hp_data psr"

definition put_request :: "req_parser \<Rightarrow> HTTPRequest \<Rightarrow> req_parser" where
  "put_request psr r = psr\<lparr>hp_data := r\<rparr>"

section \<open>Callbacks\<close>

definition isBodyFinal :: "req_parser \<Rightarrow> (int \<times> req_parser) checked" where
  "isBodyFinal psr =
     (let http_request = getRequest psr
      in if body_is_final http_request then Inl Process_abort
         else Inr (0, put_request psr
                (http_request\<lparr>body_is_final := http_body_is_final psr\<rparr>)))"

definition defaultTriggerCallBack :: "HTTPRequest http_cb" where
  "defaultTriggerCallBack psr = Inr (0, psr)"

definition defaultMessageCallBack :: "HTTPRequest http_data_cb" where
  "defaultMessageCallBack buf psr = Inr (0, psr)"

text \<open>
  \<^verbatim>\<open>std::string::append(str, pos, n)\<close> throws \<^verbatim>\<open>std::out_of_range\<close> when \<open>pos\<close> is
  beyond the end; nothing catches it, so the process ends.
\<close>

definition append_substr :: "string \<Rightarrow> string \<Rightarrow> nat \<Rightarrow> nat \<Rightarrow> string checked" where
  "append_substr target str pos n =
     (if pos > length str then Inl Process_abort else Inr (target @ take n (drop pos str)))"

definition fillURLSubStr ::
  "HTTPRequest \<Rightarrow> http_parser_url \<Rightarrow> http_parser_url_fields \<Rightarrow> HTTPRequest checked" where
  "fillURLSubStr request u field =
     (let url = request_url request; off = unat (uf_off u field); len = unat (uf_len u field);
          set = has_field u field
      in case field of
        UF_QUERY \<Rightarrow>
          if set then checked_bind (append_substr (query_string request) url off len)
                        (\<lambda>s. Inr (request\<lparr>query_string := s\<rparr>))
          else Inr request
      | UF_FRAGMENT \<Rightarrow>
          if set then checked_bind (append_substr (fragment request) url off len)
                        (\<lambda>s. Inr (request\<lparr>fragment := s\<rparr>))
          else Inr request
      | UF_PATH \<Rightarrow>
          if set then checked_bind (append_substr (request_path request) url off len)
                        (\<lambda>s. Inr (request\<lparr>request_path := s\<rparr>))
          else Inr request
      | _ \<Rightarrow> Inl Process_abort)"

text \<open>
  \<open>g\<close> is the content of the local structure \<^verbatim>\<open>u\<close>, which is not initialised before the
  call of \<^verbatim>\<open>http_parser_parse_url\<close>.
\<close>

definition urlCallBack :: "http_parser_url \<Rightarrow> HTTPRequest http_data_cb" where
  "urlCallBack g buf psr =
     (let http_request = getRequest psr;
          url = request_url http_request @ buf;
          http_request = http_request\<lparr>request_url := url\<rparr>
      in checked_bind (http_parser_parse_url url False g) (\<lambda>(r, u).
           if r \<noteq> 0 then Inl Process_abort
           else
             let http_request = http_request\<lparr>req_method := hp_method psr\<rparr>
             in checked_bind (fillURLSubStr http_request u UF_QUERY) (\<lambda>http_request.
                checked_bind (fillURLSubStr http_request u UF_FRAGMENT) (\<lambda>http_request.
                checked_bind (fillURLSubStr http_request u UF_PATH) (\<lambda>http_request.
                  Inr (0, put_request psr http_request))))))"

definition headerFieldCallBack :: "HTTPRequest http_data_cb" where
  "headerFieldCallBack buf psr =
     (let r = getRequest psr;
          r = (if last_header_element r \<noteq> FIELD then
                 (let r = (if fst (last_filed_value r) \<noteq> []
                           then r\<lparr>req_headers := emplace (fst (last_filed_value r))
                                    (snd (last_filed_value r)) (req_headers r)\<rparr>
                           else r)
                  in r\<lparr>last_filed_value := ([], [])\<rparr>)
               else r);
          r = r\<lparr>last_filed_value := (fst (last_filed_value r) @ buf, snd (last_filed_value r)),
                last_header_element := FIELD\<rparr>
      in Inr (0, put_request psr r))"

definition headerValueCallBack :: "HTTPRequest http_data_cb" where
  "headerValueCallBack buf psr =
     (let r = getRequest psr;
          r = r\<lparr>last_filed_value := (fst (last_filed_value r), snd (last_filed_value r) @ buf),
                last_header_element := VALUE\<rparr>
      in Inr (0, put_request psr r))"

definition bodyCallBack :: "HTTPRequest http_data_cb" where
  "bodyCallBack buf psr =
     (let r = getRequest psr;
          psr = put_request psr (r\<lparr>req_body := req_body r @ buf\<rparr>)
      in checked_bind (isBodyFinal psr) (\<lambda>(_, psr). Inr (0, psr)))"

text \<open>The last header is complete once the headers, or the trailers, have ended.\<close>

definition flush_header :: "HTTPRequest \<Rightarrow> HTTPRequest" where
  "flush_header r =
     (if snd (last_filed_value r) \<noteq> []
      then r\<lparr>req_headers := emplace (fst (last_filed_value r)) (snd (last_filed_value r))
               (req_headers r)\<rparr>
      else r)"

definition messageCompleteCallBack :: "HTTPRequest http_cb" where
  "messageCompleteCallBack psr =
     Inr (0, put_request psr ((flush_header (getRequest psr))\<lparr>message_is_end := True\<rparr>))"

definition headerCompleteCallBack :: "HTTPRequest http_cb" where
  "headerCompleteCallBack psr = Inr (0, put_request psr (flush_header (getRequest psr)))"

definition defaultParserSettig :: "http_parser_url \<Rightarrow> HTTPRequest http_parser_settings" where
  "defaultParserSettig g = \<lparr>
     on_message_begin = Some defaultTriggerCallBack,
     on_url = Some (urlCallBack g),
     on_status = Some defaultMessageCallBack,
     on_header_field = Some headerFieldCallBack,
     on_header_value = Some headerValueCallBack,
     on_headers_complete = Some headerCompleteCallBack,
     on_body = Some bodyCallBack,
     on_message_complete = Some messageCompleteCallBack,
     on_chunk_header = Some defaultTriggerCallBack,
     on_chunk_complete = Some defaultTriggerCallBack\<rparr>"

section \<open>Contexts\<close>

text \<open>
  A context owns its parser object and its request (\<^verbatim>\<open>bindParser\<close> links the two); the
  settings are shared. \<open>m\<close> is the content of the memory \<^verbatim>\<open>malloc\<close> returns.
\<close>

record HTTPContext =
  ctx_parser :: req_parser

definition ctx_request :: "HTTPContext \<Rightarrow> HTTPRequest" where
  "ctx_request c = hp_data (ctx_parser c)"

definition bindParser :: "HTTPRequest \<Rightarrow> req_parser \<Rightarrow> req_parser" where
  "bindParser r psr = psr\<lparr>hp_data := r\<rparr>"

definition new_HTTPContext :: "req_parser \<Rightarrow> HTTPRequest \<Rightarrow> HTTPContext" where
  "new_HTTPContext m g =
     \<lparr>ctx_parser = bindParser (new_HTTPRequest g) (http_parser_init m HTTP_REQUEST)\<rparr>"

definition ctx_reset :: "HTTPRequest \<Rightarrow> HTTPContext \<Rightarrow> HTTPContext" where
  "ctx_reset g c =
     \<lparr>ctx_parser = http_parser_init (bindParser (new_HTTPRequest g) (ctx_parser c)) HTTP_REQUEST\<rparr>"

text \<open>
  \<^verbatim>\<open>HTTPContext::parse\<close>. Its result: \<open>None\<close> if the parser does not return, otherwise the
  end of the process or the returned value (\<open>-1\<close> for a bad request) with the new context.
\<close>

definition ctx_parse ::
  "32 word \<Rightarrow> http_parser_url \<Rightarrow> HTTPContext \<Rightarrow> string \<Rightarrow> (int \<times> HTTPContext) checked option" where
  "ctx_parse mx g c data =
     (case http_parser_execute mx (defaultParserSettig g) (ctx_parser c) data of
        None \<Rightarrow> None
      | Some (Return n psr) \<Rightarrow>
          Some (Inr (if n \<noteq> length data \<or> hp_http_errno psr \<noteq> HPE_OK then -1 else int n,
                     c\<lparr>ctx_parser := psr\<rparr>))
      | Some (Abort r) \<Rightarrow> Some (Inl r)
      | Some (Break s) \<Rightarrow> None
      | Some (Reexecute s) \<Rightarrow> None)"

section \<open>The callbacks keep to the parser's interface\<close>

lemma callback_ok_put: "f q = Inr (r, put_request q x) \<Longrightarrow> callback_ok f q"
  by (simp add: callback_ok_def callback_frame_def put_request_def)

lemma append_substr_abort: "append_substr t s p n = Inl a \<Longrightarrow> a = Process_abort"
  by (simp add: append_substr_def split: if_splits)

lemma fillURLSubStr_abort: "fillURLSubStr r u f = Inl a \<Longrightarrow> a = Process_abort"
  by (cases f)
    (auto simp: fillURLSubStr_def Let_def checked_bind_def append_substr_def
      split: if_splits sum.splits)

lemma urlCallBack_ok: "callback_ok (urlCallBack g buf) q"
proof -
  let ?url = "request_url (getRequest q) @ buf"
  obtain r u where "http_parser_parse_url ?url False g = Inr (r, u)"
    using http_parser_parse_url_ok by blast
  then show ?thesis
    by (auto simp: callback_ok_def callback_frame_def put_request_def urlCallBack_def Let_def
        checked_bind_def split: sum.splits if_splits dest: fillURLSubStr_abort)
qed

lemma bodyCallBack_ok: "callback_ok (bodyCallBack buf) q"
  by (auto simp: callback_ok_def callback_frame_def put_request_def bodyCallBack_def isBodyFinal_def
      getRequest_def Let_def)

interpretation qg_callbacks: parser_callbacks "defaultParserSettig g" for g
proof
  show "callback_ok f q" if "Some f \<in> set (notify_cbs (defaultParserSettig g))" for f q
    using that
    by (auto simp: notify_cbs_def defaultParserSettig_def defaultTriggerCallBack_def
        messageCompleteCallBack_def headerCompleteCallBack_def callback_ok_def callback_frame_def
        put_request_def)
  show "callback_ok (f bytes) q" if "Some f \<in> set (data_cbs (defaultParserSettig g))" for f bytes q
    using that urlCallBack_ok bodyCallBack_ok
    by (auto simp: data_cbs_def defaultParserSettig_def defaultMessageCallBack_def
        headerFieldCallBack_def headerValueCallBack_def callback_ok_def callback_frame_def
        put_request_def Let_def)
qed

end
