(* ===== verification/Http_Response.thy ===== *)
theory Http_Response
  imports Prelude
begin

text \<open>
  \<^verbatim>\<open>src/core/http/http_response.h\<close>, \<^verbatim>\<open>http_response.cpp\<close> and \<^verbatim>\<open>error.cpp\<close>: the
  response object, its text on the wire, and the error responses. The current date, which
  \<^verbatim>\<open>TimeStamp::getTimeOfDay\<close> formats with \<^verbatim>\<open>strftime\<close>, is a parameter.
\<close>

section \<open>Decimal numbers\<close>

text \<open>\<^verbatim>\<open>std::ostream << size_t\<close>.\<close>

fun to_dec :: "nat \<Rightarrow> string" where
  "to_dec n = (if n < 10 then [char_of (48 + n)] else to_dec (n div 10) @ [char_of (48 + n mod 10)])"

declare to_dec.simps [simp del]

fun from_dec :: "nat \<Rightarrow> string \<Rightarrow> nat" where
  "from_dec v [] = v"
| "from_dec v (c # cs) = from_dec (v * 10 + (uchar c - 48)) cs"

lemma from_dec_append: "from_dec v (xs @ ys) = from_dec (from_dec v xs) ys"
  by (induction xs arbitrary: v) simp_all

lemma uchar_digit: "n < 10 \<Longrightarrow> uchar (char_of (48 + n)) = 48 + n"
  by simp

lemma from_dec_to_dec: "from_dec 0 (to_dec n) = n"
proof (induction n rule: to_dec.induct)
  case (1 n)
  show ?case
  proof (cases "n < 10")
    case True
    then show ?thesis by (subst to_dec.simps) (simp add: uchar_digit)
  next
    case False
    have "n mod 10 < 10" by simp
    with False 1 show ?thesis
      by (subst to_dec.simps) (simp add: from_dec_append uchar_digit)
  qed
qed

lemma to_dec_digits: "c \<in> set (to_dec n) \<Longrightarrow> 48 \<le> uchar c \<and> uchar c \<le> 57"
proof (induction n rule: to_dec.induct)
  case (1 n)
  have digit: "48 \<le> uchar (char_of (48 + m)) \<and> uchar (char_of (48 + m)) \<le> 57" if "m < 10" for m :: nat
    using uchar_digit [OF that] that by linarith
  have "n mod 10 < 10" by simp
  with 1 digit show ?case
    by (subst (asm) (2) to_dec.simps) (auto split: if_splits)
qed

lemma to_dec_not_Nil [simp]: "to_dec n \<noteq> []"
  by (subst to_dec.simps) simp

section \<open>Responses\<close>

record HTTPResponse =
  res_status :: string
  res_headers :: string
  res_file_name :: string
  res_content :: string

definition new_HTTPResponse :: HTTPResponse where
  "new_HTTPResponse = \<lparr>res_status = [], res_headers = [], res_file_name = [], res_content = []\<rparr>"

definition CRLF :: string where
  "CRLF = [CHR 0x0D, CHR 0x0A]"

definition setStatus :: "int \<Rightarrow> HTTPResponse \<Rightarrow> HTTPResponse" where
  "setStatus code r = r\<lparr>res_status :=
     (if code = 200 then ''200 OK''
      else if code = 404 then ''404 Not Found''
      else if code = 400 then ''400 Bad Request''
      else if code = 405 then ''405 Method is not allowed''
      else if code = 413 then ''413 Payload Too Large''
      else if code = 505 then ''505 Version Not Supported''
      else ''500 Internal Server Error'')\<rparr>"

definition setFileName :: "string \<Rightarrow> HTTPResponse \<Rightarrow> HTTPResponse" where
  "setFileName file_name r = r\<lparr>res_file_name := file_name\<rparr>"

definition setHeader :: "string \<Rightarrow> string \<Rightarrow> HTTPResponse \<Rightarrow> HTTPResponse" where
  "setHeader field value r =
     r\<lparr>res_headers := res_headers r @ (field @ '': '') @ (value @ CRLF)\<rparr>"

definition setContent :: "string \<Rightarrow> HTTPResponse \<Rightarrow> HTTPResponse" where
  "setContent content r = r\<lparr>res_content := content\<rparr>"

text \<open>The text of the response; \<open>date\<close> is the result of \<^verbatim>\<open>TimeStamp::getTimeOfDay\<close>.\<close>

definition toString :: "string \<Rightarrow> HTTPResponse \<Rightarrow> string" where
  "toString date r =
     (let content_len = (if res_content r = [] then length (res_status r) else length (res_content r))
      in ''HTTP/1.1 '' @ res_status r @ CRLF @
         ''Server: QG Server (MacOs)'' @ CRLF @
         ''Date: '' @ date @ CRLF @
         ''Content-Type: text/html'' @ CRLF @
         ''Connection: keep-alive'' @ CRLF @
         ''Content-Length: '' @ to_dec content_len @ CRLF @
         res_headers r @
         CRLF @
         (if res_content r = [] then res_status r else res_content r))"

text \<open>\<^verbatim>\<open>sendError\<close>: the text given to \<^verbatim>\<open>TcpConnection::write\<close>.\<close>

definition sendError :: "string \<Rightarrow> int \<Rightarrow> string" where
  "sendError date error_code =
     (let status =
        (if error_code = 404 then ''404 Not Found''
         else if error_code = 400 then ''400 Bad Request''
         else if error_code = 413 then ''413 Payload Too Large''
         else if error_code = 505 then ''505 Version Not Supported''
         else ''500 Internal Server Error'')
      in ''HTTP/1.1 '' @ status @ CRLF @
         ''Server: Httpd (Ubuntu)'' @ CRLF @
         ''Date: '' @ date @ CRLF @
         ''Content-Type: text/html'' @ CRLF @
         ''Content-Length: '' @ to_dec (length status) @ CRLF @
         ''Connection: keep-alive'' @ CRLF @
         CRLF @
         status)"

end
