(* ===== verification/Event_Handler.thy ===== *)
theory Event_Handler
  imports Prelude
begin

text \<open>
  \<^verbatim>\<open>src/core/event_handler.h\<close> and \<^verbatim>\<open>event_handler.cpp\<close>: a descriptor, the events its
  owner is interested in, the events the poller reported, the place in the poller's array and
  the callbacks. \<open>'f\<close> is the type of the functors (\<^verbatim>\<open>std::function<void()>\<close>); an empty
  one is \<open>None\<close>. The constants are those of the branch without \<^verbatim>\<open>__linux__\<close>, where
  \<^verbatim>\<open>POLL_IN\<close>, \<^verbatim>\<open>POLL_OUT\<close> and \<^verbatim>\<open>POLL_ERR\<close> are the codes of \<^verbatim>\<open>siginfo_t\<close>: 1, 2
  and 4 on macOS.
\<close>

section \<open>Event bits\<close>

type_synonym events = "32 word"

definition kEventNone :: events where "kEventNone = 0"

definition kEventRead :: events where "kEventRead = 1"

definition kEventWrite :: events where "kEventWrite = 2"

definition kEventError :: events where "kEventError = 4"

definition kEventAll :: events where
  "kEventAll = kEventRead OR kEventWrite OR kEventError"

definition kEventMask :: events where "kEventMask = 0xff"

lemmas event_bits = kEventNone_def kEventRead_def kEventWrite_def kEventError_def
  kEventAll_def kEventMask_def

section \<open>Handlers\<close>

record 'f EventHandler =
  eh_handle :: int
  eh_ievents :: events
  eh_revents :: events
  eh_index :: int
  eh_read_cb :: "'f option"
  eh_write_cb :: "'f option"
  eh_error_cb :: "'f option"

definition new_EventHandler :: "int \<Rightarrow> events \<Rightarrow> 'f EventHandler" where
  "new_EventHandler fd ie =
     \<lparr>eh_handle = fd, eh_ievents = ie, eh_revents = kEventNone, eh_index = -1,
      eh_read_cb = None, eh_write_cb = None, eh_error_cb = None\<rparr>"

definition setHandler :: "int \<Rightarrow> 'f EventHandler \<Rightarrow> 'f EventHandler" where
  "setHandler fd h = h\<lparr>eh_handle := fd\<rparr>"

definition setIEvents :: "events \<Rightarrow> 'f EventHandler \<Rightarrow> 'f EventHandler" where
  "setIEvents iev h = h\<lparr>eh_ievents := eh_ievents h OR (iev AND kEventMask)\<rparr>"

definition setREvents :: "events \<Rightarrow> 'f EventHandler \<Rightarrow> 'f EventHandler" where
  "setREvents rv h = h\<lparr>eh_revents := eh_revents h OR (rv AND kEventMask)\<rparr>"

definition clear_interest :: "events \<Rightarrow> 'f EventHandler \<Rightarrow> 'f EventHandler" where
  "clear_interest ev h = h\<lparr>eh_ievents := eh_ievents h AND NOT ev\<rparr>"

definition no_interest :: "'f EventHandler \<Rightarrow> 'f EventHandler" where
  "no_interest h = h\<lparr>eh_ievents := kEventNone\<rparr>"

definition SetIndex :: "int \<Rightarrow> 'f EventHandler \<Rightarrow> 'f EventHandler" where
  "SetIndex i h = h\<lparr>eh_index := i\<rparr>"

definition setReadCallBack :: "'f \<Rightarrow> 'f EventHandler \<Rightarrow> 'f EventHandler" where
  "setReadCallBack cb h = h\<lparr>eh_read_cb := Some cb\<rparr>"

definition setWriteCallBack :: "'f \<Rightarrow> 'f EventHandler \<Rightarrow> 'f EventHandler" where
  "setWriteCallBack cb h = h\<lparr>eh_write_cb := Some cb\<rparr>"

definition setErrorCallBack :: "'f \<Rightarrow> 'f EventHandler \<Rightarrow> 'f EventHandler" where
  "setErrorCallBack cb h = h\<lparr>eh_error_cb := Some cb\<rparr>"

definition isReading :: "'f EventHandler \<Rightarrow> bool" where
  "isReading h \<longleftrightarrow> eh_ievents h AND kEventRead \<noteq> 0"

definition isWriting :: "'f EventHandler \<Rightarrow> bool" where
  "isWriting h \<longleftrightarrow> eh_ievents h AND kEventWrite \<noteq> 0"

definition isReadable :: "'f EventHandler \<Rightarrow> bool" where
  "isReadable h \<longleftrightarrow> eh_revents h AND kEventRead \<noteq> 0"

definition isWriteable :: "'f EventHandler \<Rightarrow> bool" where
  "isWriteable h \<longleftrightarrow> eh_revents h AND kEventWrite \<noteq> 0"

definition isError :: "'f EventHandler \<Rightarrow> bool" where
  "isError h \<longleftrightarrow> eh_revents h AND kEventError \<noteq> 0"

lemmas handler_defs = new_EventHandler_def setHandler_def setIEvents_def setREvents_def
  clear_interest_def no_interest_def SetIndex_def setReadCallBack_def setWriteCallBack_def
  setErrorCallBack_def

lemmas interest_defs = isReading_def isWriting_def isReadable_def isWriteable_def isError_def

section \<open>Dispatching\<close>

text \<open>
  \<^verbatim>\<open>HandleEvent\<close> reads the handler again before each callback, because the callback before
  it may have changed the handler: \<open>get\<close> finds the handler in the state, \<open>invoke\<close> runs a
  functor.
\<close>

definition run_callback ::
  "('f \<Rightarrow> 's \<Rightarrow> 's checked) \<Rightarrow> bool \<Rightarrow> 'f option \<Rightarrow> 's \<Rightarrow> 's checked" where
  "run_callback invoke b cb s =
     (if b then (case cb of Some f \<Rightarrow> invoke f s | None \<Rightarrow> Inr s) else Inr s)"

definition HandleEvent ::
  "('s \<Rightarrow> 'f EventHandler) \<Rightarrow> ('f \<Rightarrow> 's \<Rightarrow> 's checked) \<Rightarrow> 's \<Rightarrow> 's checked" where
  "HandleEvent get invoke s =
     checked_bind
       (run_callback invoke (isReadable (get s) \<and> isReading (get s)) (eh_read_cb (get s)) s) (\<lambda>s.
     checked_bind
       (run_callback invoke (isWriteable (get s) \<and> isWriting (get s)) (eh_write_cb (get s)) s) (\<lambda>s.
     run_callback invoke (isError (get s)) (eh_error_cb (get s)) s))"

section \<open>Bits of the interest set\<close>

lemma isReading_simps [simp]:
  "isReading (setIEvents kEventRead h)"
  "isReading (setIEvents kEventWrite h) = isReading h"
  "isReading (clear_interest kEventWrite h) = isReading h"
  "\<not> isReading (clear_interest kEventRead h)"
  "\<not> isReading (no_interest h)"
  "\<not> isReading (new_EventHandler fd kEventNone)"
proof -
  show "isReading (setIEvents kEventRead h)"
    by (simp add: isReading_def setIEvents_def event_bits bit.conj_disj_distrib2)
  show "isReading (setIEvents kEventWrite h) = isReading h"
    by (simp add: isReading_def setIEvents_def event_bits bit.conj_disj_distrib2)
  show "isReading (clear_interest kEventWrite h) = isReading h"
    by (simp add: isReading_def clear_interest_def event_bits and.assoc)
  show "\<not> isReading (clear_interest kEventRead h)"
    by (simp add: isReading_def clear_interest_def and.assoc)
  show "\<not> isReading (no_interest h)" "\<not> isReading (new_EventHandler fd kEventNone)"
    by (simp_all add: isReading_def no_interest_def new_EventHandler_def kEventNone_def)
qed

lemma isWriting_simps [simp]:
  "isWriting (setIEvents kEventWrite h)"
  "isWriting (setIEvents kEventRead h) = isWriting h"
  "isWriting (clear_interest kEventRead h) = isWriting h"
  "\<not> isWriting (clear_interest kEventWrite h)"
  "\<not> isWriting (no_interest h)"
  "\<not> isWriting (new_EventHandler fd kEventNone)"
proof -
  show "isWriting (setIEvents kEventWrite h)"
    by (simp add: isWriting_def setIEvents_def event_bits bit.conj_disj_distrib2)
  show "isWriting (setIEvents kEventRead h) = isWriting h"
    by (simp add: isWriting_def setIEvents_def event_bits bit.conj_disj_distrib2)
  show "isWriting (clear_interest kEventRead h) = isWriting h"
    by (simp add: isWriting_def clear_interest_def event_bits and.assoc)
  show "\<not> isWriting (clear_interest kEventWrite h)"
    by (simp add: isWriting_def clear_interest_def and.assoc)
  show "\<not> isWriting (no_interest h)" "\<not> isWriting (new_EventHandler fd kEventNone)"
    by (simp_all add: isWriting_def no_interest_def new_EventHandler_def kEventNone_def)
qed

text \<open>Reported events are only ever added: once readable, a handler stays readable.\<close>

lemma revents_sticky:
  "isReadable h \<Longrightarrow> isReadable (setREvents rv h)"
  "isWriteable h \<Longrightarrow> isWriteable (setREvents rv h)"
  "isError h \<Longrightarrow> isError (setREvents rv h)"
proof -
  have *: "(a OR b) AND c \<noteq> 0" if "a AND c \<noteq> 0" for a b c :: events
  proof -
    from that obtain n where "bit (a AND c) n" by (metis bit_eqI bit_0_eq bot_apply bot_bool_def)
    then have "bit ((a OR b) AND c) n" by (simp add: bit_simps)
    then show ?thesis by auto
  qed
  show "isReadable h \<Longrightarrow> isReadable (setREvents rv h)"
    "isWriteable h \<Longrightarrow> isWriteable (setREvents rv h)"
    "isError h \<Longrightarrow> isError (setREvents rv h)"
    by (simp_all add: interest_defs setREvents_def *)
qed

end
