(* ===== verification/Poller_Spec.thy ===== *)
theory Poller_Spec
  imports Event_Handler
begin

text \<open>
  \<^verbatim>\<open>src/core/poll/Poller.h\<close>: the abstract class \<^verbatim>\<open>Poller\<close> behind which the event loop
  keeps \<^verbatim>\<open>poll(2)\<close> or \<^verbatim>\<open>kqueue\<close>. A poller's state contains the memory of the
  handlers. The contract: an operation the state allows returns, and the set of registered
  handlers changes as its name says.
\<close>

text \<open>Removing the only key of a value removes the value.\<close>

lemma ran_map_remove:
  assumes "m k = Some v" and inj: "\<And>j. m j = Some v \<Longrightarrow> j = k"
  shows "ran (m(k := None)) = ran m - {v}"
proof (intro set_eqI iffI)
  fix x
  assume "x \<in> ran (m(k := None))"
  then obtain j where "j \<noteq> k" "m j = Some x" by (auto simp: ran_def split: if_splits)
  moreover from this have "x \<noteq> v" using inj by blast
  ultimately show "x \<in> ran m - {v}" by (auto intro: ranI)
next
  fix x
  assume "x \<in> ran m - {v}"
  then obtain j where j: "m j = Some x" "x \<noteq> v" by (auto simp: ran_def)
  with assms(1) have "(m(k := None)) j = Some x" by auto
  then show "x \<in> ran (m(k := None))" by (rule ranI)
qed

datatype poller_op = Register nat | Update nat | Remove nat

locale poller =
  fixes register_handler :: "nat \<Rightarrow> 's \<Rightarrow> 's checked"
    and update_handler :: "nat \<Rightarrow> 's \<Rightarrow> 's checked"
    and remove_handler :: "nat \<Rightarrow> 's \<Rightarrow> 's checked"
    and inv :: "'s \<Rightarrow> bool"
    and registered :: "'s \<Rightarrow> nat set"
    and fresh :: "'s \<Rightarrow> nat \<Rightarrow> bool"
    and idle :: "'s \<Rightarrow> nat \<Rightarrow> bool"
  assumes register_ok: "inv s \<Longrightarrow> fresh s h \<Longrightarrow>
      \<exists>s'. register_handler h s = Inr s' \<and> inv s' \<and> registered s' = insert h (registered s)"
    and update_ok: "inv s \<Longrightarrow> h \<in> registered s \<Longrightarrow>
      \<exists>s'. update_handler h s = Inr s' \<and> inv s' \<and> registered s' = registered s \<and> idle s' h"
    and remove_ok: "inv s \<Longrightarrow> h \<in> registered s \<Longrightarrow> idle s h \<Longrightarrow>
      \<exists>s'. remove_handler h s = Inr s' \<and> inv s' \<and> registered s' = registered s - {h}"
begin

definition exec_op :: "poller_op \<Rightarrow> 's \<Rightarrow> 's checked" where
  "exec_op op s =
     (case op of
        Register h \<Rightarrow> register_handler h s
      | Update h \<Rightarrow> update_handler h s
      | Remove h \<Rightarrow> remove_handler h s)"

definition allowed :: "poller_op \<Rightarrow> 's \<Rightarrow> bool" where
  "allowed op s =
     (case op of
        Register h \<Rightarrow> fresh s h
      | Update h \<Rightarrow> h \<in> registered s
      | Remove h \<Rightarrow> h \<in> registered s \<and> idle s h)"

definition effect :: "poller_op \<Rightarrow> nat set \<Rightarrow> nat set" where
  "effect op R =
     (case op of Register h \<Rightarrow> insert h R | Update h \<Rightarrow> R | Remove h \<Rightarrow> R - {h})"

lemma exec_op_ok:
  assumes "inv s" and "allowed op s"
  shows "\<exists>s'. exec_op op s = Inr s' \<and> inv s' \<and> registered s' = effect op (registered s)"
  using assms register_ok [of s] update_ok [of s] remove_ok [of s]
  by (cases op) (fastforce simp: exec_op_def allowed_def effect_def)+

text \<open>A program: operations in sequence, each allowed in the state it finds.\<close>

fun exec_ops :: "poller_op list \<Rightarrow> 's \<Rightarrow> 's checked" where
  "exec_ops [] s = Inr s"
| "exec_ops (op # ops) s = checked_bind (exec_op op s) (exec_ops ops)"

fun all_allowed :: "poller_op list \<Rightarrow> 's \<Rightarrow> bool" where
  "all_allowed [] s = True"
| "all_allowed (op # ops) s =
     (allowed op s \<and> (\<forall>s'. exec_op op s = Inr s' \<longrightarrow> all_allowed ops s'))"

lemma exec_ops_refine:
  "inv s \<Longrightarrow> all_allowed ops s \<Longrightarrow>
     \<exists>s'. exec_ops ops s = Inr s' \<and> inv s' \<and> registered s' = fold effect ops (registered s)"
proof (induction ops arbitrary: s)
  case Nil
  then show ?case by simp
next
  case (Cons op ops)
  then obtain s' where "exec_op op s = Inr s'" "inv s'" "registered s' = effect op (registered s)"
    using exec_op_ok [of s op] by auto
  with Cons.IH [of s'] Cons.prems(2) show ?case by auto
qed

text \<open>A handler that has been updated since it was registered can be removed at once.\<close>

lemma update_remove_ok:
  assumes "inv s" and "h \<in> registered s"
  shows "\<exists>s'. exec_ops [Update h, Remove h] s = Inr s' \<and> inv s' \<and> registered s' = registered s - {h}"
proof -
  obtain s1 where s1: "update_handler h s = Inr s1" "inv s1" "registered s1 = registered s" "idle s1 h"
    using update_ok [OF assms] by blast
  moreover from s1 assms(2) obtain s2 where
    "remove_handler h s1 = Inr s2" "inv s2" "registered s2 = registered s1 - {h}"
    using remove_ok [of s1 h] by auto
  ultimately show ?thesis by (simp add: exec_op_def)
qed

end

end
