(* ===== verification/Time_Stamp.thy ===== *)
theory Time_Stamp
  imports Prelude "HOL-Library.Signed_Division"
begin

text \<open>
  \<^verbatim>\<open>src/util/time_stamp.h\<close> and \<^verbatim>\<open>time_stamp.cpp\<close>: points in time in microseconds since
  the epoch. The values are those of \<^verbatim>\<open>qg_int64_t\<close>; they stay far below \<open>2 ^ 63\<close>, so
  the model uses integers. \<^verbatim>\<open>toFormatedString\<close> and \<^verbatim>\<open>getTimeOfDay\<close> only format.
\<close>

datatype TimeStamp = TimeStamp (getUnixTimeStamp: int)

definition kMicroSecondsPerSecond :: int where
  "kMicroSecondsPerSecond = 1000 * 1000"

text \<open>The comparison operators make time stamps a linear order.\<close>

instantiation TimeStamp :: linorder
begin

definition less_eq_TimeStamp :: "TimeStamp \<Rightarrow> TimeStamp \<Rightarrow> bool" where
  "less_eq_TimeStamp lhs rhs \<longleftrightarrow> getUnixTimeStamp lhs \<le> getUnixTimeStamp rhs"

definition less_TimeStamp :: "TimeStamp \<Rightarrow> TimeStamp \<Rightarrow> bool" where
  "less_TimeStamp lhs rhs \<longleftrightarrow> getUnixTimeStamp lhs < getUnixTimeStamp rhs"

instance
  by intro_classes
    (auto simp: less_eq_TimeStamp_def less_TimeStamp_def intro: TimeStamp.expand)

end

instantiation TimeStamp :: "{plus, minus}"
begin

definition minus_TimeStamp :: "TimeStamp \<Rightarrow> TimeStamp \<Rightarrow> TimeStamp" where
  "minus_TimeStamp lhs rhs = TimeStamp (getUnixTimeStamp lhs - getUnixTimeStamp rhs)"

definition plus_TimeStamp :: "TimeStamp \<Rightarrow> TimeStamp \<Rightarrow> TimeStamp" where
  "plus_TimeStamp lhs rhs = TimeStamp (getUnixTimeStamp lhs + getUnixTimeStamp rhs)"

instance ..

end

lemma TimeStamp_less_simps [simp]:
  "TimeStamp a < TimeStamp b \<longleftrightarrow> a < b"
  "TimeStamp a \<le> TimeStamp b \<longleftrightarrow> a \<le> b"
  by (simp_all add: less_TimeStamp_def less_eq_TimeStamp_def)

text \<open>C++ division truncates towards zero.\<close>

definition toMilliseconds :: "TimeStamp \<Rightarrow> int" where
  "toMilliseconds t = getUnixTimeStamp t sdiv 1000"

definition toSeconds :: "TimeStamp \<Rightarrow> int" where
  "toSeconds t = getUnixTimeStamp t sdiv kMicroSecondsPerSecond"

text \<open>
  \<^verbatim>\<open>TimeStamp::Now\<close>: the system clock, converted to \<^verbatim>\<open>time_t\<close>, has a resolution of one
  second; \<open>clock\<close> is its value.
\<close>

definition Now :: "int \<Rightarrow> TimeStamp" where
  "Now clock = TimeStamp (clock * kMicroSecondsPerSecond)"

text \<open>
  \<^verbatim>\<open>addTime\<close> takes the seconds as a \<^verbatim>\<open>double\<close>; every caller passes a \<^verbatim>\<open>time_t\<close>, for
  which the product is exact below \<open>2 ^ 53\<close> microseconds.
\<close>

definition addTime :: "TimeStamp \<Rightarrow> int \<Rightarrow> TimeStamp" where
  "addTime timeStamp seconds =
     (let delta = seconds * kMicroSecondsPerSecond
      in TimeStamp (getUnixTimeStamp timeStamp + delta))"

lemma addTime_le: "0 \<le> s \<Longrightarrow> t \<le> addTime t s"
  by (cases t) (simp add: addTime_def kMicroSecondsPerSecond_def)

lemma addTime_less: "0 < s \<Longrightarrow> t < addTime t s"
  by (cases t) (simp add: addTime_def kMicroSecondsPerSecond_def)

end
