(* ===== verification/Poll_Poller.thy ===== *)
theory Poll_Poller
  imports Poller_Spec Time_Stamp "HOL-Library.Multiset"
begin

text \<open>
  \<^verbatim>\<open>src/core/poll/Poller.h\<close>, \<^verbatim>\<open>Pollpoller.h\<close> and \<^verbatim>\<open>Pollpoller.cpp\<close>: the array given
  to \<^verbatim>\<open>poll(2)\<close> and the handlers behind its entries. Handlers are shared objects, so the
  state holds the memory they live in, by address.
\<close>

section \<open>State\<close>

record pollfd =
  pfd_fd :: int
  pfd_events :: "16 word"
  pfd_revents :: "16 word"

record 'f Pollpoller =
  eh_mem :: "nat \<Rightarrow> 'f EventHandler"
  poll_fds :: "pollfd list"
  event_handler_map :: "int \<rightharpoonup> nat"

definition new_Pollpoller :: "(nat \<Rightarrow> 'f EventHandler) \<Rightarrow> 'f Pollpoller" where
  "new_Pollpoller mem = \<lparr>eh_mem = mem, poll_fds = [], event_handler_map = Map.empty\<rparr>"

definition change_handler ::
  "nat \<Rightarrow> ('f EventHandler \<Rightarrow> 'f EventHandler) \<Rightarrow> ('f, 'z) Pollpoller_scheme \<Rightarrow>
     ('f, 'z) Pollpoller_scheme" where
  "change_handler h f s = s\<lparr>eh_mem := (eh_mem s)(h := f (eh_mem s h))\<rparr>"

section \<open>Operations\<close>

definition pp_registerHandler ::
  "nat \<Rightarrow> ('f, 'z) Pollpoller_scheme \<Rightarrow> ('f, 'z) Pollpoller_scheme checked" where
  "pp_registerHandler h s =
     (if \<not> eh_index (eh_mem s h) < 0 then Inl Assertion
      else
        let s = change_handler h (SetIndex (int (length (poll_fds s)))) s;
            s = s\<lparr>event_handler_map := (event_handler_map s)(eh_handle (eh_mem s h) \<mapsto> h)\<rparr>;
            pfd = \<lparr>pfd_fd = eh_handle (eh_mem s h), pfd_events = ucast (eh_ievents (eh_mem s h)),
                   pfd_revents = 0\<rparr>;
            s = s\<lparr>poll_fds := poll_fds s @ [pfd]\<rparr>
        in Inr s)"

definition pp_updateHandler ::
  "nat \<Rightarrow> ('f, 'z) Pollpoller_scheme \<Rightarrow> ('f, 'z) Pollpoller_scheme checked" where
  "pp_updateHandler h s =
     (let index = eh_index (eh_mem s h)
      in if index < 0 then pp_registerHandler h s
         else if nat index < length (poll_fds s) then
           Inr (s\<lparr>poll_fds := (poll_fds s)[nat index :=
                    (poll_fds s ! nat index)\<lparr>pfd_events := ucast (eh_ievents (eh_mem s h)),
                                           pfd_revents := 0\<rparr>]\<rparr>)
         else Inl Out_of_bounds)"

text \<open>A missing entry of the map is a null pointer, whose member \<^verbatim>\<open>SetIndex\<close> is called.\<close>

definition pp_removeHandler ::
  "nat \<Rightarrow> ('f, 'z) Pollpoller_scheme \<Rightarrow> ('f, 'z) Pollpoller_scheme checked" where
  "pp_removeHandler h s =
     (let index = eh_index (eh_mem s h); fds = poll_fds s
      in if \<not> (index \<ge> 0 \<and> index < int (length fds)) then Inl Assertion
         else if event_handler_map s (eh_handle (eh_mem s h)) \<noteq> Some h then Inl Assertion
         else if pfd_revents (fds ! nat index) \<noteq> 0 then Inl Assertion
         else
           (case event_handler_map s (pfd_fd (last fds)) of
              None \<Rightarrow> Inl Out_of_bounds
            | Some b \<Rightarrow>
                let s = change_handler b (SetIndex index) s;
                    s = s\<lparr>event_handler_map := (event_handler_map s)(eh_handle (eh_mem s h) := None)\<rparr>;
                    fds = fds[nat index := last fds, length fds - 1 := fds ! nat index]
                in Inr (s\<lparr>poll_fds := butlast fds\<rparr>)))"

text \<open>
  The result of \<^verbatim>\<open>poll(2)\<close>: the number of ready descriptors with the \<^verbatim>\<open>revents\<close> of the
  entries it was given, or a failure, which leaves the array as it is.
\<close>

datatype poll_result = Polled nat "16 word list" | Poll_failed

definition poll_timeout :: "TimeStamp \<Rightarrow> int" where
  "poll_timeout time_stamp =
     (if getUnixTimeStamp time_stamp \<noteq> 0
      then sint (word_of_int (toMilliseconds time_stamp) :: 32 word) else -1)"

definition poll_count :: "int \<Rightarrow> pollfd list \<Rightarrow> nat" where
  "poll_count sz fds =
     (if sz < 0 then length fds
      else if nat sz > length fds then length fds else nat sz)"

definition store_revents :: "16 word list \<Rightarrow> pollfd list \<Rightarrow> pollfd list" where
  "store_revents rvs fds =
     map2 (\<lambda>p rv. p\<lparr>pfd_revents := rv\<rparr>) fds rvs @ drop (length rvs) fds"

text \<open>The loop over the array: \<open>n\<close> entries are still to be found.\<close>

fun scan_fds ::
  "pollfd list \<Rightarrow> int \<Rightarrow> ('f, 'z) Pollpoller_scheme \<Rightarrow> nat list \<Rightarrow>
     (nat list \<times> ('f, 'z) Pollpoller_scheme) checked" where
  "scan_fds [] n s res = Inr (res, s)"
| "scan_fds (pfd # fds) n s res =
     (if pfd_revents pfd \<noteq> 0 then
        (case event_handler_map s (pfd_fd pfd) of
           None \<Rightarrow> Inl Assertion
         | Some h \<Rightarrow>
             let s = change_handler h (setREvents (scast (pfd_revents pfd))) s;
                 res = res @ [h];
                 n = n - 1
             in if n = 0 then Inr (res, s) else scan_fds fds n s res)
      else if n = 0 then Inr (res, s)
      else scan_fds fds n s res)"

text \<open>\<open>poll\<close> is the system call: the entries given and the timeout in milliseconds.\<close>

definition pp_Wait ::
  "(pollfd list \<Rightarrow> int \<Rightarrow> poll_result) \<Rightarrow> int \<Rightarrow> TimeStamp \<Rightarrow> ('f, 'z) Pollpoller_scheme \<Rightarrow>
     (nat list \<times> ('f, 'z) Pollpoller_scheme) checked" where
  "pp_Wait poll sz time_stamp s =
     (case poll (take (poll_count sz (poll_fds s)) (poll_fds s)) (poll_timeout time_stamp) of
        Polled n rvs \<Rightarrow>
          let s = s\<lparr>poll_fds := store_revents rvs (poll_fds s)\<rparr>
          in scan_fds (poll_fds s) (int n) s []
      | Poll_failed \<Rightarrow> scan_fds (poll_fds s) (-1) s [])"

section \<open>Invariant\<close>

text \<open>
  Every entry of the array belongs to one handler, which knows its place; descriptors are
  distinct, and the map holds exactly them.
\<close>

definition fd_owner :: "('f, 'z) Pollpoller_scheme \<Rightarrow> nat \<Rightarrow> nat \<Rightarrow> bool" where
  "fd_owner s i h \<longleftrightarrow>
     event_handler_map s (pfd_fd (poll_fds s ! i)) = Some h \<and>
     eh_handle (eh_mem s h) = pfd_fd (poll_fds s ! i) \<and> eh_index (eh_mem s h) = int i"

definition pp_inv :: "('f, 'z) Pollpoller_scheme \<Rightarrow> bool" where
  "pp_inv s \<longleftrightarrow>
     distinct (map pfd_fd (poll_fds s)) \<and>
     dom (event_handler_map s) = pfd_fd ` set (poll_fds s) \<and>
     (\<forall>i < length (poll_fds s). \<exists>h. fd_owner s i h)"

definition pp_registered :: "('f, 'z) Pollpoller_scheme \<Rightarrow> nat set" where
  "pp_registered s = ran (event_handler_map s)"

text \<open>A handler that may be registered: never registered before, with a descriptor of its own.\<close>

definition pp_fresh :: "('f, 'z) Pollpoller_scheme \<Rightarrow> nat \<Rightarrow> bool" where
  "pp_fresh s h \<longleftrightarrow>
     eh_index (eh_mem s h) < 0 \<and> event_handler_map s (eh_handle (eh_mem s h)) = None"

text \<open>A handler without an event that has not been reset.\<close>

definition pp_idle :: "('f, 'z) Pollpoller_scheme \<Rightarrow> nat \<Rightarrow> bool" where
  "pp_idle s h \<longleftrightarrow> pfd_revents (poll_fds s ! nat (eh_index (eh_mem s h))) = 0"

lemma pp_inv_owner: "pp_inv s \<Longrightarrow> i < length (poll_fds s) \<Longrightarrow> \<exists>h. fd_owner s i h"
  by (simp add: pp_inv_def)

lemma pp_inv_new: "pp_inv (new_Pollpoller mem)"
  by (simp add: pp_inv_def new_Pollpoller_def)

lemma pp_registeredE:
  assumes "pp_inv s" and "h \<in> pp_registered s"
  obtains i where "i < length (poll_fds s)" "fd_owner s i h"
proof -
  from assms(2) obtain fd where fd: "event_handler_map s fd = Some h"
    by (auto simp: pp_registered_def ran_def)
  then have "fd \<in> pfd_fd ` set (poll_fds s)" using assms(1) by (auto simp: pp_inv_def)
  then obtain i where i: "i < length (poll_fds s)" "pfd_fd (poll_fds s ! i) = fd"
    by (auto simp: in_set_conv_nth)
  with assms(1) fd have "fd_owner s i h" by (fastforce simp: pp_inv_def fd_owner_def)
  with i that show thesis by blast
qed

lemma pp_registeredI: "fd_owner s i h \<Longrightarrow> h \<in> pp_registered s"
  by (auto simp: fd_owner_def pp_registered_def ran_def)

lemma fd_owner_registered:
  "pp_inv s \<Longrightarrow> h \<in> pp_registered s \<Longrightarrow>
     event_handler_map s (eh_handle (eh_mem s h)) = Some h \<and>
     nat (eh_index (eh_mem s h)) < length (poll_fds s) \<and> 0 \<le> eh_index (eh_mem s h) \<and>
     fd_owner s (nat (eh_index (eh_mem s h))) h"
  by (erule (1) pp_registeredE) (auto simp: fd_owner_def)

section \<open>The operations keep the invariant\<close>

lemma pp_register_ok:
  assumes "pp_inv s" and "pp_fresh s h"
  shows "\<exists>s'. pp_registerHandler h s = Inr s' \<and> pp_inv s' \<and>
    pp_registered s' = insert h (pp_registered s) \<and>
    map pfd_fd (poll_fds s') = map pfd_fd (poll_fds s) @ [eh_handle (eh_mem s h)]"
proof -
  let ?n = "length (poll_fds s)" and ?fd = "eh_handle (eh_mem s h)"
  let ?pfd = "\<lparr>pfd_fd = ?fd, pfd_events = ucast (eh_ievents (eh_mem s h)), pfd_revents = 0\<rparr>"
  let ?s = "s\<lparr>eh_mem := (eh_mem s)(h := SetIndex (int ?n) (eh_mem s h)),
    event_handler_map := (event_handler_map s)(?fd \<mapsto> h), poll_fds := poll_fds s @ [?pfd]\<rparr>"
  have eq: "pp_registerHandler h s = Inr ?s"
    using assms(2) by (simp add: pp_registerHandler_def pp_fresh_def change_handler_def SetIndex_def Let_def)
  have new: "?fd \<notin> pfd_fd ` set (poll_fds s)"
    using assms by (auto simp: pp_inv_def pp_fresh_def)
  have old: "fd_owner ?s i g" if i: "i < ?n" and g: "fd_owner s i g" for i g
  proof -
    have "g \<noteq> h" using g assms(2) by (auto simp: fd_owner_def pp_fresh_def)
    moreover have "pfd_fd (poll_fds s ! i) \<noteq> ?fd" using new i by (metis image_eqI nth_mem)
    ultimately show ?thesis using i g by (simp add: fd_owner_def nth_append)
  qed
  have own: "fd_owner ?s ?n h" by (simp add: fd_owner_def SetIndex_def)
  have "pp_inv ?s"
    unfolding pp_inv_def
  proof (intro conjI allI impI)
    show "distinct (map pfd_fd (poll_fds ?s))" using assms(1) new by (simp add: pp_inv_def)
    show "dom (event_handler_map ?s) = pfd_fd ` set (poll_fds ?s)"
      using assms(1) by (simp add: pp_inv_def)
    fix i
    assume "i < length (poll_fds ?s)"
    then consider "i < ?n" | "i = ?n" by fastforce
    then show "\<exists>h. fd_owner ?s i h"
      using old own pp_inv_owner [OF assms(1), of i] by cases blast+
  qed
  moreover have "pp_registered ?s = insert h (pp_registered s)"
    using assms(2) by (simp add: pp_registered_def pp_fresh_def)
  ultimately show ?thesis using eq by simp
qed

text \<open>
  The invariant depends on the descriptors of the entries, the map and the identity of the
  handlers only.
\<close>

lemma pp_inv_cong:
  assumes fds: "map pfd_fd (poll_fds s') = map pfd_fd (poll_fds s)"
    and "event_handler_map s' = event_handler_map s"
    and "\<And>h. eh_handle (eh_mem s' h) = eh_handle (eh_mem s h)"
    and "\<And>h. eh_index (eh_mem s' h) = eh_index (eh_mem s h)"
  shows "pp_inv s' = pp_inv s" and "pp_registered s' = pp_registered s"
proof -
  have len: "length (poll_fds s') = length (poll_fds s)" using fds by (metis length_map)
  have "pfd_fd (poll_fds s' ! j) = pfd_fd (poll_fds s ! j)" if "j < length (poll_fds s)" for j
  proof -
    have "map pfd_fd (poll_fds s') ! j = map pfd_fd (poll_fds s) ! j" by (simp add: fds)
    with that len show ?thesis by simp
  qed
  then have own: "fd_owner s' j h = fd_owner s j h" if "j < length (poll_fds s)" for j h
    using that assms by (simp add: fd_owner_def)
  have "pfd_fd ` set (poll_fds s') = pfd_fd ` set (poll_fds s)" using fds by (metis list.set_map)
  with own len assms show "pp_inv s' = pp_inv s" by (simp add: pp_inv_def)
  show "pp_registered s' = pp_registered s" using assms by (simp add: pp_registered_def)
qed

lemma change_handler_inv:
  assumes "\<And>h. eh_handle (f h) = eh_handle h" and "\<And>h. eh_index (f h) = eh_index h"
  shows "pp_inv (change_handler h f s) = pp_inv s"
    and "pp_registered (change_handler h f s) = pp_registered s"
  using pp_inv_cong [of "change_handler h f s" s] assms by (simp_all add: change_handler_def)

lemma pp_update_ok:
  assumes "pp_inv s" and "h \<in> pp_registered s"
  shows "\<exists>s'. pp_updateHandler h s = Inr s' \<and> pp_inv s' \<and>
    pp_registered s' = pp_registered s \<and> pp_idle s' h \<and>
    map pfd_fd (poll_fds s') = map pfd_fd (poll_fds s) \<and>
    event_handler_map s' = event_handler_map s \<and> eh_mem s' = eh_mem s"
proof -
  obtain i where i: "i < length (poll_fds s)" "fd_owner s i h"
    using assms by (rule pp_registeredE)
  then have idx: "eh_index (eh_mem s h) = int i" by (simp add: fd_owner_def)
  let ?p = "(poll_fds s ! i)\<lparr>pfd_events := ucast (eh_ievents (eh_mem s h)), pfd_revents := 0\<rparr>"
  let ?s = "s\<lparr>poll_fds := (poll_fds s)[i := ?p]\<rparr>"
  have eq: "pp_updateHandler h s = Inr ?s"
    using i(1) idx by (simp add: pp_updateHandler_def Let_def)
  have fds: "map pfd_fd (poll_fds ?s) = map pfd_fd (poll_fds s)"
    using i(1) by (simp add: map_update list_update_same_conv)
  note inv = pp_inv_cong [of ?s s, OF fds]
  from inv assms(1) have "pp_inv ?s" "pp_registered ?s = pp_registered s" by simp_all
  with eq fds i(1) idx show ?thesis by (simp add: pp_idle_def)
qed

text \<open>Moving the last entry into the place of the one that leaves.\<close>

lemma butlast_swap:
  assumes "i < length xs"
  shows "butlast (xs[i := last xs, length xs - 1 := x]) = (butlast xs)[i := last xs]"
proof -
  obtain ys y where "xs = ys @ [y]" using assms by (cases xs rule: rev_cases) auto
  with assms show ?thesis
    by (cases "i < length ys") (auto simp: butlast_list_update list_update_append list_update_beyond)
qed

lemma mset_swap_remove:
  assumes "i < length xs"
  shows "mset ((butlast xs)[i := last xs]) = mset xs - {#xs ! i#}"
proof -
  obtain ys y where "xs = ys @ [y]" using assms by (cases xs rule: rev_cases) auto
  with assms show ?thesis
    by (cases "i < length ys") (auto simp: mset_update nth_append list_update_beyond)
qed

lemma distinct_swap_remove:
  assumes "i < length xs" and "distinct (map f xs)"
  shows "distinct (map f ((butlast xs)[i := last xs]))"
    and "f ` set ((butlast xs)[i := last xs]) = f ` set xs - {f (xs ! i)}"
proof -
  have "mset (map f ((butlast xs)[i := last xs])) = mset (map f xs) - {#f (xs ! i)#}"
    using assms(1) by (simp add: mset_swap_remove image_mset_Diff)
  then have m: "mset (map f ((butlast xs)[i := last xs])) = mset (remove1 (f (xs ! i)) (map f xs))"
    by simp
  from mset_eq_imp_distinct_iff [OF m] assms(2)
  show "distinct (map f ((butlast xs)[i := last xs]))" by simp
  from mset_eq_setD [OF m] assms(2)
  show "f ` set ((butlast xs)[i := last xs]) = f ` set xs - {f (xs ! i)}" by simp
qed

definition removed :: "nat \<Rightarrow> nat \<Rightarrow> nat \<Rightarrow> ('f, 'z) Pollpoller_scheme \<Rightarrow> ('f, 'z) Pollpoller_scheme" where
  "removed h i b s =
     s\<lparr>eh_mem := (eh_mem s)(b := SetIndex (int i) (eh_mem s b)),
       event_handler_map := (event_handler_map s)(eh_handle (eh_mem s h) := None),
       poll_fds := (butlast (poll_fds s))[i := last (poll_fds s)]\<rparr>"

lemma removed_frame [simp]:
  "event_handler_map (removed h i b s) = (event_handler_map s)(eh_handle (eh_mem s h) := None)"
  "poll_fds (removed h i b s) = (butlast (poll_fds s))[i := last (poll_fds s)]"
  "eh_handle (eh_mem (removed h i b s) g) = eh_handle (eh_mem s g)"
  "eh_ievents (eh_mem (removed h i b s) g) = eh_ievents (eh_mem s g)"
  "eh_revents (eh_mem (removed h i b s) g) = eh_revents (eh_mem s g)"
  "eh_index (eh_mem (removed h i b s) g) = (if g = b then int i else eh_index (eh_mem s g))"
  by (simp_all add: removed_def SetIndex_def)

lemma pp_remove_eq:
  assumes i: "i < length (poll_fds s)" "fd_owner s i h" and "pp_idle s h"
    and b: "fd_owner s (length (poll_fds s) - 1) b"
  shows "pp_removeHandler h s = Inr (removed h i b s)"
proof -
  have idx: "eh_index (eh_mem s h) = int i" using i(2) by (simp add: fd_owner_def)
  have hm: "event_handler_map s (eh_handle (eh_mem s h)) = Some h" using i(2) by (simp add: fd_owner_def)
  have "poll_fds s \<noteq> []" using i(1) by auto
  then have bm: "event_handler_map s (pfd_fd (last (poll_fds s))) = Some b"
    using b by (simp add: fd_owner_def last_conv_nth)
  have h_b: "eh_handle ((if g = b then SetIndex (int i) (eh_mem s b) else eh_mem s g)) = eh_handle (eh_mem s g)" for g
    by (simp add: SetIndex_def)
  have "pfd_revents (poll_fds s ! i) = 0" using assms(3) idx by (simp add: pp_idle_def)
  with i(1) idx hm bm show ?thesis
    by (simp add: pp_removeHandler_def Let_def change_handler_def butlast_swap [unfolded One_nat_def] h_b removed_def)
qed

lemma removed_owner:
  assumes inv: "pp_inv s" and i: "i < length (poll_fds s)" "fd_owner s i h"
    and b: "fd_owner s (length (poll_fds s) - 1) b" and j: "j < length (poll_fds s) - 1"
  shows "\<exists>g. fd_owner (removed h i b s) j g"
proof -
  let ?fds = "poll_fds s" and ?m = "length (poll_fds s) - 1"
  have lt: "?m < length ?fds" "j < length ?fds" using i(1) j by auto
  have fd_i: "pfd_fd (?fds ! i) = eh_handle (eh_mem s h)" using i(2) by (simp add: fd_owner_def)
  have dist: "distinct (map pfd_fd ?fds)" using inv by (simp add: pp_inv_def)
  have inj: "pfd_fd (?fds ! k) = pfd_fd (?fds ! l) \<longleftrightarrow> k = l" if "k < length ?fds" "l < length ?fds" for k l
    using nth_eq_iff_index_eq [OF dist] that by simp
  have nth_new: "(butlast ?fds)[i := last ?fds] ! j = (if j = i then ?fds ! ?m else ?fds ! j)"
  proof -
    have "?fds \<noteq> []" using i(1) by auto
    with j i(1) show ?thesis by (cases "j = i") (simp_all add: nth_butlast last_conv_nth)
  qed
  show ?thesis
  proof (cases "j = i")
    case True
    then have "pfd_fd (?fds ! ?m) \<noteq> eh_handle (eh_mem s h)"
      using inj [OF lt(1) i(1)] fd_i j by simp
    with True b nth_new have "fd_owner (removed h i b s) j b" by (simp add: fd_owner_def)
    then show ?thesis by blast
  next
    case False
    from pp_inv_owner [OF inv lt(2)] obtain g where g: "fd_owner s j g" by blast
    have "g \<noteq> b" using g b j by (auto simp: fd_owner_def)
    moreover have "pfd_fd (?fds ! j) \<noteq> eh_handle (eh_mem s h)"
      using inj [OF lt(2) i(1)] fd_i False by simp
    ultimately have "fd_owner (removed h i b s) j g" using g False nth_new by (simp add: fd_owner_def)
    then show ?thesis by blast
  qed
qed

lemma pp_map_inj:
  assumes "pp_inv s" and "event_handler_map s fd = Some h"
  shows "fd = eh_handle (eh_mem s h)"
proof -
  from assms have "fd \<in> pfd_fd ` set (poll_fds s)" by (auto simp: pp_inv_def)
  then obtain j where j: "j < length (poll_fds s)" "pfd_fd (poll_fds s ! j) = fd"
    by (auto simp: in_set_conv_nth)
  with pp_inv_owner [OF assms(1) j(1)] assms(2) show ?thesis by (auto simp: fd_owner_def)
qed

lemma pp_remove_ok:
  assumes inv: "pp_inv s" and h: "h \<in> pp_registered s" and idle: "pp_idle s h"
  shows "\<exists>s'. pp_removeHandler h s = Inr s' \<and> pp_inv s' \<and>
    pp_registered s' = pp_registered s - {h} \<and>
    event_handler_map s' = (event_handler_map s)(eh_handle (eh_mem s h) := None) \<and>
    (\<forall>g. eh_ievents (eh_mem s' g) = eh_ievents (eh_mem s g))"
proof -
  obtain i where i: "i < length (poll_fds s)" "fd_owner s i h"
    using inv h by (rule pp_registeredE)
  have "length (poll_fds s) - 1 < length (poll_fds s)" using i(1) by simp
  with inv obtain b where b: "fd_owner s (length (poll_fds s) - 1) b" using pp_inv_owner by blast
  have fd_i: "pfd_fd (poll_fds s ! i) = eh_handle (eh_mem s h)" using i(2) by (simp add: fd_owner_def)
  have dist: "distinct (map pfd_fd (poll_fds s))" using inv by (simp add: pp_inv_def)
  note new = distinct_swap_remove [OF i(1) dist, unfolded fd_i]
  have "pp_inv (removed h i b s)"
    unfolding pp_inv_def
  proof (intro conjI allI impI)
    show "distinct (map pfd_fd (poll_fds (removed h i b s)))" using new(1) by simp
    show "dom (event_handler_map (removed h i b s)) = pfd_fd ` set (poll_fds (removed h i b s))"
      using new(2) inv by (simp add: pp_inv_def)
    show "\<exists>g. fd_owner (removed h i b s) j g" if "j < length (poll_fds (removed h i b s))" for j
      using removed_owner [OF inv i b, of j] that by simp
  qed
  moreover have "pp_registered (removed h i b s) = pp_registered s - {h}"
  proof -
    have "event_handler_map s (eh_handle (eh_mem s h)) = Some h" using i(2) by (simp add: fd_owner_def)
    from ran_map_remove [of "event_handler_map s", OF this pp_map_inj [OF inv]]
    show ?thesis by (simp add: pp_registered_def)
  qed
  ultimately show ?thesis using pp_remove_eq [OF i idle b] by simp
qed

section \<open>Waiting\<close>

text \<open>
  What \<^verbatim>\<open>poll(2)\<close> promises: one \<open>revents\<close> for each entry it was given, and the number of
  entries whose \<open>revents\<close> is not 0.
\<close>

definition poll_contract :: "pollfd list \<Rightarrow> poll_result \<Rightarrow> bool" where
  "poll_contract fds r \<longleftrightarrow>
     (case r of
        Poll_failed \<Rightarrow> True
      | Polled n rvs \<Rightarrow> length rvs = length fds \<and> n = length (filter (\<lambda>rv. rv \<noteq> 0) rvs))"

definition ready_fds :: "pollfd list \<Rightarrow> pollfd list" where
  "ready_fds fds = filter (\<lambda>p. pfd_revents p \<noteq> 0) fds"

text \<open>The handlers of a list of entries get the events of their entries, one after the other.\<close>

definition report ::
  "pollfd list \<Rightarrow> ('f, 'z) Pollpoller_scheme \<Rightarrow> ('f, 'z) Pollpoller_scheme" where
  "report ps s = fold (\<lambda>p. change_handler (the (event_handler_map s (pfd_fd p)))
                             (setREvents (scast (pfd_revents p)))) ps s"

definition owners :: "('f, 'z) Pollpoller_scheme \<Rightarrow> pollfd list \<Rightarrow> nat list" where
  "owners s ps = map (\<lambda>p. the (event_handler_map s (pfd_fd p))) ps"

lemma change_handler_frame [simp]:
  "event_handler_map (change_handler h f s) = event_handler_map s"
  "poll_fds (change_handler h f s) = poll_fds s"
  by (simp_all add: change_handler_def)

lemma report_Nil [simp]: "report [] s = s"
  by (simp add: report_def)

lemma report_Cons [simp]:
  "report (p # ps) s =
     report ps (change_handler (the (event_handler_map s (pfd_fd p))) (setREvents (scast (pfd_revents p))) s)"
  by (simp add: report_def)

lemma scan_fds_eq:
  assumes "\<forall>p \<in> set fds. event_handler_map s (pfd_fd p) \<noteq> None"
    and "n < 0 \<or> nat n = length (ready_fds fds)"
  shows "scan_fds fds n s res = Inr (res @ owners s (ready_fds fds), report (ready_fds fds) s)"
  using assms
proof (induction fds arbitrary: n s res)
  case Nil
  then show ?case by (simp add: ready_fds_def owners_def)
next
  case (Cons p fds)
  obtain h where h: "event_handler_map s (pfd_fd p) = Some h" using Cons.prems(1) by auto
  let ?s = "change_handler h (setREvents (scast (pfd_revents p))) s"
  have own: "owners ?s ps = owners s ps" for ps by (simp add: owners_def)
  have empty: "ready_fds fds = []" if "length (ready_fds fds) = 0" using that by simp
  show ?case
  proof (cases "pfd_revents p = 0")
    case True
    then have r: "ready_fds (p # fds) = ready_fds fds" by (simp add: ready_fds_def)
    show ?thesis
    proof (cases "n = 0")
      case True
      with Cons.prems(2) r have "ready_fds fds = []" by simp
      with True \<open>pfd_revents p = 0\<close> r show ?thesis by (simp add: owners_def)
    next
      case False
      with Cons.IH [of s n res] Cons.prems r True show ?thesis by simp
    qed
  next
    case False
    then have r: "ready_fds (p # fds) = p # ready_fds fds" by (simp add: ready_fds_def)
    show ?thesis
    proof (cases "n - 1 = 0")
      case True
      with Cons.prems(2) r have "ready_fds fds = []" by auto
      with True False h r show ?thesis by (simp add: owners_def Let_def)
    next
      case n: False
      have "n - 1 < 0 \<or> nat (n - 1) = length (ready_fds fds)"
        using Cons.prems(2) r by auto
      with Cons.IH [of ?s "n - 1" "res @ [h]"] Cons.prems(1) have
        "scan_fds fds (n - 1) ?s (res @ [h]) =
           Inr ((res @ [h]) @ owners s (ready_fds fds), report (ready_fds fds) ?s)"
        by (simp add: own)
      with n False h r show ?thesis by (simp add: owners_def Let_def)
    qed
  qed
qed

lemma report_frame [simp]:
  "event_handler_map (report ps s) = event_handler_map s"
  "poll_fds (report ps s) = poll_fds s"
  by (induction ps arbitrary: s) simp_all

lemma report_handler:
  "eh_handle (eh_mem (report ps s) h) = eh_handle (eh_mem s h)"
  "eh_index (eh_mem (report ps s) h) = eh_index (eh_mem s h)"
  "eh_ievents (eh_mem (report ps s) h) = eh_ievents (eh_mem s h)"
  by (induction ps arbitrary: s) (simp_all add: change_handler_def setREvents_def)

lemma store_revents_fds:
  assumes "length rvs = length fds"
  shows "map pfd_fd (store_revents rvs fds) = map pfd_fd fds"
    and "map pfd_revents (store_revents rvs fds) = rvs"
    and "length (ready_fds (store_revents rvs fds)) = length (filter (\<lambda>rv. rv \<noteq> 0) rvs)"
proof -
  have z: "store_revents rvs fds = map2 (\<lambda>p rv. p\<lparr>pfd_revents := rv\<rparr>) fds rvs"
    using assms by (simp add: store_revents_def)
  show 1: "map pfd_fd (store_revents rvs fds) = map pfd_fd fds"
    and 2: "map pfd_revents (store_revents rvs fds) = rvs"
    using assms unfolding z by (auto simp: list_eq_iff_nth_eq)
  have "length (ready_fds (store_revents rvs fds)) =
      length (filter (\<lambda>rv. rv \<noteq> 0) (map pfd_revents (store_revents rvs fds)))"
    by (simp add: ready_fds_def filter_map comp_def)
  with 2 show "length (ready_fds (store_revents rvs fds)) = length (filter (\<lambda>rv. rv \<noteq> 0) rvs)"
    by simp
qed

lemma pp_inv_mapped: "pp_inv s \<Longrightarrow> p \<in> set (poll_fds s) \<Longrightarrow> event_handler_map s (pfd_fd p) \<noteq> None"
  by (auto simp: pp_inv_def dom_def)

lemma pp_Wait_result:
  assumes "pp_inv s" and c: "poll_contract (poll_fds s) (poll (poll_fds s) (poll_timeout ts))"
  shows "\<exists>fds. pp_Wait poll (-1) ts s =
      Inr (owners s (ready_fds fds), report (ready_fds fds) (s\<lparr>poll_fds := fds\<rparr>)) \<and>
    map pfd_fd fds = map pfd_fd (poll_fds s) \<and>
    (case poll (poll_fds s) (poll_timeout ts) of
       Polled n rvs \<Rightarrow> map pfd_revents fds = rvs | Poll_failed \<Rightarrow> fds = poll_fds s)"
proof (cases "poll (poll_fds s) (poll_timeout ts)")
  case (Polled n rvs)
  with c have len: "length rvs = length (poll_fds s)" "n = length (filter (\<lambda>rv. rv \<noteq> 0) rvs)"
    by (auto simp: poll_contract_def)
  let ?fds = "store_revents rvs (poll_fds s)"
  have "pfd_fd ` set ?fds = pfd_fd ` set (poll_fds s)"
    using store_revents_fds(1) [OF len(1)] by (metis list.set_map)
  then have "\<forall>p \<in> set ?fds. event_handler_map s (pfd_fd p) \<noteq> None"
    using pp_inv_mapped [OF assms(1)] by (metis (mono_tags, lifting) imageE imageI)
  then have "scan_fds ?fds (int n) (s\<lparr>poll_fds := ?fds\<rparr>) [] =
      Inr (owners s (ready_fds ?fds), report (ready_fds ?fds) (s\<lparr>poll_fds := ?fds\<rparr>))"
    using scan_fds_eq [of ?fds "s\<lparr>poll_fds := ?fds\<rparr>" "int n" "[]"] store_revents_fds(3) [OF len(1)] len(2)
    by (simp add: owners_def)
  with Polled store_revents_fds [OF len(1)] show ?thesis
    by (intro exI [of _ ?fds]) (simp add: pp_Wait_def poll_count_def)
next
  case Poll_failed
  have "\<forall>p \<in> set (poll_fds s). event_handler_map s (pfd_fd p) \<noteq> None"
    using pp_inv_mapped [OF assms(1)] by blast
  with Poll_failed show ?thesis
    using scan_fds_eq [of "poll_fds s" s "-1" "[]"]
    by (intro exI [of _ "poll_fds s"]) (simp add: pp_Wait_def poll_count_def)
qed

section \<open>The contract\<close>

interpretation pollpoller: poller pp_registerHandler pp_updateHandler pp_removeHandler
  pp_inv pp_registered pp_fresh pp_idle
proof
  fix s :: "('f, 'z) Pollpoller_scheme" and h
  show "pp_inv s \<Longrightarrow> pp_fresh s h \<Longrightarrow>
      \<exists>s'. pp_registerHandler h s = Inr s' \<and> pp_inv s' \<and> pp_registered s' = insert h (pp_registered s)"
    using pp_register_ok by blast
  show "pp_inv s \<Longrightarrow> h \<in> pp_registered s \<Longrightarrow>
      \<exists>s'. pp_updateHandler h s = Inr s' \<and> pp_inv s' \<and> pp_registered s' = pp_registered s \<and> pp_idle s' h"
    using pp_update_ok by blast
  show "pp_inv s \<Longrightarrow> h \<in> pp_registered s \<Longrightarrow> pp_idle s h \<Longrightarrow>
      \<exists>s'. pp_removeHandler h s = Inr s' \<and> pp_inv s' \<and> pp_registered s' = pp_registered s - {h}"
    using pp_remove_ok by blast
qed

section \<open>Properties\<close>

definition example_handlers :: "nat \<Rightarrow> nat EventHandler" where
  "example_handlers h = new_EventHandler (int h + 3) kEventRead"

text \<open>
  C9. \<^verbatim>\<open>Pollpoller\<close> implements the abstract poller. Every program of
  \<^verbatim>\<open>registerHandler\<close>, \<^verbatim>\<open>updateHandler\<close> and \<^verbatim>\<open>removeHandler\<close> that starts from the
  empty poller, registers handlers that are new, and updates and removes registered ones (those
  to be removed without an unreset event) runs without a failed assertion and without an access
  outside the array. The handlers found afterwards are those of the set the program denotes,
  every one of them knows the index of its entry, and the descriptors of the entries are
  distinct.
\<close>

theorem pollpoller_refines_set:
  assumes "pollpoller.all_allowed ops (new_Pollpoller mem)"
  shows "\<exists>s'. pollpoller.exec_ops ops (new_Pollpoller mem) = Inr s' \<and>
    pp_registered s' = fold pollpoller.effect ops {} \<and>
    distinct (map pfd_fd (poll_fds s')) \<and>
    (\<forall>h \<in> pp_registered s'. 0 \<le> eh_index (eh_mem s' h) \<and>
       nat (eh_index (eh_mem s' h)) < length (poll_fds s') \<and>
       pfd_fd (poll_fds s' ! nat (eh_index (eh_mem s' h))) = eh_handle (eh_mem s' h))"
proof -
  obtain s' where s': "pollpoller.exec_ops ops (new_Pollpoller mem) = Inr s'" "pp_inv s'"
    "pp_registered s' = fold pollpoller.effect ops (pp_registered (new_Pollpoller mem))"
    using pollpoller.exec_ops_refine [OF pp_inv_new assms] by blast
  have "pp_registered (new_Pollpoller mem) = {}" by (simp add: pp_registered_def new_Pollpoller_def)
  with s' show ?thesis
    using fd_owner_registered [OF s'(2)] by (auto simp: pp_inv_def fd_owner_def)
qed

theorem pollpoller_refines_set_witness:
  "\<exists>s'. pollpoller.exec_ops [Register 0, Register 1, Update 0, Remove 0]
      (new_Pollpoller example_handlers) = Inr s' \<and> pp_registered s' = {1}"
proof -
  let ?ops = "[Register 0, Register 1, Update 0, Remove 0]"
  have "pollpoller.all_allowed ?ops (new_Pollpoller example_handlers)"
    by (simp add: pollpoller.exec_op_def pollpoller.allowed_def pp_fresh_def pp_idle_def
        pp_registerHandler_def pp_updateHandler_def Let_def change_handler_def SetIndex_def
        new_Pollpoller_def example_handlers_def new_EventHandler_def pp_registered_def ran_def)
  from pollpoller_refines_set [OF this] show ?thesis
    by (auto simp: pollpoller.effect_def)
qed

text \<open>
  C21. \<^verbatim>\<open>Pollpoller::Wait\<close> on a state that satisfies the invariant, with a
  \<^verbatim>\<open>poll(2)\<close> that keeps to its contract: it returns, without a failed assertion, exactly the
  handlers of the entries whose \<^verbatim>\<open>revents\<close> is not 0, in the order of the array, although the
  loop stops at the number of entries the call announced; the invariant and the registered
  handlers stay, and no handler's interest changes.
\<close>

theorem pp_Wait_exact:
  assumes "pp_inv s" and "poll (poll_fds s) (poll_timeout ts) = Polled n rvs"
    and "length rvs = length (poll_fds s)" and "n = length (filter (\<lambda>rv. rv \<noteq> 0) rvs)"
  shows "\<exists>hs s'. pp_Wait poll (-1) ts s = Inr (hs, s') \<and> pp_inv s' \<and>
    map (\<lambda>h. eh_handle (eh_mem s' h)) hs =
      map fst (filter (\<lambda>(fd, rv). rv \<noteq> 0) (zip (map pfd_fd (poll_fds s)) rvs)) \<and>
    set hs \<subseteq> pp_registered s \<and> pp_registered s' = pp_registered s \<and>
    (\<forall>h. eh_ievents (eh_mem s' h) = eh_ievents (eh_mem s h))"
proof -
  obtain fds where W: "pp_Wait poll (-1) ts s =
      Inr (owners s (ready_fds fds), report (ready_fds fds) (s\<lparr>poll_fds := fds\<rparr>))"
    and fds: "map pfd_fd fds = map pfd_fd (poll_fds s)" "map pfd_revents fds = rvs"
    using pp_Wait_result [OF assms(1), of poll ts] assms(2-4) by (auto simp: poll_contract_def)
  let ?s = "report (ready_fds fds) (s\<lparr>poll_fds := fds\<rparr>)"
  have inv: "pp_inv ?s" "pp_registered ?s = pp_registered s"
    using pp_inv_cong [of ?s s] assms(1) fds(1) by (simp_all add: report_handler)
  have own: "event_handler_map s (pfd_fd p) = Some h \<and> eh_handle (eh_mem s h) = pfd_fd p \<and> h \<in> pp_registered s"
    if "p \<in> set fds" "h = the (event_handler_map s (pfd_fd p))" for p h
  proof -
    have "pfd_fd p \<in> pfd_fd ` set (poll_fds s)" using that(1) fds(1) by (metis image_eqI list.set_map)
    with assms(1) have "pfd_fd p \<in> dom (event_handler_map s)" by (simp add: pp_inv_def)
    with that(2) have m: "event_handler_map s (pfd_fd p) = Some h" by auto
    with pp_map_inj [OF assms(1) m] show ?thesis by (auto simp: pp_registered_def intro: ranI)
  qed
  have "map (\<lambda>h. eh_handle (eh_mem ?s h)) (owners s (ready_fds fds)) = map pfd_fd (ready_fds fds)"
    using own by (simp add: owners_def report_handler ready_fds_def)
  also have "\<dots> = map fst (filter (\<lambda>(fd, rv). rv \<noteq> 0) (zip (map pfd_fd fds) (map pfd_revents fds)))"
    by (induction fds) (simp_all add: ready_fds_def)
  finally have hs: "map (\<lambda>h. eh_handle (eh_mem ?s h)) (owners s (ready_fds fds)) =
      map fst (filter (\<lambda>(fd, rv). rv \<noteq> 0) (zip (map pfd_fd (poll_fds s)) rvs))"
    using fds by simp
  have "set (owners s (ready_fds fds)) \<subseteq> pp_registered s"
    using own by (auto simp: owners_def ready_fds_def)
  with W inv hs show ?thesis by (simp add: report_handler)
qed

definition example_poller :: "nat Pollpoller" where
  "example_poller =
     (case pollpoller.exec_ops [Register 0, Register 1, Register 2] (new_Pollpoller example_handlers) of
        Inr s \<Rightarrow> s | Inl _ \<Rightarrow> new_Pollpoller example_handlers)"

lemma example_poller_fds: "map pfd_fd (poll_fds example_poller) = [3, 4, 5]"
  by (simp add: example_poller_def pollpoller.exec_op_def pp_registerHandler_def
      Let_def change_handler_def SetIndex_def new_Pollpoller_def example_handlers_def new_EventHandler_def)

lemma example_poller_inv: "pp_inv example_poller"
proof -
  have "pollpoller.all_allowed [Register 0, Register 1, Register 2] (new_Pollpoller example_handlers)"
    by (simp add: pollpoller.exec_op_def pollpoller.allowed_def pp_fresh_def
        pp_registerHandler_def Let_def change_handler_def SetIndex_def
        new_Pollpoller_def example_handlers_def new_EventHandler_def)
  from pollpoller.exec_ops_refine [OF pp_inv_new this] show ?thesis
    by (auto simp: example_poller_def)
qed

theorem pp_Wait_exact_witness:
  "\<exists>hs s'. pp_Wait (\<lambda>_ _. Polled 2 [1, 0, 16]) (-1) (TimeStamp 0) example_poller = Inr (hs, s') \<and>
    map (\<lambda>h. eh_handle (eh_mem s' h)) hs = [3, 5]"
proof -
  let ?poll = "\<lambda>_ _. Polled 2 [1, 0, 16]"
  have "length (map pfd_fd (poll_fds example_poller)) = 3" by (simp only: example_poller_fds) simp
  then have "length [1, 0, 16 :: 16 word] = length (poll_fds example_poller)" by simp
  from pp_Wait_exact [OF example_poller_inv, of ?poll "TimeStamp 0" 2, OF refl this] obtain hs s' where
    "pp_Wait ?poll (-1) (TimeStamp 0) example_poller = Inr (hs, s')"
    "map (\<lambda>h. eh_handle (eh_mem s' h)) hs =
       map fst (filter (\<lambda>(fd, rv). rv \<noteq> 0) (zip [3, 4, 5] [1, 0, 16 :: 16 word]))"
    unfolding example_poller_fds by auto
  then show ?thesis by simp
qed

text \<open>
  C32. \<^verbatim>\<open>removeHandler\<close> leaves the index in the handler it removes. Registering that
  handler again fails an assertion, and unless its entry was the last one, updating it (which
  the methods \<^verbatim>\<open>enable...\<close> and \<^verbatim>\<open>disable...\<close> of the handler do) changes the events
  that \<^verbatim>\<open>poll\<close> watches on the descriptor of another handler.
\<close>

theorem removed_handler_is_stale:
  assumes "pp_inv s" and "h \<in> pp_registered s" and "pp_idle s h"
    and "eh_index (eh_mem s h) < int (length (poll_fds s)) - 1"
  shows "\<exists>s' s''. pp_removeHandler h s = Inr s' \<and> pp_registerHandler h s' = Inl Assertion \<and>
    pp_updateHandler h s' = Inr s'' \<and>
    (\<exists>g \<in> pp_registered s'. g \<noteq> h \<and>
       pfd_events (poll_fds s'' ! nat (eh_index (eh_mem s' g))) = ucast (eh_ievents (eh_mem s' h)))"
proof -
  obtain i where i: "i < length (poll_fds s)" "fd_owner s i h"
    using assms(1,2) by (rule pp_registeredE)
  then have idx: "eh_index (eh_mem s h) = int i" by (simp add: fd_owner_def)
  then have lt: "i < length (poll_fds s) - 1" using assms(4) by linarith
  from lt have "length (poll_fds s) - 1 < length (poll_fds s)" by simp
  with assms(1) obtain b where b: "fd_owner s (length (poll_fds s) - 1) b" using pp_inv_owner by blast
  let ?s = "removed h i b s"
  have bh: "b \<noteq> h" using b idx lt by (auto simp: fd_owner_def)
  have rm: "pp_removeHandler h s = Inr ?s" using i assms(3) b by (rule pp_remove_eq)
  have reg: "pp_registered ?s = pp_registered s - {h}" using pp_remove_ok [OF assms(1-3)] rm by auto
  let ?p = "(poll_fds ?s ! i)\<lparr>pfd_events := ucast (eh_ievents (eh_mem ?s h)), pfd_revents := 0\<rparr>"
  have "pp_updateHandler h ?s = Inr (?s\<lparr>poll_fds := (poll_fds ?s)[i := ?p]\<rparr>)"
    using bh idx lt by (simp add: pp_updateHandler_def)
  moreover have "pp_registerHandler h ?s = Inl Assertion"
    using bh idx by (simp add: pp_registerHandler_def)
  moreover have "b \<in> pp_registered ?s" using reg bh pp_registeredI [OF b] by simp
  ultimately show ?thesis using rm bh lt by (intro exI conjI bexI [of _ b]) auto
qed

theorem removed_handler_is_stale_witness:
  "\<exists>s'. pp_removeHandler 0 example_poller = Inr s' \<and> pp_registerHandler 0 s' = Inl Assertion"
proof -
  have "0 \<in> pp_registered example_poller" "pp_idle example_poller 0"
    "eh_index (eh_mem example_poller 0) < int (length (poll_fds example_poller)) - 1"
    by (auto simp: example_poller_def pollpoller.exec_op_def pp_registerHandler_def pp_registered_def
        ran_def pp_idle_def Let_def change_handler_def SetIndex_def new_Pollpoller_def
        example_handlers_def new_EventHandler_def)
  from removed_handler_is_stale [OF example_poller_inv this] show ?thesis by blast
qed

end
