(* ===== verification/Timer_Heap.thy ===== *)
theory Timer_Heap
  imports Time_Stamp "HOL-Library.Multiset"
begin

text \<open>
  \<^verbatim>\<open>src/base/timer_heap.h\<close> and \<^verbatim>\<open>timer_heap.cpp\<close>: a binary heap in a vector. The heap
  stores pointers to timers and compares what they point to; here its elements have any type
  \<open>'a\<close> and \<open>key\<close> is the expiry of an element. Indices are the code's; the shift by one
  that \<^verbatim>\<open>popTimer\<close> does before it shrinks the vector is kept.
\<close>

section \<open>Operations\<close>

definition heap_swap :: "nat \<Rightarrow> nat \<Rightarrow> 'a list \<Rightarrow> 'a list" where
  "heap_swap upidx downidx heap =
     (let tmp = heap ! upidx; heap = heap[upidx := heap ! downidx] in heap[downidx := tmp])"

text \<open>
  \<^verbatim>\<open>up\<close>: for \<open>idx = 0\<close> the unsigned subtraction wraps, but the loop condition tests
  \<open>idx > 0\<close> first.
\<close>

function up :: "('a \<Rightarrow> 'k :: linorder) \<Rightarrow> 'a list \<Rightarrow> nat \<Rightarrow> 'a list" where
  "up key heap idx =
     (let parent = (idx - 1) div 2
      in if idx > 0 \<and> key (heap ! idx) < key (heap ! parent)
         then up key (heap_swap idx parent heap) parent
         else heap)"
  by pat_completeness auto
termination
  by (relation "measure (\<lambda>(key, heap, idx). idx)") auto

declare up.simps [simp del]

definition min_child :: "('a \<Rightarrow> 'k :: linorder) \<Rightarrow> 'a list \<Rightarrow> nat \<Rightarrow> nat" where
  "min_child key heap child =
     (if child + 1 = length heap \<or> key (heap ! child) < key (heap ! (child + 1))
      then child else child + 1)"

lemma length_heap_swap [simp]: "length (heap_swap i j h) = length h"
  by (simp add: heap_swap_def Let_def)

function down :: "('a \<Rightarrow> 'k :: linorder) \<Rightarrow> 'a list \<Rightarrow> nat \<Rightarrow> 'a list" where
  "down key heap idx =
     (let child = 2 * idx + 1
      in if child < length heap then
           let minChild = min_child key heap child
           in if key (heap ! idx) < key (heap ! minChild) then heap
              else down key (heap_swap idx minChild heap) minChild
         else heap)"
  by pat_completeness auto
termination
  by (relation "measure (\<lambda>(key, heap, idx). length heap - idx)")
    (auto simp: min_child_def split: if_splits)

declare down.simps [simp del]

definition heap_addTimer :: "('a \<Rightarrow> 'k :: linorder) \<Rightarrow> 'a \<Rightarrow> 'a list \<Rightarrow> 'a list" where
  "heap_addTimer key timer heap =
     (let heap = heap @ [timer] in up key heap (length heap - 1))"

definition popTimer :: "('a \<Rightarrow> 'k :: linorder) \<Rightarrow> 'a list \<Rightarrow> 'a list" where
  "popTimer key heap =
     (if heap = [] then heap
      else
        let heap = heap[0 := heap ! (length heap - 1)]
        in butlast (down key heap 0))"

definition heap_top :: "'a list \<Rightarrow> 'a option" where
  "heap_top heap = (if heap = [] then None else Some (heap ! 0))"

section \<open>The heap property\<close>

definition is_heap :: "('a \<Rightarrow> 'k :: linorder) \<Rightarrow> 'a list \<Rightarrow> bool" where
  "is_heap key heap \<longleftrightarrow>
     (\<forall>i. 0 < i \<and> i < length heap \<longrightarrow> key (heap ! ((i - 1) div 2)) \<le> key (heap ! i))"

lemma is_heapD: "is_heap key h \<Longrightarrow> 0 < i \<Longrightarrow> i < length h \<Longrightarrow> key (h ! ((i - 1) div 2)) \<le> key (h ! i)"
  by (simp add: is_heap_def)

lemma is_heap_Nil [simp]: "is_heap key []"
  by (simp add: is_heap_def)

lemma heap_swap_nth:
  assumes "i < length h" and "j < length h" and "k < length h"
  shows "heap_swap i j h ! k = (if k = j then h ! i else if k = i then h ! j else h ! k)"
  using assms by (auto simp: heap_swap_def Let_def nth_list_update)

lemma mset_heap_swap:
  assumes "i < length h" and "j < length h"
  shows "mset (heap_swap i j h) = mset h"
  using assms by (simp add: heap_swap_def Let_def mset_swap)

text \<open>Every element of a heap is at least its root.\<close>

lemma heap_root_le:
  assumes "is_heap key h" and "i < length h"
  shows "key (h ! 0) \<le> key (h ! i)"
  using assms(2)
proof (induction i rule: less_induct)
  case (less i)
  show ?case
  proof (cases "i = 0")
    case False
    then have "(i - 1) div 2 < i" by simp
    with less have "key (h ! 0) \<le> key (h ! ((i - 1) div 2))" by simp
    also have "\<dots> \<le> key (h ! i)" using is_heapD [OF assms(1)] less.prems False by simp
    finally show ?thesis .
  qed simp
qed

subsection \<open>Sifting up\<close>

text \<open>A heap but for the pair of \<open>i\<close> and its parent.\<close>

definition heap_up :: "('a \<Rightarrow> 'k :: linorder) \<Rightarrow> 'a list \<Rightarrow> nat \<Rightarrow> bool" where
  "heap_up key h i \<longleftrightarrow> i < length h \<and>
     (\<forall>j. 0 < j \<and> j < length h \<and> j \<noteq> i \<longrightarrow> key (h ! ((j - 1) div 2)) \<le> key (h ! j)) \<and>
     (\<forall>j. 0 < i \<and> j < length h \<and> 0 < j \<and> (j - 1) div 2 = i \<longrightarrow> key (h ! ((i - 1) div 2)) \<le> key (h ! j))"

lemma heap_up_swap:
  assumes "heap_up key h i" and "0 < i" and less: "key (h ! i) < key (h ! ((i - 1) div 2))"
  shows "heap_up key (heap_swap i ((i - 1) div 2) h) ((i - 1) div 2)"
proof -
  let ?p = "(i - 1) div 2" and ?h = "heap_swap i ((i - 1) div 2) h"
  have len: "i < length h" "?p < length h" "?p < i" using assms(1,2) by (auto simp: heap_up_def)
  have nth: "?h ! k = (if k = ?p then h ! i else if k = i then h ! ?p else h ! k)" if "k < length h" for k
    using heap_swap_nth [OF len(1,2) that] .
  have ok: "key (h ! ((j - 1) div 2)) \<le> key (h ! j)" if "0 < j" "j < length h" "j \<noteq> i" for j
    using assms(1) that by (auto simp: heap_up_def)
  have child: "key (h ! ?p) \<le> key (h ! j)" if "0 < j" "j < length h" "(j - 1) div 2 = i" for j
    using assms(1,2) that by (auto simp: heap_up_def)
  show ?thesis unfolding heap_up_def
  proof (intro conjI allI impI; (elim conjE)?)
    show "?p < length ?h" using len by simp
  next
    fix j assume j: "0 < j" "j < length ?h" "j \<noteq> ?p"
    then have q: "(j - 1) div 2 < length h" by simp
    consider (self) "j = i" | (below) "j \<noteq> i" "(j - 1) div 2 = i"
      | (sibling) "j \<noteq> i" "(j - 1) div 2 = ?p" | (far) "j \<noteq> i" "(j - 1) div 2 \<noteq> i" "(j - 1) div 2 \<noteq> ?p"
      by blast
    then show "key (?h ! ((j - 1) div 2)) \<le> key (?h ! j)"
    proof cases
      case self
      with nth len less show ?thesis by simp
    next
      case below
      with nth [OF q] nth [of j] j len child [of j] show ?thesis by simp
    next
      case sibling
      with nth [OF q] nth [of j] j ok [of j] less show ?thesis by simp
    next
      case far
      with nth [OF q] nth [of j] j ok [of j] show ?thesis by simp
    qed
  next
    fix j assume j: "0 < ?p" "j < length ?h" "0 < j" "(j - 1) div 2 = ?p"
    have parent_less: "(n - 1) div 2 < n" if "0 < n" for n :: nat
      using that by (cases n) (simp_all add: less_Suc_eq_le)
    have gp: "(?p - 1) div 2 < ?p" by (rule parent_less [OF j(1)])
    have jp: "j \<noteq> ?p" using parent_less [OF j(3)] j(4) by simp
    have up: "key (h ! ((?p - 1) div 2)) \<le> key (h ! ?p)" using ok [of ?p] j len by simp
    have top: "?h ! ((?p - 1) div 2) = h ! ((?p - 1) div 2)"
      using nth [of "(?p - 1) div 2"] gp len by simp
    show "key (?h ! ((?p - 1) div 2)) \<le> key (?h ! j)"
    proof (cases "j = i")
      case True
      with nth [of j] jp j top up show ?thesis by simp
    next
      case False
      with ok [of j] j have "key (h ! ?p) \<le> key (h ! j)" by simp
      with False nth [of j] jp j top order_trans [OF up] show ?thesis by simp
    qed
  qed
qed

lemma up_correct:
  assumes "heap_up key h i"
  shows "is_heap key (up key h i) \<and> mset (up key h i) = mset h"
  using assms
proof (induction key h i rule: up.induct)
  case (1 key h i)
  let ?p = "(i - 1) div 2"
  show ?case
  proof (cases "0 < i \<and> key (h ! i) < key (h ! ?p)")
    case True
    have "i < length h" "?p < length h" using "1.prems" by (auto simp: heap_up_def)
    moreover have "up key h i = up key (heap_swap i ?p h) ?p"
      using True by (subst up.simps) (simp add: Let_def)
    ultimately show ?thesis
      using "1.IH" [OF refl True] heap_up_swap [OF "1.prems"] True mset_heap_swap [of i h ?p] by simp
  next
    case False
    then have "is_heap key h" using "1.prems" by (auto simp: heap_up_def is_heap_def not_less)
    moreover have "up key h i = h" using False by (subst up.simps) (auto simp: Let_def)
    ultimately show ?thesis by simp
  qed
qed

subsection \<open>Sifting down\<close>

text \<open>A heap but for the pairs of \<open>i\<close> and its children.\<close>

definition heap_down :: "('a \<Rightarrow> 'k :: linorder) \<Rightarrow> 'a list \<Rightarrow> nat \<Rightarrow> bool" where
  "heap_down key h i \<longleftrightarrow>
     (\<forall>j. 0 < j \<and> j < length h \<and> (j - 1) div 2 \<noteq> i \<longrightarrow> key (h ! ((j - 1) div 2)) \<le> key (h ! j)) \<and>
     (\<forall>j. 0 < i \<and> j < length h \<and> 0 < j \<and> (j - 1) div 2 = i \<longrightarrow> key (h ! ((i - 1) div 2)) \<le> key (h ! j))"

lemma min_child_props:
  assumes "2 * i + 1 < length h"
  shows "min_child key h (2 * i + 1) < length h" and "(min_child key h (2 * i + 1) - 1) div 2 = i"
    and "0 < min_child key h (2 * i + 1)"
    and "\<And>j. 0 < j \<Longrightarrow> j < length h \<Longrightarrow> (j - 1) div 2 = i \<Longrightarrow>
           key (h ! min_child key h (2 * i + 1)) \<le> key (h ! j)"
proof -
  show "min_child key h (2 * i + 1) < length h" "(min_child key h (2 * i + 1) - 1) div 2 = i"
    "0 < min_child key h (2 * i + 1)"
    using assms by (auto simp: min_child_def)
  fix j assume "0 < j" "j < length h" "(j - 1) div 2 = i"
  then have "j = 2 * i + 1 \<or> j = 2 * i + 2" by arith
  with \<open>j < length h\<close> show "key (h ! min_child key h (2 * i + 1)) \<le> key (h ! j)"
    by (auto simp: min_child_def)
qed

lemma heap_down_swap:
  assumes "heap_down key h i" and "2 * i + 1 < length h"
    and le: "\<not> key (h ! i) < key (h ! min_child key h (2 * i + 1))"
  shows "heap_down key (heap_swap i (min_child key h (2 * i + 1)) h) (min_child key h (2 * i + 1))"
proof -
  let ?c = "min_child key h (2 * i + 1)"
  let ?h = "heap_swap i ?c h"
  note c = min_child_props [OF assms(2), where key = key]
  have len: "i < length h" "i < ?c" using assms(2) c(2,3) by auto
  have nth: "?h ! k = (if k = ?c then h ! i else if k = i then h ! ?c else h ! k)" if "k < length h" for k
    using heap_swap_nth [OF len(1) c(1) that] .
  have ok: "key (h ! ((j - 1) div 2)) \<le> key (h ! j)" if "0 < j" "j < length h" "(j - 1) div 2 \<noteq> i" for j
    using assms(1) that by (auto simp: heap_down_def)
  have above: "key (h ! ((i - 1) div 2)) \<le> key (h ! j)" if "0 < i" "j < length h" "0 < j" "(j - 1) div 2 = i" for j
    using assms(1) that by (auto simp: heap_down_def)
  show ?thesis unfolding heap_down_def
  proof (intro conjI allI impI; (elim conjE)?)
    fix j assume j: "0 < j" "j < length ?h" "(j - 1) div 2 \<noteq> ?c"
    then have p: "(j - 1) div 2 < length h" "(j - 1) div 2 < j" by auto
    show "key (?h ! ((j - 1) div 2)) \<le> key (?h ! j)"
    proof (cases "(j - 1) div 2 = i")
      case True
      with j nth p c(4) [of j] le len show ?thesis by (cases "j = ?c") (auto simp: not_less)
    next
      case False
      then have "j \<noteq> ?c" using c(2) by auto
      with False j nth p ok [of j] above [of ?c] c len show ?thesis
        by (cases "j = i") auto
    qed
  next
    fix j assume j: "0 < ?c" "j < length ?h" "0 < j" "(j - 1) div 2 = ?c"
    then have "j \<noteq> ?c" "j \<noteq> i" "(j - 1) div 2 \<noteq> i" using len c(2) by auto
    with j nth len c(2) ok [of j] show "key (?h ! ((?c - 1) div 2)) \<le> key (?h ! j)" by simp
  qed
qed

lemma down_correct:
  assumes "heap_down key h i" and "i < length h"
  shows "is_heap key (down key h i) \<and> mset (down key h i) = mset h \<and>
         (h ! i = last h \<longrightarrow> last (down key h i) = last h)"
  using assms
proof (induction key h i rule: down.induct)
  case (1 key h i)
  let ?c = "min_child key h (2 * i + 1)"
  consider (leaf) "\<not> 2 * i + 1 < length h"
    | (stop) "2 * i + 1 < length h" "key (h ! i) < key (h ! ?c)"
    | (go) "2 * i + 1 < length h" "\<not> key (h ! i) < key (h ! ?c)" by blast
  then show ?case
  proof cases
    case leaf
    then have "(j - 1) div 2 \<noteq> i" if "0 < j" "j < length h" for j using that by auto
    with "1.prems" have "is_heap key h" by (auto simp: heap_down_def is_heap_def)
    moreover have "down key h i = h" using leaf by (subst down.simps) (simp add: Let_def)
    ultimately show ?thesis by simp
  next
    case stop
    note c = min_child_props [OF stop(1), where key = key]
    have "key (h ! ((j - 1) div 2)) \<le> key (h ! j)" if "0 < j" "j < length h" for j
    proof (cases "(j - 1) div 2 = i")
      case True
      with c(4) [OF that True] stop(2) show ?thesis by auto
    next
      case False
      with "1.prems" that show ?thesis by (auto simp: heap_down_def)
    qed
    then have "is_heap key h" by (simp add: is_heap_def)
    moreover have "down key h i = h" using stop by (subst down.simps) (simp add: Let_def)
    ultimately show ?thesis by simp
  next
    case go
    note c = min_child_props [OF go(1), where key = key]
    let ?h = "heap_swap i ?c h"
    have h: "heap_down key ?h ?c" "?c < length ?h"
      using heap_down_swap [OF "1.prems"(1) go] c(1) by simp_all
    have nonempty: "h \<noteq> []" "?h \<noteq> []" using c(1) by (auto simp flip: length_0_conv)
    have lasts: "?h ! ?c = last ?h \<and> last ?h = last h" if "h ! i = last h"
    proof -
      have "?h ! ?c = h ! i" using heap_swap_nth [OF "1.prems"(2) c(1) c(1)] by simp
      moreover have "last ?h = ?h ! (length h - 1)" using nonempty(2) by (simp add: last_conv_nth)
      moreover have "?h ! (length h - 1) = (if length h - 1 = ?c then h ! i else if length h - 1 = i then h ! ?c else h ! (length h - 1))"
        using heap_swap_nth [OF "1.prems"(2) c(1), of "length h - 1"] c(1) by simp
      moreover have "h ! (length h - 1) = last h" using nonempty(1) by (simp add: last_conv_nth)
      moreover have "length h - 1 \<noteq> i" using go(1) by simp
      ultimately show ?thesis using that by simp
    qed
    have "down key h i = down key ?h ?c" using go by (subst down.simps) (simp add: Let_def)
    with "1.IH" [OF refl go(1) refl go(2) h] lasts mset_heap_swap [OF "1.prems"(2) c(1)]
    show ?thesis by simp
  qed
qed

section \<open>The operations\<close>

lemma heap_addTimer_correct:
  assumes "is_heap key h"
  shows "is_heap key (heap_addTimer key x h) \<and> mset (heap_addTimer key x h) = add_mset x (mset h)"
proof -
  have "heap_up key (h @ [x]) (length h)"
    unfolding heap_up_def
  proof (intro conjI allI impI; (elim conjE)?)
    fix j assume j: "0 < j" "j < length (h @ [x])" "j \<noteq> length h"
    then have "j < length h" "(j - 1) div 2 < length h" by auto
    then show "key ((h @ [x]) ! ((j - 1) div 2)) \<le> key ((h @ [x]) ! j)"
      using is_heapD [OF assms j(1)] by (simp add: nth_append)
  next
    fix j assume "j < length (h @ [x])" "0 < j" "(j - 1) div 2 = length h"
    then have False by auto
    then show "key ((h @ [x]) ! ((length h - 1) div 2)) \<le> key ((h @ [x]) ! j)" ..
  qed simp
  from up_correct [OF this] show ?thesis by (simp add: heap_addTimer_def Let_def)
qed

text \<open>
  \<^verbatim>\<open>popTimer\<close> needs the heap property only below the root: the timer at the root may
  already have a new expiry.
\<close>

definition heap_below :: "('a \<Rightarrow> 'k :: linorder) \<Rightarrow> 'a list \<Rightarrow> bool" where
  "heap_below key h \<longleftrightarrow>
     (\<forall>i. 2 < i \<and> i < length h \<longrightarrow> key (h ! ((i - 1) div 2)) \<le> key (h ! i))"

lemma is_heap_below: "is_heap key h \<Longrightarrow> heap_below key h"
  by (simp add: is_heap_def heap_below_def)

lemma is_heap_butlast: "is_heap key h \<Longrightarrow> is_heap key (butlast h)"
  by (auto simp: is_heap_def nth_butlast)

lemma popTimer_correct:
  assumes "heap_below key h" and "h \<noteq> []"
  shows "is_heap key (popTimer key h) \<and> mset (popTimer key h) = mset h - {#h ! 0#}"
proof -
  let ?x = "last h" and ?h = "h[0 := h ! (length h - 1)]"
  have x: "h ! (length h - 1) = ?x" using assms(2) by (simp add: last_conv_nth)
  have len: "0 < length h" using assms(2) by simp
  have last: "last ?h = ?x"
    using assms(2) by (cases "length h = 1") (auto simp: last_conv_nth x nth_list_update)
  have "heap_down key ?h 0"
    using assms(1) by (auto simp: heap_down_def heap_below_def nth_list_update)
  moreover have "0 < length ?h" "?h ! 0 = last ?h" using len last x by simp_all
  ultimately have d: "is_heap key (down key ?h 0)" "mset (down key ?h 0) = mset ?h"
      "last (down key ?h 0) = ?x"
    using down_correct [of key ?h 0] last by auto
  have "length (down key ?h 0) = length h" using d(2) by (metis size_mset length_list_update)
  then have ne: "down key ?h 0 \<noteq> []" using assms(2) by auto
  have "mset (butlast (down key ?h 0)) = mset (down key ?h 0) - {#last (down key ?h 0)#}"
    using append_butlast_last_id [OF ne]
    by (metis add_mset_remove_trivial mset_append mset.simps union_mset_add_mset_right add.right_neutral)
  also have "\<dots> = mset h - {#h ! 0#}"
    using d(2,3) len x by (simp add: mset_update)
  finally show ?thesis using assms(2) d(1) by (simp add: popTimer_def Let_def is_heap_butlast)
qed

lemma heap_top_min:
  assumes "is_heap key h" and "heap_top h = Some x" and "y \<in># mset h"
  shows "key x \<le> key y"
  using assms heap_root_le [OF assms(1)]
  by (auto simp: heap_top_def in_set_conv_nth split: if_splits)

section \<open>The interface of the heap\<close>

text \<open>
  What a timer queue relies on. The operations take the current keys, because a timer changes
  its key while it is stored: \<open>pop\<close> must only assume that the keys of the other elements are
  the ones the heap was built with.
\<close>

locale keyed_heap =
  fixes insert :: "('a \<Rightarrow> 'k :: linorder) \<Rightarrow> 'a \<Rightarrow> 'q \<Rightarrow> 'q"
    and pop :: "('a \<Rightarrow> 'k) \<Rightarrow> 'q \<Rightarrow> 'q"
    and top :: "'q \<Rightarrow> 'a option"
    and items :: "'q \<Rightarrow> 'a multiset"
    and ordered :: "('a \<Rightarrow> 'k) \<Rightarrow> 'q \<Rightarrow> bool"
  assumes ordered_insert: "ordered key q \<Longrightarrow> ordered key (insert key x q)"
    and items_insert: "ordered key q \<Longrightarrow> items (insert key x q) = add_mset x (items q)"
    and top_None: "top q = None \<longleftrightarrow> items q = {#}"
    and top_in: "top q = Some x \<Longrightarrow> x \<in># items q"
    and top_min: "ordered key q \<Longrightarrow> top q = Some x \<Longrightarrow> y \<in># items q \<Longrightarrow> key x \<le> key y"
    and items_pop: "ordered key q \<Longrightarrow> top q = Some x \<Longrightarrow>
          (\<And>y. y \<in># items q - {#x#} \<Longrightarrow> key' y = key y) \<Longrightarrow>
          items (pop key' q) = items q - {#x#}"
    and ordered_pop: "ordered key q \<Longrightarrow> top q = Some x \<Longrightarrow>
          (\<And>y. y \<in># items q - {#x#} \<Longrightarrow> key' y = key y) \<Longrightarrow> ordered key' (pop key' q)"
begin

text \<open>The top element is taken out, gets a new key and is put back.\<close>

lemma rekey_top:
  assumes "ordered key q" and "top q = Some x"
    and "\<And>y. y \<in># items q - {#x#} \<Longrightarrow> key' y = key y"
  shows "ordered key' (insert key' x (pop key' q))"
    and "items (insert key' x (pop key' q)) = items q"
proof -
  have pop: "ordered key' (pop key' q)" "items (pop key' q) = items q - {#x#}"
    using ordered_pop [OF assms] items_pop [OF assms] by auto
  show "ordered key' (insert key' x (pop key' q))" by (rule ordered_insert [OF pop(1)])
  show "items (insert key' x (pop key' q)) = items q"
    using items_insert [OF pop(1)] pop(2) top_in [OF assms(2)] by simp
qed

lemma top_min_insert:
  assumes "ordered key q" and "top (insert key x q) = Some y"
  shows "key y \<le> key x"
  using top_min [OF ordered_insert [OF assms(1)] assms(2)] items_insert [OF assms(1)] by simp

end

lemma heap_below_keys:
  assumes "is_heap key h" and "heap_top h = Some x" and "\<And>y. y \<in># mset h - {#x#} \<Longrightarrow> key' y = key y"
  shows "heap_below key' h"
proof -
  from assms(2) have "h \<noteq> []" and x: "x = h ! 0" by (auto simp: heap_top_def split: if_splits)
  then have "mset h - {#x#} = mset (tl h)" by (cases h) auto
  then have "key' (h ! i) = key (h ! i)" if "0 < i" "i < length h" for i
    using assms(3) [of "h ! i"] that nth_tl [of "i - 1" h] nth_mem [of "i - 1" "tl h"] by simp
  moreover have "(i - 1) div 2 > 0" if "2 < i" for i :: nat using that by (simp add: div_greater_zero_iff)
  ultimately show ?thesis using is_heapD [OF assms(1)]
    by (auto simp: heap_below_def)
qed

interpretation timer_heap: keyed_heap heap_addTimer popTimer heap_top mset is_heap
proof
  fix key key' :: "'a \<Rightarrow> 'b" and q :: "'a list" and x y
  show "is_heap key (heap_addTimer key x q)" if "is_heap key q"
    using heap_addTimer_correct [OF that] by simp
  show "mset (heap_addTimer key x q) = add_mset x (mset q)" if "is_heap key q"
    using heap_addTimer_correct [OF that] by simp
  show "heap_top q = None \<longleftrightarrow> mset q = {#}" by (simp add: heap_top_def)
  show "x \<in># mset q" if "heap_top q = Some x"
    using that by (auto simp: heap_top_def split: if_splits)
  show "key x \<le> key y" if "is_heap key q" "heap_top q = Some x" "y \<in># mset q"
    using heap_top_min that .
  assume h: "is_heap key q" "heap_top q = Some x" "\<And>y. y \<in># mset q - {#x#} \<Longrightarrow> key' y = key y"
  have "heap_below key' q" using heap_below_keys [OF h] .
  moreover have "q \<noteq> []" "q ! 0 = x" using h(2) by (auto simp: heap_top_def split: if_splits)
  ultimately show "mset (popTimer key' q) = mset q - {#x#}" "is_heap key' (popTimer key' q)"
    using popTimer_correct [of key' q] by auto
qed

end
