(* ===== verification/Timer_Queue.thy ===== *)
theory Timer_Queue
  imports Timer_Heap
begin

text \<open>
  \<^verbatim>\<open>src/base/timer.h\<close>, \<^verbatim>\<open>timer.cpp\<close>, \<^verbatim>\<open>timer_queue.h\<close> and \<^verbatim>\<open>timer_queue.cpp\<close> (the
  \<^verbatim>\<open>__APPLE__\<close> branch; the \<^verbatim>\<open>__linux__\<close> branch refers to names that are not declared and
  does not compile). Timers are shared objects: the heap stores their addresses, and
  \<open>timers\<close> is the memory they live in, so that \<^verbatim>\<open>restart\<close> changes a timer while the heap
  still holds it.
\<close>

section \<open>Timers\<close>

record Timer =
  tm_expire :: TimeStamp
  tm_repeat :: bool
  tm_interval :: int
  tm_handler :: nat

definition new_Timer :: "TimeStamp \<Rightarrow> int \<Rightarrow> nat \<Rightarrow> bool \<Rightarrow> Timer" where
  "new_Timer when interval call_back rep =
     \<lparr>tm_expire = when, tm_repeat = rep, tm_interval = interval, tm_handler = call_back\<rparr>"

definition timeout :: "int \<Rightarrow> Timer \<Rightarrow> bool" where
  "timeout clock t \<longleftrightarrow> Now clock \<ge> tm_expire t"

definition timer_update :: "int \<Rightarrow> Timer \<Rightarrow> Timer" where
  "timer_update time_out t = t\<lparr>tm_expire := addTime (tm_expire t) time_out\<rparr>"

definition restart :: "Timer \<Rightarrow> Timer" where
  "restart t = timer_update (tm_interval t) t"

section \<open>The queue\<close>

text \<open>
  \<open>clock_reads\<close> counts the readings of the system clock, whose successive values (in
  seconds) are the parameter \<open>clock\<close>. \<open>world\<close> is what the timer callbacks work on.
\<close>

record 'w TimerQueue =
  timers :: "nat \<Rightarrow> Timer"
  tq_heap :: "nat list"
  tq_next_time :: TimeStamp
  clock_reads :: nat
  world :: 'w

definition expiry :: "'w TimerQueue \<Rightarrow> nat \<Rightarrow> TimeStamp" where
  "expiry q = (\<lambda>i. tm_expire (timers q i))"

definition new_TimerQueue :: "(nat \<Rightarrow> Timer) \<Rightarrow> 'w \<Rightarrow> 'w TimerQueue" where
  "new_TimerQueue mem w =
     \<lparr>timers = mem, tq_heap = [], tq_next_time = TimeStamp 0, clock_reads = 0, world = w\<rparr>"

definition tq_push :: "nat \<Rightarrow> 'w TimerQueue \<Rightarrow> bool \<times> 'w TimerQueue" where
  "tq_push timer q =
     (let oldTop = heap_top (tq_heap q);
          q = q\<lparr>tq_heap := heap_addTimer (expiry q) timer (tq_heap q)\<rparr>
      in case oldTop of
           None \<Rightarrow> (True, q)
         | Some old \<Rightarrow> (expiry q timer < expiry q old, q))"

definition tq_addTimer :: "nat \<Rightarrow> 'w TimerQueue \<Rightarrow> 'w TimerQueue" where
  "tq_addTimer timer q =
     (case tq_push timer q of
        (first, q) \<Rightarrow>
          if first then
            let new_time = expiry q timer
            in if tq_next_time q = TimeStamp 0 \<or> new_time < tq_next_time q
               then q\<lparr>tq_next_time := new_time\<rparr> else q
          else q)"

text \<open>
  The loop of \<^verbatim>\<open>handleTimer\<close>; \<open>run\<close> executes a callback, which may add timers. The loop
  need not end: \<open>None\<close>.
\<close>

definition read_clock :: "(nat \<Rightarrow> int) \<Rightarrow> 'w TimerQueue \<Rightarrow> int \<times> 'w TimerQueue" where
  "read_clock clock q = (clock (clock_reads q), q\<lparr>clock_reads := Suc (clock_reads q)\<rparr>)"

definition fire :: "nat \<Rightarrow> 'w TimerQueue \<Rightarrow> 'w TimerQueue" where
  "fire t q =
     (if tm_repeat (timers q t) then
        let q = q\<lparr>timers := (timers q)(t := restart (timers q t))\<rparr>;
            q = q\<lparr>tq_heap := popTimer (expiry q) (tq_heap q)\<rparr>
        in q\<lparr>tq_heap := heap_addTimer (expiry q) t (tq_heap q)\<rparr>
      else q\<lparr>tq_heap := popTimer (expiry q) (tq_heap q)\<rparr>)"

partial_function (option) handle_loop ::
  "(nat \<Rightarrow> int) \<Rightarrow> (nat \<Rightarrow> 'w TimerQueue \<Rightarrow> 'w TimerQueue) \<Rightarrow> 'w TimerQueue \<Rightarrow>
     'w TimerQueue option" where
  "handle_loop clock run q =
     (case heap_top (tq_heap q) of
        None \<Rightarrow> Some q
      | Some t \<Rightarrow>
          (let (now, q) = read_clock clock q
           in if timeout now (timers q t)
              then handle_loop clock run (run (tm_handler (timers q t)) (fire t q))
              else
                Some (if tq_next_time q = TimeStamp 0 \<or> expiry q t > tq_next_time q
                      then q\<lparr>tq_next_time := expiry q t\<rparr> else q)))"

definition handleTimer ::
  "(nat \<Rightarrow> int) \<Rightarrow> (nat \<Rightarrow> 'w TimerQueue \<Rightarrow> 'w TimerQueue) \<Rightarrow> 'w TimerQueue \<Rightarrow>
     'w TimerQueue option" where
  "handleTimer clock run q =
     (case handle_loop clock run q of
        None \<Rightarrow> None
      | Some q \<Rightarrow>
          Some (if tq_heap q = [] then q\<lparr>tq_next_time := TimeStamp 0\<rparr> else q))"

declare handle_loop.simps [code]

section \<open>Invariant\<close>

text \<open>
  The heap is ordered by the current expiry times and holds no timer twice; the announced next
  time, when there is one, is not later than any stored timer. (\<open>TimeStamp 0\<close> means "none";
  every stored timer expires later than that.)
\<close>

definition tq_inv :: "'w TimerQueue \<Rightarrow> bool" where
  "tq_inv q \<longleftrightarrow>
     is_heap (expiry q) (tq_heap q) \<and> distinct (tq_heap q) \<and>
     (\<forall>t \<in> set (tq_heap q). TimeStamp 0 < expiry q t \<and> tq_next_time q \<le> expiry q t)"

lemma tq_inv_new: "tq_inv (new_TimerQueue mem w)"
  by (simp add: tq_inv_def new_TimerQueue_def)

lemma expiry_frame [simp]:
  "expiry (q\<lparr>tq_heap := h\<rparr>) = expiry q"
  "expiry (q\<lparr>tq_next_time := n\<rparr>) = expiry q"
  "expiry (q\<lparr>clock_reads := k\<rparr>) = expiry q"
  "expiry (q\<lparr>world := w\<rparr>) = expiry q"
  by (simp_all add: expiry_def)

lemma heap_top_in_set: "heap_top h = Some t \<Longrightarrow> t \<in> set h"
  using timer_heap.top_in by fastforce

lemma heap_set:
  assumes "is_heap key h"
  shows "set (heap_addTimer key x h) = insert x (set h)"
    and "distinct (heap_addTimer key x h) \<longleftrightarrow> x \<notin> set h \<and> distinct h"
proof -
  have m: "mset (heap_addTimer key x h) = mset (x # h)"
    using timer_heap.items_insert [OF assms, of x] by simp
  from mset_eq_setD [OF m] show "set (heap_addTimer key x h) = insert x (set h)" by simp
  from mset_eq_imp_distinct_iff [OF m] show "distinct (heap_addTimer key x h) \<longleftrightarrow> x \<notin> set h \<and> distinct h"
    by simp
qed

lemma tq_addTimer_inv:
  assumes inv: "tq_inv q" and new: "timer \<notin> set (tq_heap q)" "TimeStamp 0 < expiry q timer"
  shows "tq_inv (tq_addTimer timer q)"
    and "mset (tq_heap (tq_addTimer timer q)) = add_mset timer (mset (tq_heap q))"
    and "expiry (tq_addTimer timer q) = expiry q"
proof -
  let ?h = "heap_addTimer (expiry q) timer (tq_heap q)"
  have h: "is_heap (expiry q) (tq_heap q)" using inv by (simp add: tq_inv_def)
  note ins = timer_heap.ordered_insert [OF h, of timer] timer_heap.items_insert [OF h, of timer]
    heap_set [OF h, of timer]
  show "expiry (tq_addTimer timer q) = expiry q"
    by (auto simp: tq_addTimer_def tq_push_def Let_def split: option.splits)
  show "mset (tq_heap (tq_addTimer timer q)) = add_mset timer (mset (tq_heap q))"
    using ins by (auto simp: tq_addTimer_def tq_push_def Let_def split: option.splits)
  have old: "TimeStamp 0 < expiry q t" "tq_next_time q \<le> expiry q t" if "t \<in> set (tq_heap q)" for t
    using inv that by (auto simp: tq_inv_def)
  show "tq_inv (tq_addTimer timer q)"
  proof (cases "heap_top (tq_heap q)")
    case None
    then have "tq_heap q = []" using timer_heap.top_None by fastforce
    with None ins new show ?thesis
      by (auto simp: tq_inv_def tq_addTimer_def tq_push_def Let_def)
  next
    case (Some old_top)
    note min = timer_heap.top_min [OF h Some]
    have top: "old_top \<in> set (tq_heap q)" using heap_top_in_set [OF Some] .
    show ?thesis
    proof (cases "expiry q timer < expiry q old_top")
      case True
      then have "expiry q timer \<le> expiry q t" if "t \<in> set (tq_heap q)" for t
        using min [of t] that by auto
      with Some True ins new inv show ?thesis
        by (auto simp: tq_inv_def tq_addTimer_def tq_push_def Let_def)
    next
      case False
      then have "tq_next_time q \<le> expiry q timer" using old(2) [OF top] by auto
      with Some False ins new inv show ?thesis
        by (auto simp: tq_inv_def tq_addTimer_def tq_push_def Let_def)
    qed
  qed
qed

section \<open>One firing\<close>

definition repeat_ok :: "Timer \<Rightarrow> bool" where
  "repeat_ok t \<longleftrightarrow> (tm_repeat t \<longrightarrow> 0 < tm_interval t)"


lemma fire_frame [simp]:
  "tq_next_time (fire t q) = tq_next_time q"
  "clock_reads (fire t q) = clock_reads q"
  "world (fire t q) = world q"
  by (simp_all add: fire_def Let_def)

lemma tq_invD:
  assumes "tq_inv q"
  shows "is_heap (expiry q) (tq_heap q)" and "distinct (tq_heap q)"
    and "t \<in> set (tq_heap q) \<Longrightarrow> TimeStamp 0 < expiry q t"
    and "t \<in> set (tq_heap q) \<Longrightarrow> tq_next_time q \<le> expiry q t"
  using assms by (simp_all add: tq_inv_def)

lemma fire_once:
  assumes inv: "tq_inv q" and top: "heap_top (tq_heap q) = Some t" and "\<not> tm_repeat (timers q t)"
  shows "tq_inv (fire t q)" and "mset (tq_heap (fire t q)) = mset (tq_heap q) - {#t#}"
    and "timers (fire t q) = timers q" and "expiry (fire t q) = expiry q"
proof -
  let ?h = "popTimer (expiry q) (tq_heap q)"
  have q: "fire t q = q\<lparr>tq_heap := ?h\<rparr>" using assms(3) by (simp add: fire_def Let_def)
  have m: "mset ?h = mset (tq_heap q) - {#t#}" and o: "is_heap (expiry q) ?h"
    using timer_heap.items_pop [OF tq_invD(1) [OF inv] top]
      timer_heap.ordered_pop [OF tq_invD(1) [OF inv] top] by auto
  have "set ?h \<subseteq> set (tq_heap q)" using m by (metis set_mset_mset set_mset_mono diff_subset_eq_self)
  moreover have "distinct ?h"
  proof -
    have "mset (remove1 t (tq_heap q)) = mset ?h" using m by simp
    then show ?thesis using tq_invD(2) [OF inv] mset_eq_imp_distinct_iff distinct_remove1 by metis
  qed
  ultimately show "tq_inv (fire t q)" using q o inv by (auto simp: tq_inv_def)
  show "mset (tq_heap (fire t q)) = mset (tq_heap q) - {#t#}" "timers (fire t q) = timers q"
    "expiry (fire t q) = expiry q"
    using q m by (simp_all add: expiry_def)
qed



section \<open>The loop\<close>

text \<open>Callbacks that leave the queue alone.\<close>

definition quiet :: "(nat \<Rightarrow> 'w TimerQueue \<Rightarrow> 'w TimerQueue) \<Rightarrow> bool" where
  "quiet run \<longleftrightarrow> (\<forall>h q. \<exists>w. run h q = q\<lparr>world := w\<rparr>)"

text \<open>
  How often the loop can still fire while the clock stays at most \<open>T\<close> seconds: every timer
  once, and a repeating one again for every microsecond it lags behind.
\<close>

definition lag :: "int \<Rightarrow> 'w TimerQueue \<Rightarrow> nat \<Rightarrow> nat" where
  "lag T q t = Suc (nat (getUnixTimeStamp (Now T) + 1 - getUnixTimeStamp (expiry q t)))"

definition total_lag :: "int \<Rightarrow> 'w TimerQueue \<Rightarrow> nat" where
  "total_lag T q = (\<Sum>t \<in># mset (tq_heap q). lag T q t)"

lemma total_lag_frame [simp]:
  "total_lag T (q\<lparr>world := w\<rparr>) = total_lag T q"
  "total_lag T (q\<lparr>clock_reads := k\<rparr>) = total_lag T q"
  by (simp_all add: total_lag_def lag_def)

lemma tq_inv_frame [simp]:
  "tq_inv (q\<lparr>world := w\<rparr>) = tq_inv q"
  "tq_inv (q\<lparr>clock_reads := k\<rparr>) = tq_inv q"
  by (simp_all add: tq_inv_def)



lemma repeat_ok_restart [simp]: "repeat_ok (restart t) = repeat_ok t"
  by (simp add: repeat_ok_def restart_def timer_update_def)



text \<open>Callbacks that only record their number.\<close>

definition log_run :: "nat \<Rightarrow> nat list TimerQueue \<Rightarrow> nat list TimerQueue" where
  "log_run h q = q\<lparr>world := world q @ [h]\<rparr>"

lemma quiet_log_run: "quiet log_run"
  by (auto simp: quiet_def log_run_def)

definition one_shot :: "'w TimerQueue \<Rightarrow> bool" where
  "one_shot q \<longleftrightarrow> (\<forall>t \<in> set (tq_heap q). \<not> tm_repeat (timers q t))"

lemma handle_loop_order:
  assumes "tq_inv q" and "one_shot q"
  shows "\<exists>ts q'. handle_loop (\<lambda>_. c) log_run q = Some q' \<and>
    world q' = world q @ map (\<lambda>t. tm_handler (timers q t)) ts \<and>
    mset (tq_heap q) = mset ts + mset (tq_heap q') \<and> sorted (map (expiry q) ts) \<and>
    (\<forall>t \<in> set ts. expiry q t \<le> Now c) \<and> (\<forall>t \<in> set (tq_heap q'). Now c < expiry q t)"
  using assms
proof (induction "length (tq_heap q)" arbitrary: q rule: less_induct)
  case less
  note inv = less.prems(1)
  show ?case
  proof (cases "heap_top (tq_heap q)")
    case None
    then have "tq_heap q = []" using timer_heap.top_None by fastforce
    with None show ?thesis by (subst handle_loop.simps) (auto intro!: exI [of _ "[]"])
  next
    case (Some t)
    let ?q = "q\<lparr>clock_reads := Suc (clock_reads q)\<rparr>"
    have t: "t \<in> set (tq_heap q)" using heap_top_in_set [OF Some] .
    note min = timer_heap.top_min [OF tq_invD(1) [OF inv] Some]
    show ?thesis
    proof (cases "timeout c (timers q t)")
      case False
      then have later: "Now c < expiry q t" by (simp add: timeout_def expiry_def)
      let ?q' = "if tq_next_time ?q = TimeStamp 0 \<or> expiry ?q t > tq_next_time ?q
                 then ?q\<lparr>tq_next_time := expiry ?q t\<rparr> else ?q"
      have "handle_loop (\<lambda>_. c) log_run q = Some ?q'"
        using Some False by (subst handle_loop.simps) (simp add: read_clock_def)
      moreover have "Now c < expiry q x" if "x \<in> set (tq_heap q)" for x
        using min [of x] that later by (simp add: less_le_trans)
      ultimately show ?thesis by (intro exI [of _ "[]"] exI [of _ ?q']) auto
    next
      case True
      let ?q' = "log_run (tm_handler (timers q t)) (fire t ?q)"
      have once: "\<not> tm_repeat (timers ?q t)" using less.prems(2) t by (simp add: one_shot_def)
      have inv': "tq_inv ?q" and top': "heap_top (tq_heap ?q) = Some t" using inv Some by simp_all
      note f = fire_once [OF inv' top' once]
      have heap: "mset (tq_heap ?q') = mset (tq_heap q) - {#t#}"
        and tim: "timers ?q' = timers q" "expiry ?q' = expiry q"
        and wld: "world ?q' = world q @ [tm_handler (timers q t)]" and inv2: "tq_inv ?q'"
        using f by (simp_all add: log_run_def)
      have sub: "x \<in> set (tq_heap q)" if "x \<in> set (tq_heap ?q')" for x
        using that heap by (metis in_diffD set_mset_mset)
      have "length (tq_heap ?q') < length (tq_heap q)"
        using heap t by (metis size_Diff1_less size_mset set_mset_mset)
      moreover have "one_shot ?q'" using less.prems(2) sub tim(1) by (auto simp: one_shot_def)
      ultimately obtain ts q' where IH: "handle_loop (\<lambda>_. c) log_run ?q' = Some q'"
        "world q' = world ?q' @ map (\<lambda>t. tm_handler (timers q t)) ts"
        "mset (tq_heap ?q') = mset ts + mset (tq_heap q')" "sorted (map (expiry q) ts)"
        "\<forall>t \<in> set ts. expiry q t \<le> Now c" "\<forall>t \<in> set (tq_heap q'). Now c < expiry q t"
        using less.hyps [OF _ inv2] tim by auto
      have "handle_loop (\<lambda>_. c) log_run q = handle_loop (\<lambda>_. c) log_run ?q'"
        using Some True by (subst handle_loop.simps) (simp add: read_clock_def)
      moreover have "mset (tq_heap q) = mset (t # ts) + mset (tq_heap q')"
        using heap IH(3) t by (simp add: insert_DiffM)
      moreover have "x \<in> set (tq_heap q)" if "x \<in> set ts" for x
        using sub IH(3) that by (metis mset_subset_eqD mset_subset_eq_add_left set_mset_mset)
      then have "sorted (map (expiry q) (t # ts))" using IH(4) min by auto
      moreover have "expiry q t \<le> Now c" using True by (simp add: timeout_def expiry_def)
      ultimately show ?thesis using IH wld
        by (intro exI [of _ "t # ts"] exI [of _ q']) auto
    qed
  qed
qed


section \<open>Properties\<close>


definition example_queue :: "Timer \<Rightarrow> Timer \<Rightarrow> nat list TimerQueue" where
  "example_queue a b =
     tq_addTimer 1 (tq_addTimer 0 (new_TimerQueue (\<lambda>i. if i = 0 then a else b) []))"

lemma example_queue_props:
  assumes "TimeStamp 0 < tm_expire a" and "TimeStamp 0 < tm_expire b"
  shows "tq_inv (example_queue a b)"
    and "mset (tq_heap (example_queue a b)) = {#0, 1#}"
    and "timers (example_queue a b) = (\<lambda>i. if i = 0 then a else b)"
proof -
  let ?q = "new_TimerQueue (\<lambda>i. if i = 0 then a else b) ([] :: nat list)"
  have 0: "0 \<notin> set (tq_heap ?q)" "TimeStamp 0 < expiry ?q 0"
    using assms(1) by (simp_all add: new_TimerQueue_def expiry_def)
  note q0 = tq_addTimer_inv [OF tq_inv_new 0]
  have m: "mset (tq_heap (tq_addTimer 0 ?q)) = {#0#}" using q0(2) by (simp add: new_TimerQueue_def)
  have 1: "1 \<notin> set (tq_heap (tq_addTimer 0 ?q))" "TimeStamp 0 < expiry (tq_addTimer 0 ?q) 1"
  proof -
    have "tq_heap (tq_addTimer 0 ?q) = [0]" using m by simp
    then show "1 \<notin> set (tq_heap (tq_addTimer 0 ?q))" by simp
    show "TimeStamp 0 < expiry (tq_addTimer 0 ?q) 1"
      using assms(2) q0(3) by (simp add: expiry_def new_TimerQueue_def)
  qed
  note q1 = tq_addTimer_inv [OF q0(1) 1]
  show "tq_inv (example_queue a b)" using q1(1) by (simp add: example_queue_def)
  show "mset (tq_heap (example_queue a b)) = {#0, 1#}" using q1(2) m by (simp add: example_queue_def)
  show "timers (example_queue a b) = (\<lambda>i. if i = 0 then a else b)"
    by (auto simp: example_queue_def tq_addTimer_def tq_push_def Let_def new_TimerQueue_def
        split: option.splits prod.splits)
qed


text \<open>
  C18. A queue of one-shot timers whose callbacks only record themselves: \<^verbatim>\<open>handleTimer\<close>
  runs exactly the callbacks of the timers that are due, each once, in the order of their
  expiry, and keeps exactly the other timers.
\<close>

theorem handleTimer_fires_due_in_order:
  assumes "tq_inv q" and "one_shot q"
  shows "\<exists>ts q'. handleTimer (\<lambda>_. c) log_run q = Some q' \<and>
    world q' = world q @ map (\<lambda>t. tm_handler (timers q t)) ts \<and>
    sorted (map (expiry q) ts) \<and>
    mset ts = filter_mset (\<lambda>t. expiry q t \<le> Now c) (mset (tq_heap q)) \<and>
    mset (tq_heap q') = filter_mset (\<lambda>t. Now c < expiry q t) (mset (tq_heap q))"
proof -
  obtain ts q' where L: "handle_loop (\<lambda>_. c) log_run q = Some q'"
    "world q' = world q @ map (\<lambda>t. tm_handler (timers q t)) ts"
    "mset (tq_heap q) = mset ts + mset (tq_heap q')" "sorted (map (expiry q) ts)"
    "\<forall>t \<in> set ts. expiry q t \<le> Now c" "\<forall>t \<in> set (tq_heap q'). Now c < expiry q t"
    using handle_loop_order [OF assms, of c] by blast
  have "filter_mset (\<lambda>t. expiry q t \<le> Now c) (mset ts) = mset ts"
    "filter_mset (\<lambda>t. Now c < expiry q t) (mset ts) = {#}"
    "filter_mset (\<lambda>t. expiry q t \<le> Now c) (mset (tq_heap q')) = {#}"
    "filter_mset (\<lambda>t. Now c < expiry q t) (mset (tq_heap q')) = mset (tq_heap q')"
    using L(5,6) by (auto simp: filter_mset_eq_conv not_le not_less)
  with L show ?thesis
    by (intro exI [of _ ts] exI [of _ "if tq_heap q' = [] then q'\<lparr>tq_next_time := TimeStamp 0\<rparr> else q'"])
      (auto simp: handleTimer_def)
qed

theorem handleTimer_fires_due_in_order_witness:
  "\<exists>q'. handleTimer (\<lambda>_. 5) log_run
      (example_queue (new_Timer (TimeStamp 3000000) 0 7 False) (new_Timer (TimeStamp 9000000) 0 8 False)) = Some q' \<and>
    world q' = [7]"
proof -
  let ?a = "new_Timer (TimeStamp 3000000) 0 7 False" and ?b = "new_Timer (TimeStamp 9000000) 0 8 False"
  let ?q = "example_queue ?a ?b"
  have pos: "TimeStamp 0 < tm_expire ?a" "TimeStamp 0 < tm_expire ?b" by (simp_all add: new_Timer_def)
  note e = example_queue_props [OF pos]
  have "one_shot ?q" using e(3) by (simp add: one_shot_def new_Timer_def)
  from handleTimer_fires_due_in_order [OF e(1) this, of 5] obtain ts q' where
    q': "handleTimer (\<lambda>_. 5) log_run ?q = Some q'"
      "world q' = world ?q @ map (\<lambda>t. tm_handler (timers ?q t)) ts"
      "mset ts = filter_mset (\<lambda>t. expiry ?q t \<le> Now 5) (mset (tq_heap ?q))" by blast
  have "mset ts = {#0#}"
    using q'(3) e(2,3) by (simp add: expiry_def new_Timer_def Now_def kMicroSecondsPerSecond_def)
  then have "ts = [0]" by simp
  moreover have "world ?q = []"
    by (auto simp: example_queue_def tq_addTimer_def tq_push_def Let_def new_TimerQueue_def
        split: option.splits prod.splits)
  ultimately show ?thesis using q' e(3) by (simp add: new_Timer_def)
qed

text \<open>
  C34. A repeating timer with interval 0, which \<^verbatim>\<open>EventLoop::runEvery(0, cb)\<close> creates,
  makes \<^verbatim>\<open>handleTimer\<close> run for ever once it is due: it is put back with the expiry it had.
\<close>

definition zero_interval_due :: "(nat \<Rightarrow> int) \<Rightarrow> 'w TimerQueue \<Rightarrow> bool" where
  "zero_interval_due clock q \<longleftrightarrow>
     (\<exists>t. tq_heap q = [t] \<and> tm_repeat (timers q t) \<and> tm_interval (timers q t) = 0 \<and>
          (\<forall>i. expiry q t \<le> Now (clock i)))"

lemma fire_zero:
  assumes "tq_heap q = [t]" and "tm_repeat (timers q t)" and "tm_interval (timers q t) = 0"
  shows "fire t q = q"
proof -
  have "restart (timers q t) = timers q t"
    by (simp add: restart_def timer_update_def addTime_def assms(3))
  moreover have "popTimer key [t] = []" for key :: "nat \<Rightarrow> TimeStamp"
    by (simp add: popTimer_def down.simps)
  moreover have "heap_addTimer key t [] = [t]" for key :: "nat \<Rightarrow> TimeStamp"
    by (simp add: heap_addTimer_def up.simps)
  ultimately show ?thesis using assms by (simp add: fire_def Let_def)
qed

lemma handle_loop_zero:
  assumes "handle_loop clock run q = Some q'"
  shows "quiet run \<longrightarrow> \<not> zero_interval_due clock q"
proof (rule handle_loop.raw_induct
    [where P = "\<lambda>clock run q y. quiet run \<longrightarrow> \<not> zero_interval_due clock q", OF _ assms],
    intro impI notI)
  fix loop clock run and q y :: "'a TimerQueue"
  assume IH: "\<And>clock run q y. loop clock run q = Some y \<Longrightarrow> quiet run \<longrightarrow> \<not> zero_interval_due clock q"
    and body: "(case heap_top (tq_heap q) of
        None \<Rightarrow> Some q
      | Some t \<Rightarrow>
          (let (now, q) = read_clock clock q
           in if timeout now (timers q t)
              then loop clock run (run (tm_handler (timers q t)) (fire t q))
              else
                Some (if tq_next_time q = TimeStamp 0 \<or> expiry q t > tq_next_time q
                      then q\<lparr>tq_next_time := expiry q t\<rparr> else q))) = Some y"
    and run: "quiet run" and due: "zero_interval_due clock q"
  obtain t where t: "tq_heap q = [t]" "tm_repeat (timers q t)" "tm_interval (timers q t) = 0"
    "\<And>i. expiry q t \<le> Now (clock i)"
    using due unfolding zero_interval_due_def by blast
  let ?q = "q\<lparr>clock_reads := Suc (clock_reads q)\<rparr>"
  have "\<exists>w. run (tm_handler (timers q t)) ?q = ?q\<lparr>world := w\<rparr>"
    using run unfolding quiet_def by blast
  then obtain w where w: "run (tm_handler (timers q t)) ?q = ?q\<lparr>world := w\<rparr>" ..
  have "heap_top (tq_heap q) = Some t" using t(1) by (simp add: heap_top_def)
  moreover have "timeout (clock (clock_reads q)) (timers q t)"
    using t(4) by (simp add: timeout_def expiry_def)
  moreover have "fire t ?q = ?q" using t by (intro fire_zero) simp_all
  ultimately have "loop clock run (?q\<lparr>world := w\<rparr>) = Some y"
    using body w by (simp add: read_clock_def)
  with IH run have "\<not> zero_interval_due clock (?q\<lparr>world := w\<rparr>)" by blast
  moreover have "zero_interval_due clock (?q\<lparr>world := w\<rparr>)"
    unfolding zero_interval_due_def using t by (intro exI [of _ t]) simp
  ultimately show False by contradiction
qed

theorem handleTimer_zero_interval_diverges:
  assumes "quiet run" and "zero_interval_due clock q"
  shows "handleTimer clock run q = None"
  using assms handle_loop_zero [of clock run q]
  by (cases "handle_loop clock run q") (auto simp: handleTimer_def)

theorem handleTimer_zero_interval_diverges_witness:
  "handleTimer (\<lambda>_. 5) log_run
     (tq_addTimer 0 (new_TimerQueue (\<lambda>_. new_Timer (Now 5) 0 7 True) [])) = None"
proof -
  let ?q = "tq_addTimer 0 (new_TimerQueue (\<lambda>_. new_Timer (Now 5) 0 7 True) ([] :: nat list))"
  have "tq_heap ?q = [0]" "timers ?q = (\<lambda>_. new_Timer (Now 5) 0 7 True)"
    by (simp_all add: tq_addTimer_def tq_push_def Let_def new_TimerQueue_def heap_top_def
        heap_addTimer_def up.simps)
  then have "zero_interval_due (\<lambda>_. 5) ?q"
    by (simp add: zero_interval_due_def expiry_def new_Timer_def)
  with quiet_log_run show ?thesis by (rule handleTimer_zero_interval_diverges)
qed

end
