(* ===== verification/Block_Queue.thy ===== *)
theory Block_Queue
  imports Prelude
begin

text \<open>
  \<^verbatim>\<open>src/util/block_queue.h\<close> and \<^verbatim>\<open>src/util/atomic.h\<close>: the queue through which threads
  hand work to an event loop, and the atomic counter. Every operation holds the mutex, so an
  execution of several threads is a sequence of whole operations; \<^verbatim>\<open>pop\<close> on an empty queue
  waits (\<open>None\<close>).
\<close>

section \<open>The queue\<close>

record 'a Queue =
  queue_items :: "'a list"

definition new_Queue :: "'a Queue" where
  "new_Queue = \<lparr>queue_items = []\<rparr>"

definition queue_push :: "'a \<Rightarrow> 'a Queue \<Rightarrow> 'a Queue" where
  "queue_push t q = q\<lparr>queue_items := queue_items q @ [t]\<rparr>"

definition queue_pop :: "'a Queue \<Rightarrow> ('a \<times> 'a Queue) option" where
  "queue_pop q =
     (case queue_items q of
        [] \<Rightarrow> None
      | res # rest \<Rightarrow> Some (res, q\<lparr>queue_items := rest\<rparr>))"

text \<open>\<^verbatim>\<open>pop_all\<close> swaps the queue with the argument \<open>res\<close>.\<close>

definition queue_pop_all :: "'a list \<Rightarrow> 'a Queue \<Rightarrow> 'a list \<times> 'a Queue" where
  "queue_pop_all res q =
     (if queue_items q = [] then (res, q)
      else (queue_items q, q\<lparr>queue_items := res\<rparr>))"

section \<open>The interface\<close>

text \<open>What the users of the queue rely on: first in, first out, nothing lost or doubled.\<close>

locale fifo =
  fixes empty :: 'q
    and push :: "'a \<Rightarrow> 'q \<Rightarrow> 'q"
    and pop :: "'q \<Rightarrow> ('a \<times> 'q) option"
    and pop_all :: "'a list \<Rightarrow> 'q \<Rightarrow> 'a list \<times> 'q"
    and items :: "'q \<Rightarrow> 'a list"
  assumes items_empty: "items empty = []"
    and items_push: "items (push x q) = items q @ [x]"
    and pop_None: "pop q = None \<longleftrightarrow> items q = []"
    and pop_Some: "pop q = Some (x, q') \<Longrightarrow> items q = x # items q'"
    and pop_all_items: "pop_all [] q = (xs, q') \<Longrightarrow> xs = items q \<and> items q' = []"
begin

text \<open>
  An execution: the operations in the order in which they got the mutex. The result is what
  the consumers took out, in order, and the queue that is left.
\<close>

fun run_ops :: "('a option option) list \<Rightarrow> 'q \<Rightarrow> 'a list \<times> 'q" where
  "run_ops [] q = ([], q)"
| "run_ops (Some (Some x) # ops) q = run_ops ops (push x q)"
| "run_ops (Some None # ops) q =
     (case pop q of
        None \<Rightarrow> run_ops ops q
      | Some (x, q) \<Rightarrow> (case run_ops ops q of (xs, q) \<Rightarrow> (x # xs, q)))"
| "run_ops (None # ops) q =
     (case pop_all [] q of (ys, q) \<Rightarrow> (case run_ops ops q of (xs, q) \<Rightarrow> (ys @ xs, q)))"

fun pushed :: "('a option option) list \<Rightarrow> 'a list" where
  "pushed [] = []"
| "pushed (Some (Some x) # ops) = x # pushed ops"
| "pushed (_ # ops) = pushed ops"

lemma run_ops_fifo:
  "run_ops ops q = (out, q') \<Longrightarrow> items q @ pushed ops = out @ items q'"
proof (induction ops q arbitrary: out q' rule: run_ops.induct)
  case (1 q)
  then show ?case by simp
next
  case (2 x ops q)
  then show ?case by (simp add: items_push)
next
  case (3 ops q)
  then show ?case
    by (cases "pop q") (auto dest!: pop_Some split: prod.splits)
next
  case (4 ops q)
  obtain ys q1 where p: "pop_all [] q = (ys, q1)" by fastforce
  obtain xs q2 where r: "run_ops ops q1 = (xs, q2)" by fastforce
  from "4.IH" [OF p [symmetric] r] pop_all_items [OF p] p r "4.prems" show ?case by simp
qed

end

interpretation block_queue: fifo new_Queue queue_push queue_pop queue_pop_all queue_items
  by unfold_locales
    (auto simp: new_Queue_def queue_push_def queue_pop_def queue_pop_all_def
      split: list.splits if_splits)

section \<open>The atomic counter\<close>

text \<open>\<^verbatim>\<open>qg_int\<close> is a 32-bit integer; the \<^verbatim>\<open>__sync\<close> builtins wrap around.\<close>

type_synonym AtomicInt = "32 word"

definition atomic_get :: "AtomicInt \<Rightarrow> 32 word \<times> AtomicInt" where
  "atomic_get v = (v, if v = 0 then 0 else v)"

definition getAndAdd :: "32 word \<Rightarrow> AtomicInt \<Rightarrow> 32 word \<times> AtomicInt" where
  "getAndAdd x v = (v, v + x)"

definition addAndGet :: "32 word \<Rightarrow> AtomicInt \<Rightarrow> 32 word \<times> AtomicInt" where
  "addAndGet x v = (case getAndAdd x v of (old, v) \<Rightarrow> (old + x, v))"

definition incrementAndGet :: "AtomicInt \<Rightarrow> 32 word \<times> AtomicInt" where
  "incrementAndGet = addAndGet 1"

definition decrementAndGet :: "AtomicInt \<Rightarrow> 32 word \<times> AtomicInt" where
  "decrementAndGet = addAndGet (-1)"

definition atomic_add :: "32 word \<Rightarrow> AtomicInt \<Rightarrow> AtomicInt" where
  "atomic_add x v = snd (getAndAdd x v)"

definition increment :: "AtomicInt \<Rightarrow> AtomicInt" where
  "increment v = snd (incrementAndGet v)"

definition decrement :: "AtomicInt \<Rightarrow> AtomicInt" where
  "decrement v = snd (decrementAndGet v)"

definition getAndSet :: "32 word \<Rightarrow> AtomicInt \<Rightarrow> 32 word \<times> AtomicInt" where
  "getAndSet x v = (v, x)"

end
