(* ===== verification/Event_Loop.thy ===== *)
theory Event_Loop
  imports Poll_Poller Timer_Queue Block_Queue
begin

text \<open>
  \<^verbatim>\<open>src/core/event_loop.h\<close> and \<^verbatim>\<open>event_loop.cpp\<close>: one thread that waits for events,
  fires timers and runs the functors other threads hand to it through a queue and a pipe.
  The state extends the poller's; the timer queue lies around it, because timer callbacks work
  on the loop.
\<close>

section \<open>State\<close>

text \<open>\<open>waker_pipe\<close> is the number of bytes in the waker's pipe.\<close>

record 'f EventLoop = "'f Pollpoller" +
  handler_map :: "int \<rightharpoonup> nat"
  pending_functors :: "'f Queue"
  waker_pipe :: nat

type_synonym 'f loop = "'f EventLoop TimerQueue"

section \<open>Handlers\<close>

definition el_registerHandler :: "nat \<Rightarrow> ('f, 'z) EventLoop_scheme \<Rightarrow> ('f, 'z) EventLoop_scheme checked" where
  "el_registerHandler eh s =
     (let fd = eh_handle (eh_mem s eh);
          s = s\<lparr>handler_map := (if handler_map s fd = None then (handler_map s)(fd \<mapsto> eh)
                                 else handler_map s)\<rparr>
      in pp_registerHandler eh s)"

definition el_updateHandler :: "nat \<Rightarrow> ('f, 'z) EventLoop_scheme \<Rightarrow> ('f, 'z) EventLoop_scheme checked" where
  "el_updateHandler eh s =
     (if handler_map s (eh_handle (eh_mem s eh)) = None then Inl Assertion
      else pp_updateHandler eh s)"

definition el_removeHandler :: "nat \<Rightarrow> ('f, 'z) EventLoop_scheme \<Rightarrow> ('f, 'z) EventLoop_scheme checked" where
  "el_removeHandler eh s =
     (if handler_map s (eh_handle (eh_mem s eh)) = None then Inl Assertion
      else
        let s = s\<lparr>handler_map := (handler_map s)(eh_handle (eh_mem s eh) := None)\<rparr>
        in pp_removeHandler eh s)"

text \<open>The methods of a handler that change its interest end with \<^verbatim>\<open>update\<close>.\<close>

definition enableRead :: "nat \<Rightarrow> ('f, 'z) EventLoop_scheme \<Rightarrow> ('f, 'z) EventLoop_scheme checked" where
  "enableRead eh s = el_updateHandler eh (change_handler eh (setIEvents kEventRead) s)"

definition enableWrite :: "nat \<Rightarrow> ('f, 'z) EventLoop_scheme \<Rightarrow> ('f, 'z) EventLoop_scheme checked" where
  "enableWrite eh s = el_updateHandler eh (change_handler eh (setIEvents kEventWrite) s)"

definition enableError :: "nat \<Rightarrow> ('f, 'z) EventLoop_scheme \<Rightarrow> ('f, 'z) EventLoop_scheme checked" where
  "enableError eh s = el_updateHandler eh (change_handler eh (setIEvents kEventError) s)"

definition enableAll :: "nat \<Rightarrow> ('f, 'z) EventLoop_scheme \<Rightarrow> ('f, 'z) EventLoop_scheme checked" where
  "enableAll eh s = el_updateHandler eh (change_handler eh (setIEvents kEventAll) s)"

definition disableRead :: "nat \<Rightarrow> ('f, 'z) EventLoop_scheme \<Rightarrow> ('f, 'z) EventLoop_scheme checked" where
  "disableRead eh s = el_updateHandler eh (change_handler eh (clear_interest kEventRead) s)"

definition disableWrite :: "nat \<Rightarrow> ('f, 'z) EventLoop_scheme \<Rightarrow> ('f, 'z) EventLoop_scheme checked" where
  "disableWrite eh s = el_updateHandler eh (change_handler eh (clear_interest kEventWrite) s)"

definition disableError :: "nat \<Rightarrow> ('f, 'z) EventLoop_scheme \<Rightarrow> ('f, 'z) EventLoop_scheme checked" where
  "disableError eh s = el_updateHandler eh (change_handler eh (clear_interest kEventError) s)"

definition disableAll :: "nat \<Rightarrow> ('f, 'z) EventLoop_scheme \<Rightarrow> ('f, 'z) EventLoop_scheme checked" where
  "disableAll eh s = el_updateHandler eh (change_handler eh no_interest s)"

section \<open>Functors and the waker\<close>

text \<open>
  The pipe does not block; a write to a full pipe (of \<open>cap\<close> bytes) fails, and its result is
  ignored. A read takes one byte, if there is one.
\<close>

definition Waker_wake_up :: "nat \<Rightarrow> ('f, 'z) EventLoop_scheme \<Rightarrow> ('f, 'z) EventLoop_scheme" where
  "Waker_wake_up cap s =
     (if waker_pipe s < cap then s\<lparr>waker_pipe := waker_pipe s + 1\<rparr> else s)"

definition Waker_handleRead :: "('f, 'z) EventLoop_scheme \<Rightarrow> ('f, 'z) EventLoop_scheme" where
  "Waker_handleRead s = s\<lparr>waker_pipe := waker_pipe s - 1\<rparr>"

definition push_functor :: "'f \<Rightarrow> ('f, 'z) EventLoop_scheme \<Rightarrow> ('f, 'z) EventLoop_scheme" where
  "push_functor f s = s\<lparr>pending_functors := queue_push f (pending_functors s)\<rparr>"

definition addFunctor :: "nat \<Rightarrow> 'f \<Rightarrow> ('f, 'z) EventLoop_scheme \<Rightarrow> ('f, 'z) EventLoop_scheme" where
  "addFunctor cap f s = Waker_wake_up cap (push_functor f s)"

text \<open>Taking the pending functors; the loop over them.\<close>

definition pop_functors :: "('f, 'z) EventLoop_scheme \<Rightarrow> 'f list \<times> ('f, 'z) EventLoop_scheme" where
  "pop_functors s =
     (case queue_pop_all [] (pending_functors s) of
        (functors, q) \<Rightarrow> (functors, s\<lparr>pending_functors := q\<rparr>))"

fun run_functors :: "('f \<Rightarrow> 's \<Rightarrow> 's checked) \<Rightarrow> 'f list \<Rightarrow> 's \<Rightarrow> 's checked" where
  "run_functors invoke [] s = Inr s"
| "run_functors invoke (f # fs) s = checked_bind (invoke f s) (run_functors invoke fs)"

definition handlePendingFunctors :: "('f \<Rightarrow> 'f loop \<Rightarrow> 'f loop checked) \<Rightarrow> 'f loop \<Rightarrow> 'f loop checked" where
  "handlePendingFunctors invoke l =
     (case pop_functors (world l) of
        (functors, s) \<Rightarrow> run_functors invoke functors (l\<lparr>world := s\<rparr>))"

section \<open>Timers\<close>

text \<open>A new timer is stored at the address \<open>t\<close>, which \<^verbatim>\<open>std::make_shared\<close> returns.\<close>

definition add_new_timer :: "nat \<Rightarrow> Timer \<Rightarrow> 'w TimerQueue \<Rightarrow> 'w TimerQueue" where
  "add_new_timer t timer q = tq_addTimer t (q\<lparr>timers := (timers q)(t := timer)\<rparr>)"

definition runAfter :: "(nat \<Rightarrow> int) \<Rightarrow> nat \<Rightarrow> int \<Rightarrow> nat \<Rightarrow> 'w TimerQueue \<Rightarrow> 'w TimerQueue" where
  "runAfter clock t time cb q =
     (case read_clock clock q of
        (now, q) \<Rightarrow> add_new_timer t (new_Timer (addTime (Now now) time) 0 cb False) q)"

definition runAt :: "nat \<Rightarrow> TimeStamp \<Rightarrow> nat \<Rightarrow> 'w TimerQueue \<Rightarrow> 'w TimerQueue" where
  "runAt t time cb q = add_new_timer t (new_Timer time 0 cb False) q"

definition runEvery :: "(nat \<Rightarrow> int) \<Rightarrow> nat \<Rightarrow> int \<Rightarrow> nat \<Rightarrow> 'w TimerQueue \<Rightarrow> 'w TimerQueue" where
  "runEvery clock t interval cb q =
     (case read_clock clock q of
        (now, q) \<Rightarrow> add_new_timer t (new_Timer (Now now) interval cb True) q)"

section \<open>One turn of the loop\<close>

text \<open>The time to wait for, as \<^verbatim>\<open>loop\<close> computes it from the next expiry.\<close>

definition next_wait :: "(nat \<Rightarrow> int) \<Rightarrow> 'w TimerQueue \<Rightarrow> TimeStamp \<times> 'w TimerQueue" where
  "next_wait clock q =
     (let next_time = tq_next_time q
      in if getUnixTimeStamp next_time \<noteq> 0 then
           (case read_clock clock q of
              (c, q) \<Rightarrow>
                let now = Now c
                in (if now < next_time then next_time - now else next_time, q))
         else (next_time, q))"

fun handle_events ::
  "('f \<Rightarrow> 'f loop \<Rightarrow> 'f loop checked) \<Rightarrow> nat list \<Rightarrow> 'f loop \<Rightarrow> 'f loop checked" where
  "handle_events invoke [] l = Inr l"
| "handle_events invoke (eh # ehs) l =
     checked_bind (HandleEvent (\<lambda>l. eh_mem (world l) eh) invoke l) (handle_events invoke ehs)"

text \<open>
  The body of \<^verbatim>\<open>for (;;)\<close>: \<open>None\<close> if the timers never stop firing. \<open>run\<close> executes a
  timer's callback, \<open>invoke\<close> a functor, \<open>poll\<close> is the system call.
\<close>

definition loop_turn ::
  "(nat \<Rightarrow> int) \<Rightarrow> (nat \<Rightarrow> 'f loop \<Rightarrow> 'f loop) \<Rightarrow> ('f \<Rightarrow> 'f loop \<Rightarrow> 'f loop checked) \<Rightarrow>
     (pollfd list \<Rightarrow> int \<Rightarrow> poll_result) \<Rightarrow> 'f loop \<Rightarrow> 'f loop checked option" where
  "loop_turn clock run invoke poll l =
     (case handleTimer clock run l of
        None \<Rightarrow> None
      | Some l \<Rightarrow>
          Some (case next_wait clock l of
            (next_time, l) \<Rightarrow>
              checked_bind (pp_Wait poll (-1) next_time (world l)) (\<lambda>(ess, s).
              checked_bind (handle_events invoke ess (l\<lparr>world := s\<rparr>))
                (handlePendingFunctors invoke))))"

text \<open>The constructor: the waker registers the reading end of its pipe.\<close>

definition new_EventLoop :: "(nat \<Rightarrow> 'f EventHandler) \<Rightarrow> nat \<Rightarrow> int \<Rightarrow> 'f \<Rightarrow> 'f EventLoop checked" where
  "new_EventLoop mem eh pipe_fd cb =
     (let s = \<lparr>eh_mem = mem(eh := setReadCallBack cb (new_EventHandler pipe_fd kEventNone)),
               poll_fds = [], event_handler_map = Map.empty, handler_map = Map.empty,
               pending_functors = new_Queue, waker_pipe = 0\<rparr>
      in checked_bind (el_registerHandler eh s) (enableRead eh))"

section \<open>The loop implements the poller's contract\<close>

definition el_inv :: "('f, 'z) EventLoop_scheme \<Rightarrow> bool" where
  "el_inv s \<longleftrightarrow> pp_inv s \<and> handler_map s = event_handler_map s"

lemma pp_inv_handler_map [simp]:
  "pp_inv (s\<lparr>handler_map := m\<rparr>) = pp_inv s"
  "pp_registered (s\<lparr>handler_map := m\<rparr>) = pp_registered s"
  "pp_fresh (s\<lparr>handler_map := m\<rparr>) h = pp_fresh s h"
  "pp_idle (s\<lparr>handler_map := m\<rparr>) h = pp_idle s h"
  by (simp_all add: pp_inv_def pp_registered_def pp_fresh_def pp_idle_def fd_owner_def)

lemma pp_ops_frame:
  fixes s :: "('f, 'z) EventLoop_scheme"
  shows "pp_registerHandler h s = Inr s' \<Longrightarrow>
      handler_map s' = handler_map s \<and> pending_functors s' = pending_functors s \<and>
      waker_pipe s' = waker_pipe s"
    and "pp_updateHandler h s = Inr s' \<Longrightarrow>
      handler_map s' = handler_map s \<and> pending_functors s' = pending_functors s \<and>
      waker_pipe s' = waker_pipe s"
    and "pp_removeHandler h s = Inr s' \<Longrightarrow>
      handler_map s' = handler_map s \<and> pending_functors s' = pending_functors s \<and>
      waker_pipe s' = waker_pipe s"
  by (auto simp: pp_registerHandler_def pp_updateHandler_def pp_removeHandler_def Let_def
      change_handler_def split: if_splits option.splits)

lemma pp_register_map:
  "pp_registerHandler h s = Inr s' \<Longrightarrow>
     event_handler_map s' = (event_handler_map s)(eh_handle (eh_mem s h) \<mapsto> h)"
  by (auto simp: pp_registerHandler_def Let_def change_handler_def SetIndex_def split: if_splits)

lemma el_register_ok:
  assumes "el_inv s" and "pp_fresh s h"
  shows "\<exists>s'. el_registerHandler h s = Inr s' \<and> el_inv s' \<and>
    pp_registered s' = insert h (pp_registered s)"
proof -
  let ?s = "s\<lparr>handler_map := (handler_map s)(eh_handle (eh_mem s h) \<mapsto> h)\<rparr>"
  have "pp_inv ?s" "pp_fresh ?s h" using assms by (simp_all add: el_inv_def)
  then obtain s' where s': "pp_registerHandler h ?s = Inr s'" "pp_inv s'"
    "pp_registered s' = insert h (pp_registered ?s)"
    using pp_register_ok by blast
  moreover have "handler_map s (eh_handle (eh_mem s h)) = None"
    using assms by (simp add: el_inv_def pp_fresh_def)
  then have "el_registerHandler h s = pp_registerHandler h ?s" by (simp add: el_registerHandler_def)
  ultimately show ?thesis
    using assms(1) pp_ops_frame(1) [OF s'(1)] pp_register_map [OF s'(1)] by (simp add: el_inv_def)
qed

lemma el_update_ok:
  assumes "el_inv s" and "h \<in> pp_registered s"
  shows "\<exists>s'. el_updateHandler h s = Inr s' \<and> el_inv s' \<and>
    pp_registered s' = pp_registered s \<and> pp_idle s' h"
proof -
  have inv: "pp_inv s" "handler_map s = event_handler_map s" using assms(1) by (simp_all add: el_inv_def)
  obtain s' where s': "pp_updateHandler h s = Inr s'" "pp_inv s'" "pp_registered s' = pp_registered s"
    "pp_idle s' h" "event_handler_map s' = event_handler_map s"
    using pp_update_ok [OF inv(1) assms(2)] by blast
  moreover have "handler_map s (eh_handle (eh_mem s h)) \<noteq> None"
    using fd_owner_registered [OF inv(1) assms(2)] inv(2) by simp
  ultimately show ?thesis
    using inv pp_ops_frame(2) [OF s'(1)] by (simp add: el_updateHandler_def el_inv_def)
qed

lemma el_remove_ok:
  assumes "el_inv s" and "h \<in> pp_registered s" and "pp_idle s h"
  shows "\<exists>s'. el_removeHandler h s = Inr s' \<and> el_inv s' \<and>
    pp_registered s' = pp_registered s - {h}"
proof -
  have inv: "pp_inv s" "handler_map s = event_handler_map s" using assms(1) by (simp_all add: el_inv_def)
  let ?s = "s\<lparr>handler_map := (handler_map s)(eh_handle (eh_mem s h) := None)\<rparr>"
  have "pp_inv ?s" "h \<in> pp_registered ?s" "pp_idle ?s h" using inv assms by simp_all
  then obtain s' where s': "pp_removeHandler h ?s = Inr s'" "pp_inv s'"
    "pp_registered s' = pp_registered ?s - {h}"
    "event_handler_map s' = (event_handler_map ?s)(eh_handle (eh_mem ?s h) := None)"
    using pp_remove_ok [of ?s h] by blast
  moreover have "handler_map s (eh_handle (eh_mem s h)) \<noteq> None"
    using fd_owner_registered [OF inv(1) assms(2)] inv(2) by simp
  ultimately show ?thesis
    using inv pp_ops_frame(3) [OF s'(1)] by (simp add: el_removeHandler_def el_inv_def)
qed

text \<open>The event loop hands the contract of its poller on to its users.\<close>

interpretation event_loop: poller el_registerHandler el_updateHandler el_removeHandler
  "el_inv :: ('f, 'z) EventLoop_scheme \<Rightarrow> bool" pp_registered pp_fresh pp_idle
  by unfold_locales (simp_all add: el_register_ok el_update_ok el_remove_ok)

text \<open>Changing the interest of a registered handler always succeeds.\<close>

lemma el_change_ok:
  assumes "el_inv s" and "h \<in> pp_registered s"
    and f: "\<And>h. eh_handle (f h) = eh_handle h" "\<And>h. eh_index (f h) = eh_index h"
  shows "\<exists>s'. el_updateHandler h (change_handler h f s) = Inr s' \<and> el_inv s' \<and>
    pp_registered s' = pp_registered s \<and> pp_idle s' h"
proof -
  let ?s = "change_handler h f s"
  have "handler_map ?s = handler_map s" "event_handler_map ?s = event_handler_map s"
    by (simp_all add: change_handler_def)
  then have "el_inv ?s" "h \<in> pp_registered ?s"
    using assms(1,2) change_handler_inv [of f h s] f by (simp_all add: el_inv_def)
  from el_update_ok [OF this] show ?thesis using change_handler_inv [of f h s] f by simp
qed

lemma disableAll_ok:
  "el_inv s \<Longrightarrow> h \<in> pp_registered s \<Longrightarrow>
     \<exists>s'. disableAll h s = Inr s' \<and> el_inv s' \<and> pp_registered s' = pp_registered s \<and> pp_idle s' h"
  unfolding disableAll_def by (rule el_change_ok) (simp_all add: no_interest_def)

section \<open>Threads\<close>

text \<open>
  One loop thread and any number of threads that add functors. The loop thread waits in
  \<open>Polling\<close>; \<open>Dispatching\<close> is the time between the return of \<^verbatim>\<open>Wait\<close> and the call of
  \<^verbatim>\<open>handlePendingFunctors\<close>, when the waker may read its byte; in \<open>Draining\<close> it runs the
  functors it has taken (\<open>batch\<close>). \<open>adders\<close> counts the threads that have pushed a functor
  and not yet written to the pipe. \<open>added\<close> and \<open>executed\<close> record what was given to
  \<^verbatim>\<open>addFunctor\<close> and what has run.
\<close>

datatype loop_pc = Polling | Dispatching | Draining

record 'f threads =
  th_loop :: "'f EventLoop"
  th_pc :: loop_pc
  th_batch :: "'f list"
  th_adders :: nat
  th_added :: "'f list"
  th_executed :: "'f list"

inductive thread_step :: "nat \<Rightarrow> 'f threads \<Rightarrow> 'f threads \<Rightarrow> bool" for cap where
  push: "thread_step cap t
     (t\<lparr>th_loop := push_functor f (th_loop t), th_adders := Suc (th_adders t),
        th_added := th_added t @ [f]\<rparr>)"
| wake: "th_adders t = Suc n \<Longrightarrow> thread_step cap t
     (t\<lparr>th_loop := Waker_wake_up cap (th_loop t), th_adders := n\<rparr>)"
| wait_returns: "th_pc t = Polling \<Longrightarrow> thread_step cap t (t\<lparr>th_pc := Dispatching\<rparr>)"
| waker_reads: "th_pc t = Dispatching \<Longrightarrow> thread_step cap t
     (t\<lparr>th_loop := Waker_handleRead (th_loop t)\<rparr>)"
| take_batch: "th_pc t = Dispatching \<Longrightarrow> pop_functors (th_loop t) = (fs, l) \<Longrightarrow> thread_step cap t
     (t\<lparr>th_loop := l, th_batch := fs, th_pc := Draining\<rparr>)"
| run_next: "th_pc t = Draining \<Longrightarrow> th_batch t = f # fs \<Longrightarrow> thread_step cap t
     (t\<lparr>th_batch := fs, th_executed := th_executed t @ [f]\<rparr>)"
| wait_again: "th_pc t = Draining \<Longrightarrow> th_batch t = [] \<Longrightarrow> thread_step cap t (t\<lparr>th_pc := Polling\<rparr>)"

definition start_threads :: "'f EventLoop \<Rightarrow> 'f threads" where
  "start_threads l = \<lparr>th_loop = l, th_pc = Draining, th_batch = [], th_adders = 0,
     th_added = [], th_executed = []\<rparr>"

inductive reachable_threads :: "nat \<Rightarrow> 'f threads \<Rightarrow> bool" for cap where
  start: "queue_items (pending_functors l) = [] \<Longrightarrow> reachable_threads cap (start_threads l)"
| step: "reachable_threads cap t \<Longrightarrow> thread_step cap t t' \<Longrightarrow> reachable_threads cap t'"

definition pending :: "'f threads \<Rightarrow> 'f list" where
  "pending t = queue_items (pending_functors (th_loop t))"

definition threads_inv :: "'f threads \<Rightarrow> bool" where
  "threads_inv t \<longleftrightarrow>
     th_added t = th_executed t @ th_batch t @ pending t \<and>
     (th_pc t \<noteq> Draining \<longrightarrow> th_batch t = []) \<and>
     (th_pc t \<noteq> Dispatching \<and> pending t \<noteq> [] \<longrightarrow> 0 < waker_pipe (th_loop t) \<or> 0 < th_adders t)"

lemma queue_pop_all_items: "queue_pop_all [] q = (xs, q') \<Longrightarrow> xs = queue_items q \<and> queue_items q' = []"
  by (rule block_queue.pop_all_items)

lemma thread_step_inv:
  assumes "0 < cap"
  shows "thread_step cap t t' \<Longrightarrow> threads_inv t \<Longrightarrow> threads_inv t'"
proof (induction rule: thread_step.induct)
  case (take_batch t fs l)
  then show ?case
    by (auto simp: threads_inv_def pending_def pop_functors_def dest!: queue_pop_all_items
        split: prod.splits)
next
  case (wake t n)
  with assms show ?case by (auto simp: threads_inv_def pending_def Waker_wake_up_def)
qed (auto simp: threads_inv_def pending_def push_functor_def queue_push_def Waker_handleRead_def)

lemma reachable_threads_inv: "reachable_threads cap t \<Longrightarrow> 0 < cap \<Longrightarrow> threads_inv t"
proof (induction rule: reachable_threads.induct)
  case (start l)
  then show ?case by (simp add: threads_inv_def start_threads_def pending_def)
next
  case (step t t')
  then show ?case using thread_step_inv by blast
qed




section \<open>Properties\<close>

text \<open>
  C4. No wakeup is lost and every functor runs at most once, in the order of
  \<^verbatim>\<open>addFunctor\<close>. In every reachable state of the loop thread and the threads that add
  functors, whatever their interleaving, the functors added are those executed, then those of
  the current batch, then those still queued; and when the loop waits in \<^verbatim>\<open>poll\<close> while
  functors are queued and no thread is between its push and its write to the pipe, the pipe
  holds a byte, so that \<^verbatim>\<open>poll\<close> returns.
\<close>

theorem no_lost_wakeup:
  assumes "reachable_threads cap t" and "0 < cap"
  shows "th_added t = th_executed t @ th_batch t @ pending t \<and>
    (th_pc t = Polling \<and> th_adders t = 0 \<and> pending t \<noteq> [] \<longrightarrow> 0 < waker_pipe (th_loop t))"
  using reachable_threads_inv [OF assms] by (auto simp: threads_inv_def)

definition quiet_loop :: "'f EventLoop" where
  "quiet_loop = \<lparr>eh_mem = (\<lambda>_. new_EventHandler 0 0), poll_fds = [], event_handler_map = Map.empty,
     handler_map = Map.empty, pending_functors = new_Queue, waker_pipe = 0\<rparr>"

lemma quiet_reachable: "reachable_threads cap (start_threads quiet_loop)"
  by (rule reachable_threads.start) (simp add: quiet_loop_def new_Queue_def)

lemma added_reachable:
  "\<exists>t. reachable_threads cap t \<and> th_pc t = Polling \<and> th_adders t = 0 \<and> pending t = [7 :: nat]"
proof -
  let ?t0 = "start_threads (quiet_loop :: nat EventLoop)"
  let ?t1 = "?t0\<lparr>th_pc := Polling\<rparr>"
  have "reachable_threads cap ?t1"
    by (rule reachable_threads.step [OF quiet_reachable thread_step.wait_again]) (simp_all add: start_threads_def)
  note t2 = reachable_threads.step [OF this thread_step.push [of cap ?t1 7]]
  let ?t2 = "?t1\<lparr>th_loop := push_functor 7 (th_loop ?t1), th_adders := Suc (th_adders ?t1),
    th_added := th_added ?t1 @ [7]\<rparr>"
  have "reachable_threads cap (?t2\<lparr>th_loop := Waker_wake_up cap (th_loop ?t2), th_adders := 0\<rparr>)"
    by (rule reachable_threads.step [OF t2 thread_step.wake]) (simp add: start_threads_def)
  then show ?thesis
    by (rule exI [of _ "?t2\<lparr>th_loop := Waker_wake_up cap (th_loop ?t2), th_adders := 0\<rparr>", OF conjI])
      (simp add: start_threads_def pending_def Waker_wake_up_def push_functor_def queue_push_def
        quiet_loop_def new_Queue_def)
qed

theorem no_lost_wakeup_witness:
  "\<exists>t. reachable_threads 1 t \<and> th_pc t = Polling \<and> pending t = [7 :: nat] \<and> 0 < waker_pipe (th_loop t)"
proof -
  obtain t where t: "reachable_threads 1 t" "th_pc t = Polling" "th_adders t = 0" "pending t = [7 :: nat]"
    using added_reachable [of 1] by blast
  with no_lost_wakeup [OF t(1)] show ?thesis by auto
qed







text \<open>
  C31. A handler whose interest is switched off can still make the process abort: if, after
  \<^verbatim>\<open>disableAll\<close>, one \<^verbatim>\<open>Wait\<close> sees an event on its descriptor (\<^verbatim>\<open>poll\<close> reports
  \<^verbatim>\<open>POLLHUP\<close> and \<^verbatim>\<open>POLLERR\<close> whatever the interest is), then the assertion
  \<^verbatim>\<open>fds[index].revents == 0\<close> of \<^verbatim>\<open>removeHandler\<close> fails.
\<close>

theorem hangup_before_remove_aborts:
  assumes "el_inv s" and "h \<in> pp_registered s"
    and "\<And>fds ms. length fds = length (poll_fds s) \<Longrightarrow>
      \<exists>n rvs. poll fds ms = Polled n rvs \<and> length rvs = length fds \<and>
        n = length (filter (\<lambda>rv. rv \<noteq> 0) rvs) \<and> rvs ! nat (eh_index (eh_mem s h)) \<noteq> 0"
  shows "\<exists>s1 hs s2. disableAll h s = Inr s1 \<and> pp_Wait poll (-1) ts s1 = Inr (hs, s2) \<and>
    h \<in> set hs \<and> el_removeHandler h s2 = Inl Assertion"
proof -
  have inv: "pp_inv s" "handler_map s = event_handler_map s" using assms(1) by (simp_all add: el_inv_def)
  let ?s = "change_handler h no_interest s"
  have s: "pp_inv ?s" "h \<in> pp_registered ?s" "el_inv ?s" "eh_index (eh_mem ?s h) = eh_index (eh_mem s h)"
    using change_handler_inv [of no_interest h s] assms(1,2)
    by (simp_all add: no_interest_def el_inv_def change_handler_def)
  obtain s1 where s1: "pp_updateHandler h ?s = Inr s1" "pp_inv s1" "pp_registered s1 = pp_registered ?s"
    "map pfd_fd (poll_fds s1) = map pfd_fd (poll_fds ?s)" "event_handler_map s1 = event_handler_map ?s"
    "eh_mem s1 = eh_mem ?s"
    using pp_update_ok [OF s(1,2)] by blast
  have h1: "handler_map s1 = handler_map s" using pp_ops_frame(2) [OF s1(1)] by (simp add: change_handler_def)
  have en: "disableAll h s = Inr s1"
    using s1(1) fd_owner_registered [OF s(1,2)] inv(2)
    by (simp add: disableAll_def el_updateHandler_def) (simp add: change_handler_def)
  let ?i = "nat (eh_index (eh_mem s h))"
  have len: "length (poll_fds s1) = length (poll_fds s)" using s1(4) by (metis change_handler_frame(2) length_map)
  obtain n rvs where p: "poll (poll_fds s1) (poll_timeout ts) = Polled n rvs"
    "length rvs = length (poll_fds s1)" "n = length (filter (\<lambda>rv. rv \<noteq> 0) rvs)" "rvs ! ?i \<noteq> 0"
    using assms(3) [OF len] by blast
  then obtain fds where W: "pp_Wait poll (-1) ts s1 =
      Inr (owners s1 (ready_fds fds), report (ready_fds fds) (s1\<lparr>poll_fds := fds\<rparr>))"
    "map pfd_fd fds = map pfd_fd (poll_fds s1)" "map pfd_revents fds = rvs"
    using pp_Wait_result [OF s1(2), of poll ts] by (auto simp: poll_contract_def)
  have reg1: "h \<in> pp_registered s1" using s1(3) s(2) by simp
  note own = fd_owner_registered [OF s1(2) reg1]
  have idx: "eh_index (eh_mem s1 h) = eh_index (eh_mem s h)" using s1(6) s(4) by simp
  have lenf: "length fds = length (poll_fds s1)" using W(2) by (metis length_map)
  have i: "?i < length fds" using own idx lenf by simp
  have fdi: "pfd_fd (fds ! ?i) = eh_handle (eh_mem s1 h)"
  proof -
    have "map pfd_fd fds ! ?i = map pfd_fd (poll_fds s1) ! ?i" by (simp only: W(2))
    with i lenf own idx show ?thesis by (simp add: fd_owner_def)
  qed
  have rvi: "pfd_revents (fds ! ?i) \<noteq> 0" using W(3) p(4) i by (metis nth_map)
  have "fds ! ?i \<in> set (ready_fds fds)" using i rvi by (simp add: ready_fds_def)
  then have "h \<in> set (owners s1 (ready_fds fds))"
    using fdi own by (auto simp: owners_def image_iff intro!: bexI [of _ "fds ! ?i"])
  moreover have "el_removeHandler h (report (ready_fds fds) (s1\<lparr>poll_fds := fds\<rparr>)) = Inl Assertion"
    using rvi idx i own by (simp add: el_removeHandler_def pp_removeHandler_def report_handler Let_def)
  ultimately show ?thesis using en W(1) by blast
qed

lemma registered_loop: "\<exists>s :: nat EventLoop. el_inv s \<and> 0 \<in> pp_registered s"
proof -
  let ?l = "quiet_loop\<lparr>eh_mem := example_handlers\<rparr>"
  have inv: "el_inv ?l" by (simp add: el_inv_def pp_inv_def quiet_loop_def)
  have "pp_fresh ?l 0"
    by (simp add: pp_fresh_def quiet_loop_def example_handlers_def new_EventHandler_def)
  from el_register_ok [OF inv this] show ?thesis by fast
qed

theorem hangup_before_remove_aborts_witness:
  "\<exists>s :: nat EventLoop. \<exists>s1 hs s2. disableAll 0 s = Inr s1 \<and>
     pp_Wait (\<lambda>fds ms. Polled (length fds) (map (\<lambda>_. 16) fds)) (-1) (TimeStamp 0) s1 = Inr (hs, s2) \<and>
     el_removeHandler 0 s2 = Inl Assertion"
proof -
  let ?poll = "\<lambda>fds ms. Polled (length fds) (map (\<lambda>_. 16) fds)"
  obtain s where s: "el_inv s" "0 \<in> pp_registered (s :: nat EventLoop)" using registered_loop by blast
  have inv: "pp_inv s" using s(1) by (simp add: el_inv_def)
  have i: "nat (eh_index (eh_mem s 0)) < length (poll_fds s)"
    using fd_owner_registered [OF inv s(2)] by blast
  have "\<exists>n rvs. ?poll fds ms = Polled n rvs \<and> length rvs = length fds \<and>
      n = length (filter (\<lambda>rv. rv \<noteq> 0) rvs) \<and> rvs ! nat (eh_index (eh_mem s 0)) \<noteq> 0"
    if "length fds = length (poll_fds s)" for fds ms
  proof -
    have "filter (\<lambda>rv. rv \<noteq> 0) (map (\<lambda>_. 16 :: 16 word) fds) = map (\<lambda>_. 16) fds" by (induction fds) simp_all
    with that i show ?thesis by (intro exI [of _ "length fds"] exI [of _ "map (\<lambda>_. 16) fds"]) simp
  qed
  then obtain s1 hs s2 where "disableAll 0 s = Inr s1"
    "pp_Wait ?poll (-1) (TimeStamp 0) s1 = Inr (hs, s2)" "el_removeHandler 0 s2 = Inl Assertion"
    using hangup_before_remove_aborts [of s 0 ?poll "TimeStamp 0", OF s] by blast
  then show ?thesis by (intro exI conjI)
qed

end
