(* ===== verification/Rw_Tool.thy ===== *)
theory Rw_Tool
  imports Prelude
begin

text \<open>
  \<^verbatim>\<open>src/util/rwtool.h\<close>: reading from and writing to non-blocking descriptors. The kernel is
  a parameter: the list of the results of the successive system calls, of which each call of
  \<^verbatim>\<open>::read\<close> or \<^verbatim>\<open>::write\<close> takes the next. When the list is used up the descriptor
  would block: the call fails with \<^verbatim>\<open>EAGAIN\<close>.
\<close>

section \<open>System calls\<close>

datatype errno = EAGAIN | EINTR | ECONNRESET | EPIPE | Other_errno

text \<open>
  \<open>Bytes b\<close>: \<^verbatim>\<open>::read\<close> stored \<open>b\<close> and returned its length (0 at the end of the
  stream). \<open>Wrote n\<close>: \<^verbatim>\<open>::write\<close> accepted the first \<open>n\<close> bytes of what it was given.
\<close>

datatype read_result = Bytes string | Read_error errno

datatype write_result = Wrote nat | Write_error errno

definition kBufferSize :: nat where
  "kBufferSize = 4096"

section \<open>Reading\<close>

text \<open>
  \<^verbatim>\<open>read(fd, char*, size)\<close>: \<open>nleft\<close> bytes of room are left, \<open>got\<close> has been stored.
  The result is the returned count, the stored bytes and the rest of the script.
\<close>

fun read_buffer ::
  "read_result list \<Rightarrow> nat \<Rightarrow> string \<Rightarrow> int \<times> string \<times> read_result list" where
  "read_buffer rs nleft got =
     (if nleft = 0 then (int (length got), got, rs)
      else case rs of
        [] \<Rightarrow> (int (length got), got, [])
      | Bytes b # rs \<Rightarrow>
          if b \<noteq> [] then read_buffer rs (nleft - length b) (got @ b)
          else (int (length got), got, rs)
      | Read_error e # rs \<Rightarrow>
          (if e = EAGAIN then int (length got) else -1, got, rs))"

declare read_buffer.simps [simp del]

text \<open>
  \<^verbatim>\<open>read(fd, std::string&, size)\<close>: \<open>cnt\<close> counts the bytes read so far. The returned
  \<^verbatim>\<open>nread\<close> is the result of the last system call, also after \<^verbatim>\<open>EAGAIN\<close>, where it is
  \<open>-1\<close>; the type of the result is \<^verbatim>\<open>size_t\<close>.
\<close>

fun read_string ::
  "nat \<Rightarrow> read_result list \<Rightarrow> string \<Rightarrow> nat \<Rightarrow> 64 word \<times> string \<times> read_result list" where
  "read_string sz [] buffer cnt = (let nread = -1 in (nread, buffer, []))"
| "read_string sz (Bytes b # rs) buffer cnt =
     (if b \<noteq> [] then
        (let cnt = cnt + length b;
             buffer = buffer @ b
         in if length b \<noteq> sz then (of_nat (length b), buffer, rs)
            else read_string sz rs buffer cnt)
      else (of_nat cnt, buffer, rs))"
| "read_string sz (Read_error e # rs) buffer cnt =
     (case e of
        EAGAIN \<Rightarrow> (let nread = -1 in (nread, buffer, rs))
      | _ \<Rightarrow> (-1, buffer, rs))"

section \<open>Writing\<close>

text \<open>
  Every round passes the whole buffer again. \<open>wire\<close> collects the bytes the kernel has
  accepted.
\<close>

fun write_loop ::
  "string \<Rightarrow> nat \<Rightarrow> write_result list \<Rightarrow> nat \<Rightarrow> string \<Rightarrow> int \<times> string \<times> write_result list" where
  "write_loop p tot [] cnt wire = (int cnt, wire, [])"
| "write_loop p tot (Write_error e # rs) cnt wire =
     (if e = EINTR then (-1, wire, rs)
      else if e = EAGAIN then (int cnt, wire, rs)
      else (-1, wire, rs))"
| "write_loop p tot (Wrote nwrite # rs) cnt wire =
     (let cnt = cnt + nwrite;
          wire = wire @ take nwrite p
      in if cnt = tot then (int tot, wire, rs)
         else write_loop p tot rs cnt wire)"

definition write_bytes ::
  "string \<Rightarrow> nat \<Rightarrow> write_result list \<Rightarrow> int \<times> string \<times> write_result list" where
  "write_bytes buffer tot rs = write_loop buffer tot rs 0 []"

text \<open>
  \<^verbatim>\<open>readFile\<close>: the whole content. An \<^verbatim>\<open>ifstream\<close> that could not be opened reports the
  position \<open>-1\<close>, for which the constructor of \<^verbatim>\<open>std::vector\<close> throws; nothing catches it.
\<close>

definition readFile :: "(string \<Rightarrow> string option) \<Rightarrow> string \<Rightarrow> string checked" where
  "readFile files file_name =
     (case files file_name of
        None \<Rightarrow> Inl Process_abort
      | Some bytes \<Rightarrow> Inr bytes)"

section \<open>What reading delivers\<close>

text \<open>The bytes of a script, and the scripts a kernel can produce for reads of a given size.\<close>

fun script_bytes :: "read_result list \<Rightarrow> string" where
  "script_bytes [] = []"
| "script_bytes (Bytes b # rs) = b @ script_bytes rs"
| "script_bytes (Read_error e # rs) = script_bytes rs"

lemma script_bytes_append [simp]: "script_bytes (rs @ rs') = script_bytes rs @ script_bytes rs'"
  by (induction rs rule: script_bytes.induct) simp_all

definition full_reads :: "nat \<Rightarrow> read_result list \<Rightarrow> bool" where
  "full_reads sz rs \<longleftrightarrow> (\<forall>r \<in> set rs. \<exists>b. r = Bytes b \<and> length b = sz)"

lemma full_reads_simps [simp]:
  "full_reads sz []"
  "full_reads sz (r # rs) \<longleftrightarrow> (\<exists>b. r = Bytes b \<and> length b = sz) \<and> full_reads sz rs"
  by (auto simp: full_reads_def)

lemma read_string_full:
  "full_reads sz full \<Longrightarrow> 0 < sz \<Longrightarrow>
     read_string sz (full @ rs) buffer cnt =
     read_string sz rs (buffer @ script_bytes full) (cnt + length (script_bytes full))"
  by (induction full arbitrary: buffer cnt) (auto simp: Let_def add.assoc)

lemma read_string_used:
  "read_string sz rs buffer cnt = (n, buffer', rest) \<Longrightarrow>
     \<exists>used. rs = used @ rest \<and> buffer' = buffer @ script_bytes used \<and> (rs \<noteq> [] \<longrightarrow> used \<noteq> [])"
proof (induction sz rs buffer cnt rule: read_string.induct)
  case (1 sz buffer cnt)
  then show ?case by simp
next
  case (2 sz b rs buffer cnt)
  show ?case
  proof (cases "b \<noteq> [] \<and> length b = sz")
    case True
    with 2 obtain used where "rs = used @ rest" "buffer' = (buffer @ b) @ script_bytes used" by auto
    then show ?thesis by (intro exI [of _ "Bytes b # used"]) simp
  next
    case False
    with "2.prems" show ?thesis
      by (intro exI [of _ "[Bytes b]"]) (auto simp: Let_def split: if_splits)
  qed
next
  case (3 sz e rs buffer cnt)
  then show ?case by (intro exI [of _ "[Read_error e]"]) (cases e; simp)
qed

lemma read_buffer_eqs:
  "read_buffer rs 0 got = (int (length got), got, rs)"
  "0 < nleft \<Longrightarrow> read_buffer [] nleft got = (int (length got), got, [])"
  "0 < nleft \<Longrightarrow> read_buffer (Bytes b # rs) nleft got =
     (if b \<noteq> [] then read_buffer rs (nleft - length b) (got @ b)
      else (int (length got), got, rs))"
  "0 < nleft \<Longrightarrow> read_buffer (Read_error e # rs) nleft got =
     (if e = EAGAIN then int (length got) else -1, got, rs)"
  by (subst read_buffer.simps; simp)+

text \<open>Each call of \<^verbatim>\<open>::read\<close> is given the room that is left.\<close>

fun fits :: "nat \<Rightarrow> read_result list \<Rightarrow> bool" where
  "fits nleft [] = True"
| "fits nleft (Bytes b # rs) = (length b \<le> nleft \<and> fits (nleft - length b) rs)"
| "fits nleft (Read_error e # rs) = True"

lemma read_buffer_sound:
  "read_buffer rs nleft got = (n, got', rest) \<Longrightarrow> fits nleft rs \<Longrightarrow>
     \<exists>used. rs = used @ rest \<and> got' = got @ script_bytes used \<and>
       length got' \<le> length got + nleft \<and> (n = int (length got') \<or> n = -1)"
proof (induction rs arbitrary: nleft got)
  case Nil
  then show ?case by (cases "nleft = 0") (auto simp: read_buffer_eqs)
next
  case (Cons r rs)
  show ?case
  proof (cases "nleft = 0")
    case True
    with Cons.prems show ?thesis by (auto simp: read_buffer_eqs)
  next
    case False
    show ?thesis
    proof (cases "\<exists>b. r = Bytes b \<and> b \<noteq> []")
      case True
      then obtain b where b: "r = Bytes b" "b \<noteq> []" by blast
      with False Cons.prems have "read_buffer rs (nleft - length b) (got @ b) = (n, got', rest)"
        "fits (nleft - length b) rs" "length b \<le> nleft"
        by (simp_all add: read_buffer_eqs)
      from Cons.IH [OF this(1,2)] this(3) b obtain used where
        "rs = used @ rest" "got' = (got @ b) @ script_bytes used"
        "length got' \<le> length got + nleft" "n = int (length got') \<or> n = -1"
        by auto
      with b show ?thesis by (intro exI [of _ "r # used"]) simp
    next
      case one: False
      with False Cons.prems show ?thesis
        by (intro exI [of _ "[r]"], cases r) (auto simp: read_buffer_eqs split: if_splits)
    qed
  qed
qed

section \<open>What writing puts on the wire\<close>

definition accepted :: "string \<Rightarrow> nat list \<Rightarrow> string" where
  "accepted p ns = concat (map (\<lambda>n. take n p) ns)"

lemma write_loop_rounds:
  "(\<And>k. k \<le> length ns \<Longrightarrow> 0 < k \<Longrightarrow> cnt + sum_list (take k ns) \<noteq> tot) \<Longrightarrow>
     write_loop p tot (map Wrote ns @ rs) cnt wire =
     write_loop p tot rs (cnt + sum_list ns) (wire @ accepted p ns)"
proof (induction ns arbitrary: cnt wire)
  case Nil
  then show ?case by (simp add: accepted_def)
next
  case (Cons n ns)
  have "cnt + n \<noteq> tot" using Cons.prems [of 1] by simp
  moreover have "cnt + n + sum_list (take k ns) \<noteq> tot" if "k \<le> length ns" "0 < k" for k
    using Cons.prems [of "Suc k"] that by (simp add: add.assoc)
  ultimately show ?case
    using Cons.IH [of "cnt + n" "wire @ take n p"] by (simp add: accepted_def Let_def add.assoc)
qed

end
