(* ===== verification/Tcp_Connection.thy ===== *)
theory Tcp_Connection
  imports Event_Loop Rw_Tool
begin

text \<open>
  \<^verbatim>\<open>src/core/tcp_connection.h\<close> and \<^verbatim>\<open>tcp_connection.cpp\<close> (without the
  \<^verbatim>\<open>__linux__\<close> branches, which refer to names that are not declared): one connection on
  its event loop, with the kernel's answers to its reads and writes.
\<close>

section \<open>Functors\<close>

text \<open>
  What the server binds into functors. The handlers of the waker, of the accepter and of a
  connection have one each; the others are handed to \<^verbatim>\<open>addFunctor\<close>. Connections are
  named by their address.
\<close>

datatype functor_t =
    WakerRead
  | AccepterRead
  | ConnRead nat
  | ConnWrite nat
  | HandleConnection nat
  | WriteInLoop nat string
  | WriteComplete nat string
  | HandleClose nat
  | CloseConnection nat

datatype conn_action = Write string | Shutdown

section \<open>State\<close>

text \<open>
  \<open>'c\<close> is the type of the user's context (\<^verbatim>\<open>std::any\<close>), which is empty at first.
\<close>

record 'c TcpConnection =
  tc_address :: nat
  tc_event_handler :: nat
  tc_fd :: int
  tc_disconnected :: bool
  tc_sendfile_fd :: int
  tc_read_buf :: string
  tc_write_buf :: string
  tc_context :: "'c option"

text \<open>
  The connection in its surroundings: the loop it lives on; the kernel's answers to come, the
  bytes it has accepted and whether the sending direction is shut down; the accepter's count of
  connections; and the number of times the close callback has run.
\<close>

record 'c conn_state =
  cs_loop :: "functor_t EventLoop"
  cs_conn :: "'c TcpConnection"
  cs_reads :: "read_result list"
  cs_writes :: "write_result list"
  cs_wire :: string
  cs_shut :: bool
  cs_number :: int
  cs_close_requests :: nat

text \<open>
  The callbacks of the user: what they do to the connection is a list of actions. \<open>ce_cap\<close> is
  the capacity of the waker's pipe.
\<close>

record 'c conn_env =
  ce_cap :: nat
  ce_come :: "'c"
  ce_message :: "'c option \<Rightarrow> string \<Rightarrow> (conn_action list \<times> 'c option) checked"
  ce_write_complete :: "'c option \<Rightarrow> conn_action list"

definition defaultReadBuffSize :: nat where
  "defaultReadBuffSize = 1024"

abbreviation update_conn ::
  "('c TcpConnection \<Rightarrow> 'c TcpConnection) \<Rightarrow> 'c conn_state \<Rightarrow> 'c conn_state" where
  "update_conn f s \<equiv> s\<lparr>cs_conn := f (cs_conn s)\<rparr>"

definition conn_handler :: "'c conn_state \<Rightarrow> functor_t EventHandler" where
  "conn_handler s = eh_mem (cs_loop s) (tc_event_handler (cs_conn s))"

text \<open>An operation of the loop, on the loop of the connection.\<close>

definition on_loop ::
  "(functor_t EventLoop \<Rightarrow> functor_t EventLoop checked) \<Rightarrow> 'c conn_state \<Rightarrow> 'c conn_state checked" where
  "on_loop f s = checked_bind (f (cs_loop s)) (\<lambda>l. Inr (s\<lparr>cs_loop := l\<rparr>))"

definition add_functor :: "'c conn_env \<Rightarrow> functor_t \<Rightarrow> 'c conn_state \<Rightarrow> 'c conn_state" where
  "add_functor e f s = s\<lparr>cs_loop := addFunctor (ce_cap e) f (cs_loop s)\<rparr>"

text \<open>Updates of the connection are moved behind the others.\<close>

lemma conn_state_commute [simp]:
  "s\<lparr>cs_conn := c, cs_loop := l\<rparr> = s\<lparr>cs_loop := l, cs_conn := c\<rparr>"
  "s\<lparr>cs_conn := c, cs_shut := b\<rparr> = s\<lparr>cs_shut := b, cs_conn := c\<rparr>"
  "s\<lparr>cs_conn := c, cs_reads := rs\<rparr> = s\<lparr>cs_reads := rs, cs_conn := c\<rparr>"
  "s\<lparr>cs_conn := c, cs_close_requests := n\<rparr> = s\<lparr>cs_close_requests := n, cs_conn := c\<rparr>"
  by simp_all

section \<open>Operations\<close>

definition new_TcpConnection :: "nat \<Rightarrow> nat \<Rightarrow> int \<Rightarrow> 'c TcpConnection" where
  "new_TcpConnection a eh fd =
     \<lparr>tc_address = a, tc_event_handler = eh, tc_fd = fd, tc_disconnected = False, tc_sendfile_fd = -1,
      tc_read_buf = [], tc_write_buf = [], tc_context = None\<rparr>"

text \<open>
  The constructor: a handler at the address \<open>eh\<close> on the socket \<open>fd\<close>, with the callbacks of the
  connection, and one more connection for the accepter.
\<close>

definition construct_connection ::
  "nat \<Rightarrow> nat \<Rightarrow> int \<Rightarrow> functor_t EventLoop \<Rightarrow> int \<Rightarrow> 'c conn_state" where
  "construct_connection a eh fd l number =
     (let h = setWriteCallBack (ConnWrite a) (setReadCallBack (ConnRead a) (new_EventHandler fd kEventNone))
      in \<lparr>cs_loop = l\<lparr>eh_mem := (eh_mem l)(eh := h)\<rparr>, cs_conn = new_TcpConnection a eh fd,
          cs_reads = [], cs_writes = [], cs_wire = [], cs_shut = False,
          cs_number = number + 1, cs_close_requests = 0\<rparr>)"

definition handleConnection :: "'c conn_env \<Rightarrow> 'c conn_state \<Rightarrow> 'c conn_state checked" where
  "handleConnection e s =
     checked_bind (on_loop (el_registerHandler (tc_event_handler (cs_conn s))) s) (\<lambda>s.
     checked_bind (on_loop (enableRead (tc_event_handler (cs_conn s))) s) (\<lambda>s.
       Inr (update_conn (\<lambda>c. c\<lparr>tc_context := Some (ce_come e)\<rparr>) s)))"

definition hasContentToSend :: "'c TcpConnection \<Rightarrow> bool" where
  "hasContentToSend c \<longleftrightarrow> tc_write_buf c \<noteq> [] \<or> tc_sendfile_fd c \<ge> 0"

definition handleClose :: "'c conn_state \<Rightarrow> 'c conn_state checked" where
  "handleClose s =
     checked_bind (on_loop (disableAll (tc_event_handler (cs_conn s))) s) (\<lambda>s.
       Inr (s\<lparr>cs_close_requests := cs_close_requests s + 1\<rparr>))"

definition conn_close :: "'c conn_state \<Rightarrow> 'c conn_state checked" where
  "conn_close s =
     (let s = update_conn (\<lambda>c. c\<lparr>tc_disconnected := True\<rparr>) s
      in if hasContentToSend (cs_conn s) then Inr s else handleClose s)"

definition closeConnection :: "'c conn_state \<Rightarrow> 'c conn_state checked" where
  "closeConnection s =
     (let s = update_conn (\<lambda>c. c\<lparr>tc_disconnected := True\<rparr>) s;
          s = s\<lparr>cs_number := cs_number s - 1\<rparr>
      in on_loop (el_removeHandler (tc_event_handler (cs_conn s))) s)"

definition conn_write :: "'c conn_env \<Rightarrow> string \<Rightarrow> 'c conn_state \<Rightarrow> 'c conn_state" where
  "conn_write e data s = add_functor e (WriteInLoop (tc_address (cs_conn s)) data) s"

definition conn_shutdown :: "'c conn_state \<Rightarrow> 'c conn_state" where
  "conn_shutdown s = s\<lparr>cs_shut := True\<rparr>"

fun do_actions :: "'c conn_env \<Rightarrow> conn_action list \<Rightarrow> 'c conn_state \<Rightarrow> 'c conn_state" where
  "do_actions e [] s = s"
| "do_actions e (Write data # as) s = do_actions e as (conn_write e data s)"
| "do_actions e (Shutdown # as) s = do_actions e as (conn_shutdown s)"

text \<open>\<^verbatim>\<open>std::string::substr\<close> throws if the position is beyond the end.\<close>

definition substr :: "string \<Rightarrow> int \<Rightarrow> string checked" where
  "substr str pos =
     (if 0 \<le> pos \<and> nat pos \<le> length str then Inr (drop (nat pos) str) else Inl Process_abort)"

text \<open>
  \<^verbatim>\<open>qg::write\<close> on the connection's socket; its result, a \<^verbatim>\<open>ssize_t\<close>, is stored in an
  \<^verbatim>\<open>int\<close>.
\<close>

definition socket_write :: "string \<Rightarrow> 'c conn_state \<Rightarrow> int \<times> 'c conn_state" where
  "socket_write data s =
     (case write_bytes data (length data) (cs_writes s) of
        (n, wire, ws) \<Rightarrow>
          (sint (word_of_int n :: 32 word), s\<lparr>cs_writes := ws, cs_wire := cs_wire s @ wire\<rparr>))"

definition writeInLoop :: "'c conn_env \<Rightarrow> string \<Rightarrow> 'c conn_state \<Rightarrow> 'c conn_state checked" where
  "writeInLoop e data s =
     (if tc_disconnected (cs_conn s) then Inr s
      else
        let len = int (length data);
            canWriteDirect = (\<not> isWriting (conn_handler s) \<and> tc_write_buf (cs_conn s) = []);
            (nwrite, s) = (if canWriteDirect then socket_write data s else (0, s));
            s = (if canWriteDirect \<and> nwrite > 0 \<and> nwrite = len \<and> tc_sendfile_fd (cs_conn s) < 0
                 then add_functor e (WriteComplete (tc_address (cs_conn s)) (tc_write_buf (cs_conn s))) s
                 else s)
        in checked_bind (substr data nwrite) (\<lambda>rest.
             let s = update_conn (\<lambda>c. c\<lparr>tc_write_buf := tc_write_buf c @ rest\<rparr>) s
             in if hasContentToSend (cs_conn s) \<and> \<not> isWriting (conn_handler s)
                then on_loop (enableWrite (tc_event_handler (cs_conn s))) s
                else Inr s))"

definition handleWrite :: "'c conn_env \<Rightarrow> 'c conn_state \<Rightarrow> 'c conn_state checked" where
  "handleWrite e s =
     (if tc_write_buf (cs_conn s) = [] then Inr s
      else
        case socket_write (tc_write_buf (cs_conn s)) s of
          (nwrite, s) \<Rightarrow>
            if nwrite \<ge> 0 then
              checked_bind (substr (tc_write_buf (cs_conn s)) nwrite) (\<lambda>rest.
                let s = update_conn (\<lambda>c. c\<lparr>tc_write_buf := rest\<rparr>) s
                in if rest = [] then
                     checked_bind (on_loop (disableWrite (tc_event_handler (cs_conn s))) s) (\<lambda>s.
                       Inr (add_functor e (WriteComplete (tc_address (cs_conn s)) (tc_write_buf (cs_conn s))) s))
                   else Inr s)
            else handleClose (update_conn (\<lambda>c. c\<lparr>tc_disconnected := True\<rparr>) s))"

text \<open>
  The loop of \<^verbatim>\<open>handleRead\<close>: \<open>buf\<close> is not emptied between two reads. The result of
  \<^verbatim>\<open>qg::read\<close>, a \<^verbatim>\<open>size_t\<close>, is stored in the \<^verbatim>\<open>int\<close> \<open>n\<close>.
\<close>

definition size_t_to_int :: "64 word \<Rightarrow> int" where
  "size_t_to_int r = sint (ucast r :: 32 word)"

lemma size_t_to_int_minus_1 [simp]: "size_t_to_int (-1) = -1"
proof -
  have "(ucast (-1 :: 64 word) :: 32 word) = -1"
    by (rule bit_word_eqI) (simp add: bit_simps)
  then show ?thesis by (simp add: size_t_to_int_def)
qed

lemma size_t_to_int_small [simp]: "n < 2 ^ 31 \<Longrightarrow> size_t_to_int (of_nat n) = int n"
proof -
  assume n: "n < 2 ^ 31"
  have "(ucast (of_nat n :: 64 word) :: 32 word) = of_nat n"
    by (rule bit_word_eqI) (simp add: bit_simps)
  moreover have "sint (of_nat n :: 32 word) = int n"
    using n by (simp add: signed_of_nat signed_take_bit_int_eq_self)
  ultimately show ?thesis by (simp add: size_t_to_int_def)
qed

lemma read_string_shorter:
  assumes "read_string sz rs buf cnt = (r, buf', rs')" and "0 < size_t_to_int r"
  shows "length rs' < length rs"
proof -
  have "rs \<noteq> []" using assms by auto
  with read_string_used [OF assms(1)] obtain used where "rs = used @ rs'" "used \<noteq> []" by blast
  then show ?thesis by (cases used) simp_all
qed

function read_all ::
  "read_result list \<Rightarrow> string \<Rightarrow> int \<Rightarrow> string \<Rightarrow> int \<times> string \<times> read_result list" where
  "read_all rs buf cnt read_buf =
     (case read_string defaultReadBuffSize rs buf 0 of
        (r, buf, rs') \<Rightarrow>
          let n = size_t_to_int r
          in if n > 0 then read_all rs' buf (cnt + n) (read_buf @ buf)
             else (cnt, read_buf, rs'))"
  by pat_completeness auto

termination
  by (relation "measure (\<lambda>(rs, _). length rs)") (auto dest: read_string_shorter [OF sym])

declare read_all.simps [simp del]

definition handleRead :: "'c conn_env \<Rightarrow> 'c conn_state \<Rightarrow> 'c conn_state checked" where
  "handleRead e s =
     (case read_all (cs_reads s) [] 0 (tc_read_buf (cs_conn s)) of
        (cnt, read_buf, rs) \<Rightarrow>
          let s = s\<lparr>cs_reads := rs\<rparr>;
              s = update_conn (\<lambda>c. c\<lparr>tc_read_buf := read_buf\<rparr>) s
          in if cnt > 0 then
               checked_bind (ce_message e (tc_context (cs_conn s)) (tc_read_buf (cs_conn s))) (\<lambda>(as, ctx).
                 let s = do_actions e as (update_conn (\<lambda>c. c\<lparr>tc_context := ctx\<rparr>) s)
                 in Inr (update_conn (\<lambda>c. c\<lparr>tc_read_buf := []\<rparr>) s))
             else if cnt = 0 then conn_close s
             else handleClose (update_conn (\<lambda>c. c\<lparr>tc_disconnected := True\<rparr>) s))"

text \<open>The functors of one connection, and the dispatching of its events.\<close>

definition conn_functor :: "'c conn_env \<Rightarrow> functor_t \<Rightarrow> 'c conn_state \<Rightarrow> 'c conn_state checked" where
  "conn_functor e f s =
     (case f of
        ConnRead _ \<Rightarrow> handleRead e s
      | ConnWrite _ \<Rightarrow> handleWrite e s
      | HandleConnection _ \<Rightarrow> handleConnection e s
      | WriteInLoop _ data \<Rightarrow> writeInLoop e data s
      | WriteComplete _ buf \<Rightarrow> Inr (do_actions e (ce_write_complete e (tc_context (cs_conn s))) s)
      | CloseConnection _ \<Rightarrow> closeConnection s
      | _ \<Rightarrow> Inr s)"

definition conn_event :: "'c conn_env \<Rightarrow> 'c conn_state \<Rightarrow> 'c conn_state checked" where
  "conn_event e s = HandleEvent conn_handler (conn_functor e) s"

section \<open>Reading\<close>

lemma read_all_step:
  "read_string defaultReadBuffSize rs buf 0 = (r, buf', rs') \<Longrightarrow>
     read_all rs buf cnt read_buf =
     (if size_t_to_int r > 0 then read_all rs' buf' (cnt + size_t_to_int r) (read_buf @ buf')
      else (cnt, read_buf, rs'))"
  by (subst read_all.simps) simp

lemma read_all_Nil [simp]: "read_all [] buf cnt read_buf = (cnt, read_buf, [])"
  by (subst read_all_step [where r = "-1" and buf' = buf and rs' = "[]"]) simp_all

lemma read_string_short:
  assumes "full_reads defaultReadBuffSize full" and "b \<noteq> []" and "length b < defaultReadBuffSize"
  shows "read_string defaultReadBuffSize (full @ Bytes b # rs) buf 0 =
    (of_nat (length b), buf @ script_bytes full @ b, rs)"
  using read_string_full [OF assms(1), of "Bytes b # rs" buf 0] assms(2,3)
  by (simp add: defaultReadBuffSize_def)

lemma short_length: "length b < defaultReadBuffSize \<Longrightarrow> size_t_to_int (of_nat (length b)) = int (length b)"
  by (rule size_t_to_int_small) (simp add: defaultReadBuffSize_def)

lemma read_all_burst:
  assumes "full_reads defaultReadBuffSize full" and "b \<noteq> []" and "length b < defaultReadBuffSize"
  shows "read_all (full @ [Bytes b]) [] 0 read_buf =
    (int (length b), read_buf @ script_bytes full @ b, [])"
  using read_all_step [OF read_string_short [OF assms], of "[]"] short_length [OF assms(3)] assms(2)
  by simp

lemma read_all_blocks:
  assumes "full_reads defaultReadBuffSize full"
  shows "read_all full [] 0 read_buf = (0, read_buf, [])"
proof -
  have "read_string defaultReadBuffSize full [] 0 = (-1, script_bytes full, [])"
    using read_string_full [OF assms, of "[]" "[]" 0] by (simp add: defaultReadBuffSize_def)
  from read_all_step [OF this, of 0 read_buf] show ?thesis by simp
qed

lemma read_all_two:
  assumes "b \<noteq> []" "length b < defaultReadBuffSize" and "b' \<noteq> []" "length b' < defaultReadBuffSize"
  shows "read_all [Bytes b, Bytes b'] [] 0 read_buf =
    (int (length b) + int (length b'), read_buf @ b @ b @ b', [])"
proof -
  have full: "full_reads defaultReadBuffSize []" by simp
  show ?thesis
    using read_all_step [OF read_string_short [OF full assms(1,2)], of "[Bytes b']"]
      read_all_step [OF read_string_short [OF full assms(3,4)], of "[]" b]
      short_length [OF assms(2)] short_length [OF assms(4)] assms(1,3)
    by simp
qed

lemma do_actions_read_buf:
  "update_conn (\<lambda>c. c\<lparr>tc_read_buf := x\<rparr>) (do_actions e as s) =
   do_actions e as (update_conn (\<lambda>c. c\<lparr>tc_read_buf := x\<rparr>) s)"
  by (induction e as s rule: do_actions.induct)
    (simp_all add: conn_write_def add_functor_def conn_shutdown_def)

text \<open>What \<^verbatim>\<open>handleRead\<close> does once \<open>data\<close> has been gathered.\<close>

definition deliver :: "'c conn_env \<Rightarrow> string \<Rightarrow> 'c conn_state \<Rightarrow> 'c conn_state checked" where
  "deliver e data s =
     checked_bind (ce_message e (tc_context (cs_conn s)) data) (\<lambda>(as, ctx).
       Inr (do_actions e as (update_conn (\<lambda>c. c\<lparr>tc_context := ctx\<rparr>) s)))"

lemma handleRead_deliver:
  assumes "read_all (cs_reads s) [] 0 [] = (cnt, data, [])" and "0 < cnt"
    and "tc_read_buf (cs_conn s) = []"
  shows "handleRead e s = deliver e data (s\<lparr>cs_reads := []\<rparr>)"
  using assms
  by (auto simp: handleRead_def deliver_def do_actions_read_buf checked_bind_def
      split: sum.splits intro!: arg_cong [where f = "do_actions e _"])

section \<open>Interest\<close>

definition conn_ok :: "'c conn_state \<Rightarrow> bool" where
  "conn_ok s \<longleftrightarrow> el_inv (cs_loop s) \<and> tc_event_handler (cs_conn s) \<in> pp_registered (cs_loop s)"

lemma el_update_mem: "el_updateHandler h l = Inr l' \<Longrightarrow> h \<in> pp_registered l \<Longrightarrow> pp_inv l \<Longrightarrow> eh_mem l' = eh_mem l"
  using pp_update_ok [of l h] by (auto simp: el_updateHandler_def split: if_splits)

lemma on_loop_change:
  assumes "conn_ok s"
    and f: "\<And>h. eh_handle (f h) = eh_handle h" "\<And>h. eh_index (f h) = eh_index h"
  shows "\<exists>l. on_loop (\<lambda>l. el_updateHandler (tc_event_handler (cs_conn s))
        (change_handler (tc_event_handler (cs_conn s)) f l)) s = Inr (s\<lparr>cs_loop := l\<rparr>) \<and>
    conn_ok (s\<lparr>cs_loop := l\<rparr>) \<and> conn_handler (s\<lparr>cs_loop := l\<rparr>) = f (conn_handler s)"
proof -
  let ?h = "tc_event_handler (cs_conn s)"
  have inv: "el_inv (cs_loop s)" "?h \<in> pp_registered (cs_loop s)" using assms(1) by (simp_all add: conn_ok_def)
  from el_change_ok [OF inv f] obtain l where l:
    "el_updateHandler ?h (change_handler ?h f (cs_loop s)) = Inr l" "el_inv l"
    "pp_registered l = pp_registered (cs_loop s)" by blast
  have "eh_mem l = eh_mem (change_handler ?h f (cs_loop s))"
    using l(1) by (rule el_update_mem)
      (use inv f change_handler_inv [of f ?h "cs_loop s"] in \<open>simp_all add: el_inv_def\<close>)
  then have "eh_mem l ?h = f (eh_mem (cs_loop s) ?h)" by (simp add: change_handler_def)
  with l inv show ?thesis
    by (intro exI [of _ l]) (simp add: on_loop_def conn_ok_def conn_handler_def)
qed

text \<open>Handing over a functor touches nothing but the queue and the pipe.\<close>

lemma addFunctor_frame [simp]:
  "eh_mem (addFunctor cap f l) = eh_mem l" "poll_fds (addFunctor cap f l) = poll_fds l"
  "event_handler_map (addFunctor cap f l) = event_handler_map l"
  "handler_map (addFunctor cap f l) = handler_map l"
  by (simp_all add: addFunctor_def Waker_wake_up_def push_functor_def)

lemma addFunctor_inv [simp]:
  "el_inv (addFunctor cap f l) = el_inv l"
  "pp_registered (addFunctor cap f l) = pp_registered l"
  using pp_inv_cong [of "addFunctor cap f l" l] by (simp_all add: el_inv_def)

lemma add_functor_frame [simp]:
  "cs_conn (add_functor e f s) = cs_conn s" "cs_wire (add_functor e f s) = cs_wire s"
  "cs_reads (add_functor e f s) = cs_reads s" "cs_writes (add_functor e f s) = cs_writes s"
  "cs_number (add_functor e f s) = cs_number s"
  "cs_close_requests (add_functor e f s) = cs_close_requests s"
  "conn_ok (add_functor e f s) = conn_ok s" "conn_handler (add_functor e f s) = conn_handler s"
  by (simp_all add: add_functor_def conn_ok_def conn_handler_def)

lemma do_actions_frame [simp]:
  "cs_conn (do_actions e as s) = cs_conn s" "cs_wire (do_actions e as s) = cs_wire s"
  "cs_reads (do_actions e as s) = cs_reads s" "cs_writes (do_actions e as s) = cs_writes s"
  "cs_number (do_actions e as s) = cs_number s"
  "cs_close_requests (do_actions e as s) = cs_close_requests s"
  "conn_ok (do_actions e as s) = conn_ok s" "conn_handler (do_actions e as s) = conn_handler s"
  by (induction e as s rule: do_actions.induct)
    (simp_all add: conn_write_def conn_shutdown_def conn_ok_def conn_handler_def add_functor_def)

text \<open>Fields that do not matter to the handler.\<close>

lemma conn_ok_frame [simp]:
  "conn_ok (s\<lparr>cs_reads := rs\<rparr>) = conn_ok s" "conn_ok (s\<lparr>cs_writes := ws\<rparr>) = conn_ok s"
  "conn_ok (s\<lparr>cs_wire := w\<rparr>) = conn_ok s" "conn_ok (s\<lparr>cs_close_requests := n\<rparr>) = conn_ok s"
  "conn_handler (s\<lparr>cs_reads := rs\<rparr>) = conn_handler s"
  "conn_handler (s\<lparr>cs_writes := ws\<rparr>) = conn_handler s"
  "conn_handler (s\<lparr>cs_wire := w\<rparr>) = conn_handler s"
  "conn_handler (s\<lparr>cs_close_requests := n\<rparr>) = conn_handler s"
  by (simp_all add: conn_ok_def conn_handler_def)

lemma conn_ok_update [simp]:
  "tc_event_handler c = tc_event_handler (cs_conn s) \<Longrightarrow> conn_ok (s\<lparr>cs_conn := c\<rparr>) = conn_ok s"
  "tc_event_handler c = tc_event_handler (cs_conn s) \<Longrightarrow> conn_handler (s\<lparr>cs_conn := c\<rparr>) = conn_handler s"
  by (simp_all add: conn_ok_def conn_handler_def)

text \<open>The three changes of interest a connection makes.\<close>

lemma conn_interest:
  assumes "conn_ok s"
  shows "\<exists>l. on_loop (enableWrite (tc_event_handler (cs_conn s))) s = Inr (s\<lparr>cs_loop := l\<rparr>) \<and>
      conn_ok (s\<lparr>cs_loop := l\<rparr>) \<and>
      conn_handler (s\<lparr>cs_loop := l\<rparr>) = setIEvents kEventWrite (conn_handler s)"
    and "\<exists>l. on_loop (disableWrite (tc_event_handler (cs_conn s))) s = Inr (s\<lparr>cs_loop := l\<rparr>) \<and>
      conn_ok (s\<lparr>cs_loop := l\<rparr>) \<and>
      conn_handler (s\<lparr>cs_loop := l\<rparr>) = clear_interest kEventWrite (conn_handler s)"
    and "\<exists>l. on_loop (disableAll (tc_event_handler (cs_conn s))) s = Inr (s\<lparr>cs_loop := l\<rparr>) \<and>
      conn_ok (s\<lparr>cs_loop := l\<rparr>) \<and> conn_handler (s\<lparr>cs_loop := l\<rparr>) = no_interest (conn_handler s)"
  using on_loop_change [OF assms, of "setIEvents kEventWrite"]
    on_loop_change [OF assms, of "clear_interest kEventWrite"] on_loop_change [OF assms, of no_interest]
  unfolding enableWrite_def [abs_def] disableWrite_def [abs_def] disableAll_def [abs_def]
  by (simp_all add: setIEvents_def clear_interest_def no_interest_def)

section \<open>Closing\<close>

definition conn_callbacks :: "'c conn_state \<Rightarrow> bool" where
  "conn_callbacks s \<longleftrightarrow>
     eh_read_cb (conn_handler s) = Some (ConnRead (tc_address (cs_conn s))) \<and>
     eh_write_cb (conn_handler s) = Some (ConnWrite (tc_address (cs_conn s))) \<and>
     eh_error_cb (conn_handler s) = None"

definition open_inv :: "'c conn_state \<Rightarrow> bool" where
  "open_inv s \<longleftrightarrow> conn_ok s \<and> conn_callbacks s \<and> isReading (conn_handler s) \<and> cs_close_requests s = 0"

definition closed_inv :: "'c conn_state \<Rightarrow> bool" where
  "closed_inv s \<longleftrightarrow> conn_ok s \<and> conn_callbacks s \<and>
     \<not> isReading (conn_handler s) \<and> \<not> isWriting (conn_handler s) \<and>
     tc_disconnected (cs_conn s) \<and> cs_close_requests s = 1"

lemmas inv_defs = open_inv_def closed_inv_def conn_callbacks_def

lemma handleClose_ok:
  assumes "open_inv s" and "tc_disconnected (cs_conn s)"
  shows "\<exists>s'. handleClose s = Inr s' \<and> closed_inv s' \<and>
    eh_revents (conn_handler s') = eh_revents (conn_handler s)"
proof -
  obtain l where l: "on_loop (disableAll (tc_event_handler (cs_conn s))) s = Inr (s\<lparr>cs_loop := l\<rparr>)"
    "conn_ok (s\<lparr>cs_loop := l\<rparr>)" "conn_handler (s\<lparr>cs_loop := l\<rparr>) = no_interest (conn_handler s)"
    using conn_interest(3) [of s] assms(1) by (auto simp: open_inv_def)
  let ?s = "(s\<lparr>cs_loop := l\<rparr>)\<lparr>cs_close_requests := cs_close_requests s + 1\<rparr>"
  have "closed_inv ?s"
    using l assms by (simp only: inv_defs conn_ok_frame) (simp add: no_interest_def isReading_def isWriting_def kEventNone_def)
  moreover have "eh_revents (conn_handler ?s) = eh_revents (conn_handler s)"
    using l(3) by (simp only: conn_ok_frame) (simp add: no_interest_def)
  ultimately show ?thesis using l(1) by (simp add: handleClose_def)
qed

lemma open_inv_frame [simp]:
  "tc_event_handler c = tc_event_handler (cs_conn s) \<Longrightarrow> tc_address c = tc_address (cs_conn s) \<Longrightarrow>
     open_inv (s\<lparr>cs_conn := c\<rparr>) = open_inv s"
  "open_inv (s\<lparr>cs_reads := rs\<rparr>) = open_inv s" "open_inv (s\<lparr>cs_writes := ws\<rparr>) = open_inv s"
  "open_inv (s\<lparr>cs_wire := w\<rparr>) = open_inv s"
  "open_inv (add_functor e f s) = open_inv s" "open_inv (do_actions e as s) = open_inv s"
  "closed_inv (do_actions e as s) = closed_inv s"
  by (simp_all add: inv_defs)

lemma conn_close_ok: "open_inv s \<Longrightarrow> \<exists>s'. conn_close s = Inr s' \<and> (open_inv s' \<or> closed_inv s')"
  using handleClose_ok [of "update_conn (\<lambda>c. c\<lparr>tc_disconnected := True\<rparr>) s"]
  by (auto simp: conn_close_def Let_def)

lemma handleRead_ok:
  assumes "open_inv s" and "handleRead e s = Inr s'"
  shows "open_inv s' \<or> closed_inv s'"
proof -
  obtain cnt rb rs where r: "read_all (cs_reads s) [] 0 (tc_read_buf (cs_conn s)) = (cnt, rb, rs)"
    by (metis prod_cases3)
  let ?s = "update_conn (\<lambda>c. c\<lparr>tc_read_buf := rb\<rparr>) (s\<lparr>cs_reads := rs\<rparr>)"
  have o: "open_inv ?s" using assms(1) by simp
  consider "cnt > 0" | "cnt = 0" | "cnt < 0" by linarith
  then show ?thesis
  proof cases
    case 1
    with assms(2) r o show ?thesis
      by (auto simp: handleRead_def checked_bind_Inr simp del: conn_state_commute)
  next
    case 2
    with assms(2) r conn_close_ok [OF o] show ?thesis by (auto simp: handleRead_def)
  next
    case 3
    let ?d = "update_conn (\<lambda>c. c\<lparr>tc_disconnected := True\<rparr>) ?s"
    have "\<exists>s'. handleClose ?d = Inr s' \<and> closed_inv s'"
      using handleClose_ok [of ?d] o by auto
    with 3 assms(2) r show ?thesis by (auto simp: handleRead_def)
  qed
qed

lemma socket_write_frame:
  "socket_write data s = (n, s') \<Longrightarrow>
     open_inv s' = open_inv s \<and> cs_conn s' = cs_conn s \<and> conn_handler s' = conn_handler s \<and>
     conn_ok s' = conn_ok s"
  by (auto simp: socket_write_def split: prod.splits)

lemma open_inv_loop:
  assumes "open_inv s" and "conn_ok (s\<lparr>cs_loop := l\<rparr>)"
    and "conn_handler (s\<lparr>cs_loop := l\<rparr>) = f (conn_handler s)"
    and "isReading (f (conn_handler s))" and "\<And>h. eh_read_cb (f h) = eh_read_cb h"
    and "\<And>h. eh_write_cb (f h) = eh_write_cb h" and "\<And>h. eh_error_cb (f h) = eh_error_cb h"
  shows "open_inv (s\<lparr>cs_loop := l\<rparr>)"
  using assms by (simp add: inv_defs)

lemma enableWrite_ok:
  assumes "open_inv s"
  shows "\<exists>l. on_loop (enableWrite (tc_event_handler (cs_conn s))) s = Inr (s\<lparr>cs_loop := l\<rparr>) \<and>
    open_inv (s\<lparr>cs_loop := l\<rparr>) \<and> isWriting (conn_handler (s\<lparr>cs_loop := l\<rparr>))"
proof -
  obtain l where l: "on_loop (enableWrite (tc_event_handler (cs_conn s))) s = Inr (s\<lparr>cs_loop := l\<rparr>)"
    "conn_ok (s\<lparr>cs_loop := l\<rparr>)" "conn_handler (s\<lparr>cs_loop := l\<rparr>) = setIEvents kEventWrite (conn_handler s)"
    using conn_interest(1) [of s] assms by (auto simp: open_inv_def)
  have "open_inv (s\<lparr>cs_loop := l\<rparr>)"
    using assms l(2,3) by (rule open_inv_loop) (use assms in \<open>simp_all add: open_inv_def setIEvents_def [abs_def] isReading_def bit.conj_disj_distrib2 event_bits\<close>)
  with l show ?thesis by (intro exI [of _ l]) simp
qed

lemma disableWrite_ok:
  assumes "open_inv s"
  shows "\<exists>l. on_loop (disableWrite (tc_event_handler (cs_conn s))) s = Inr (s\<lparr>cs_loop := l\<rparr>) \<and>
    open_inv (s\<lparr>cs_loop := l\<rparr>) \<and> \<not> isWriting (conn_handler (s\<lparr>cs_loop := l\<rparr>))"
proof -
  obtain l where l: "on_loop (disableWrite (tc_event_handler (cs_conn s))) s = Inr (s\<lparr>cs_loop := l\<rparr>)"
    "conn_ok (s\<lparr>cs_loop := l\<rparr>)" "conn_handler (s\<lparr>cs_loop := l\<rparr>) = clear_interest kEventWrite (conn_handler s)"
    using conn_interest(2) [of s] assms by (auto simp: open_inv_def)
  have "isReading (clear_interest kEventWrite (conn_handler s))" using assms by (simp add: open_inv_def)
  with assms l(2,3) have "open_inv (s\<lparr>cs_loop := l\<rparr>)"
    by (rule open_inv_loop) (simp_all add: clear_interest_def)
  with l show ?thesis by (intro exI [of _ l]) simp
qed

lemma handleWrite_ok:
  assumes "open_inv s" and "handleWrite e s = Inr s'"
  shows "open_inv s' \<or> closed_inv s'"
proof (cases "tc_write_buf (cs_conn s) = []")
  case True
  with assms show ?thesis by (simp add: handleWrite_def)
next
  case False
  obtain n s1 where w: "socket_write (tc_write_buf (cs_conn s)) s = (n, s1)" by fastforce
  note fr = socket_write_frame [OF w]
  show ?thesis
  proof (cases "n \<ge> 0")
    case True
    with assms(2) False w obtain rest where rest: "substr (tc_write_buf (cs_conn s1)) n = Inr rest"
      by (auto simp: handleWrite_def checked_bind_Inr)
    let ?s = "update_conn (\<lambda>c. c\<lparr>tc_write_buf := rest\<rparr>) s1"
    have o: "open_inv ?s" using fr assms(1) by simp
    from disableWrite_ok [OF o] obtain l where l:
      "on_loop (disableWrite (tc_event_handler (cs_conn ?s))) ?s = Inr (?s\<lparr>cs_loop := l\<rparr>)"
      "open_inv (?s\<lparr>cs_loop := l\<rparr>)" by blast
    show ?thesis
    proof (cases "rest = []")
      case True
      with l assms(2) False w rest \<open>n \<ge> 0\<close> have
        "s' = add_functor e (WriteComplete (tc_address (cs_conn ?s)) (tc_write_buf (cs_conn ?s))) (?s\<lparr>cs_loop := l\<rparr>)"
        by (simp add: handleWrite_def Let_def)
      then have "open_inv s' = open_inv (?s\<lparr>cs_loop := l\<rparr>)" by (simp only: open_inv_frame)
      with l(2) show ?thesis by blast
    next
      case ne: False
      with assms(2) False w rest \<open>n \<ge> 0\<close> o show ?thesis by (simp add: handleWrite_def Let_def)
    qed
  next
    case neg: False
    have "\<exists>s'. handleClose (update_conn (\<lambda>c. c\<lparr>tc_disconnected := True\<rparr>) s1) = Inr s' \<and> closed_inv s'"
      using handleClose_ok [of "update_conn (\<lambda>c. c\<lparr>tc_disconnected := True\<rparr>) s1"] fr assms(1) by auto
    with neg assms(2) False w show ?thesis by (auto simp: handleWrite_def)
  qed
qed

text \<open>The steps of \<^verbatim>\<open>writeInLoop\<close> on a connected connection.\<close>

definition can_write_direct :: "'c conn_state \<Rightarrow> bool" where
  "can_write_direct s \<longleftrightarrow> \<not> isWriting (conn_handler s) \<and> tc_write_buf (cs_conn s) = []"

definition direct_write :: "string \<Rightarrow> 'c conn_state \<Rightarrow> int \<times> 'c conn_state" where
  "direct_write data s = (if can_write_direct s then socket_write data s else (0, s))"

definition notify_direct :: "'c conn_env \<Rightarrow> string \<Rightarrow> bool \<Rightarrow> int \<Rightarrow> 'c conn_state \<Rightarrow> 'c conn_state" where
  "notify_direct e data direct n s =
     (if direct \<and> n > 0 \<and> n = int (length data) \<and> tc_sendfile_fd (cs_conn s) < 0
      then add_functor e (WriteComplete (tc_address (cs_conn s)) (tc_write_buf (cs_conn s))) s else s)"

definition queue_rest :: "string \<Rightarrow> 'c conn_state \<Rightarrow> 'c conn_state checked" where
  "queue_rest rest s =
     (let s = update_conn (\<lambda>c. c\<lparr>tc_write_buf := tc_write_buf c @ rest\<rparr>) s
      in if hasContentToSend (cs_conn s) \<and> \<not> isWriting (conn_handler s)
         then on_loop (enableWrite (tc_event_handler (cs_conn s))) s else Inr s)"

lemma writeInLoop_steps:
  assumes "\<not> tc_disconnected (cs_conn s)" and "direct_write data s = (n, s1)"
  shows "writeInLoop e data s =
    checked_bind (substr data n) (\<lambda>rest. queue_rest rest (notify_direct e data (can_write_direct s) n s1))"
proof (cases "can_write_direct s")
  case True
  with assms show ?thesis
    by (auto simp: writeInLoop_def direct_write_def can_write_direct_def notify_direct_def queue_rest_def Let_def)
next
  case False
  with assms show ?thesis
    by (auto simp: writeInLoop_def direct_write_def can_write_direct_def notify_direct_def queue_rest_def Let_def)
qed

lemma queue_rest_ok:
  assumes "open_inv s"
  shows "\<exists>s'. queue_rest rest s = Inr s' \<and> open_inv s' \<and> cs_wire s' = cs_wire s \<and>
    cs_conn s' = (cs_conn s)\<lparr>tc_write_buf := tc_write_buf (cs_conn s) @ rest\<rparr> \<and>
    cs_writes s' = cs_writes s \<and>
    (isWriting (conn_handler s') \<longleftrightarrow>
       isWriting (conn_handler s) \<or> tc_write_buf (cs_conn s) @ rest \<noteq> [] \<or> tc_sendfile_fd (cs_conn s) \<ge> 0)"
proof -
  let ?s = "update_conn (\<lambda>c. c\<lparr>tc_write_buf := tc_write_buf c @ rest\<rparr>) s"
  have o: "open_inv ?s" using assms by simp
  show ?thesis
  proof (cases "hasContentToSend (cs_conn ?s) \<and> \<not> isWriting (conn_handler ?s)")
    case True
    with enableWrite_ok [OF o] show ?thesis
      by (auto simp: queue_rest_def hasContentToSend_def simp del: conn_state_commute)
  next
    case False
    with o show ?thesis by (auto simp: queue_rest_def hasContentToSend_def Let_def)
  qed
qed

lemma notify_direct_frame [simp]:
  "open_inv (notify_direct e data b n s) = open_inv s" "cs_conn (notify_direct e data b n s) = cs_conn s"
  "cs_wire (notify_direct e data b n s) = cs_wire s" "cs_writes (notify_direct e data b n s) = cs_writes s"
  "conn_handler (notify_direct e data b n s) = conn_handler s"
  by (simp_all add: notify_direct_def)

lemma direct_write_frame:
  "direct_write data s = (n, s1) \<Longrightarrow>
     open_inv s1 = open_inv s \<and> cs_conn s1 = cs_conn s \<and> conn_handler s1 = conn_handler s"
  by (auto simp: direct_write_def dest: socket_write_frame split: if_splits)

lemma writeInLoop_ok:
  assumes "open_inv s \<or> closed_inv s" and "writeInLoop e data s = Inr s'"
  shows "open_inv s' \<or> closed_inv s'"
proof (cases "tc_disconnected (cs_conn s)")
  case True
  with assms show ?thesis by (simp add: writeInLoop_def)
next
  case False
  then have o: "open_inv s" using assms(1) by (auto simp: closed_inv_def)
  obtain n s1 where w: "direct_write data s = (n, s1)" by fastforce
  with o have o1: "open_inv (notify_direct e data (can_write_direct s) n s1)"
    using direct_write_frame [OF w] by simp
  obtain rest where "queue_rest rest (notify_direct e data (can_write_direct s) n s1) = Inr s'"
    using assms(2) unfolding writeInLoop_steps [OF False w] by (auto simp: checked_bind_Inr)
  with queue_rest_ok [OF o1, of rest] show ?thesis by auto
qed

section \<open>The life of a connection\<close>

text \<open>
  After \<^verbatim>\<open>handleConnection\<close>: the poller reports events, the loop dispatches them, functors
  of the connection run and the kernel gets new answers ready, in any order.
\<close>

inductive connection_reach :: "'c conn_env \<Rightarrow> 'c conn_state \<Rightarrow> bool" for e where
  opened: "el_inv (cs_loop s) \<Longrightarrow> pp_fresh (cs_loop s) (tc_event_handler (cs_conn s)) \<Longrightarrow>
    conn_callbacks s \<Longrightarrow> cs_close_requests s = 0 \<Longrightarrow> handleConnection e s = Inr s' \<Longrightarrow>
    connection_reach e s'"
| reported: "connection_reach e s \<Longrightarrow> connection_reach e
    (s\<lparr>cs_loop := change_handler (tc_event_handler (cs_conn s)) (setREvents rv) (cs_loop s)\<rparr>)"
| dispatched: "connection_reach e s \<Longrightarrow> conn_event e s = Inr s' \<Longrightarrow> connection_reach e s'"
| sent: "connection_reach e s \<Longrightarrow> conn_functor e (WriteInLoop a data) s = Inr s' \<Longrightarrow>
    connection_reach e s'"
| completed: "connection_reach e s \<Longrightarrow> conn_functor e (WriteComplete a data) s = Inr s' \<Longrightarrow>
    connection_reach e s'"
| answers: "connection_reach e s \<Longrightarrow> connection_reach e (s\<lparr>cs_reads := rs, cs_writes := ws\<rparr>)"

lemma handleConnection_ok:
  assumes "el_inv (cs_loop s)" and "pp_fresh (cs_loop s) (tc_event_handler (cs_conn s))"
    and "conn_callbacks s" and "cs_close_requests s = 0"
  shows "\<exists>s'. handleConnection e s = Inr s' \<and> open_inv s'"
proof -
  let ?h = "tc_event_handler (cs_conn s)"
  obtain l where l: "el_registerHandler ?h (cs_loop s) = Inr l" "el_inv l"
    "pp_registered l = insert ?h (pp_registered (cs_loop s))"
    using el_register_ok [OF assms(1,2)] by blast
  let ?s = "s\<lparr>cs_loop := l\<rparr>"
  have ok: "conn_ok ?s" using l by (simp add: conn_ok_def)
  have same: "eh_ievents (eh_mem l ?h) = eh_ievents (eh_mem (cs_loop s) ?h)"
    "eh_read_cb (eh_mem l ?h) = eh_read_cb (eh_mem (cs_loop s) ?h)"
    "eh_write_cb (eh_mem l ?h) = eh_write_cb (eh_mem (cs_loop s) ?h)"
    "eh_error_cb (eh_mem l ?h) = eh_error_cb (eh_mem (cs_loop s) ?h)"
    using l(1) by (auto simp: el_registerHandler_def pp_registerHandler_def Let_def change_handler_def
        SetIndex_def split: if_splits)
  then have cb: "conn_callbacks ?s" using assms(3) by (simp add: conn_callbacks_def conn_handler_def)
  obtain l' where l': "on_loop (enableRead (tc_event_handler (cs_conn ?s))) ?s = Inr (?s\<lparr>cs_loop := l'\<rparr>)"
    "conn_ok (?s\<lparr>cs_loop := l'\<rparr>)"
    "conn_handler (?s\<lparr>cs_loop := l'\<rparr>) = setIEvents kEventRead (conn_handler ?s)"
    using on_loop_change [OF ok, of "setIEvents kEventRead"]
    unfolding enableRead_def [abs_def] by (auto simp: setIEvents_def)
  have "open_inv (?s\<lparr>cs_loop := l'\<rparr>)"
    using l'(2,3) cb assms(4) by (simp add: open_inv_def) (simp add: conn_callbacks_def setIEvents_def)
  moreover have "on_loop (el_registerHandler ?h) s = Inr ?s" using l(1) by (simp add: on_loop_def)
  ultimately show ?thesis using l'(1) by (simp add: handleConnection_def)
qed

lemma conn_event_ok:
  assumes "open_inv s \<or> closed_inv s" and "conn_event e s = Inr s'"
  shows "(open_inv s' \<or> closed_inv s') \<and> (closed_inv s \<longrightarrow> s' = s)"
proof -
  let ?I = "\<lambda>s. open_inv s \<or> closed_inv s"
  have read: "?I t'" if "?I t" "run_callback (conn_functor e) (b \<and> isReading (conn_handler t))
      (eh_read_cb (conn_handler t)) t = Inr t'" for b t t'
    using that handleRead_ok [of t e t']
    by (auto simp: run_callback_def conn_functor_def inv_defs split: if_splits)
  have "write": "?I t'" if "?I t" "run_callback (conn_functor e) (b \<and> isWriting (conn_handler t))
      (eh_write_cb (conn_handler t)) t = Inr t'" for b t t'
    using that handleWrite_ok [of t e t']
    by (auto simp: run_callback_def conn_functor_def inv_defs split: if_splits)
  have err: "t' = t" if "?I t" "run_callback (conn_functor e) b (eh_error_cb (conn_handler t)) t = Inr t'" for b t t'
    using that by (auto simp: run_callback_def inv_defs split: if_splits)
  from assms(2) obtain t1 t2 where t:
    "run_callback (conn_functor e) (isReadable (conn_handler s) \<and> isReading (conn_handler s))
       (eh_read_cb (conn_handler s)) s = Inr t1"
    "run_callback (conn_functor e) (isWriteable (conn_handler t1) \<and> isWriting (conn_handler t1))
       (eh_write_cb (conn_handler t1)) t1 = Inr t2"
    "run_callback (conn_functor e) (isError (conn_handler t2)) (eh_error_cb (conn_handler t2)) t2 = Inr s'"
    by (auto simp: conn_event_def HandleEvent_def checked_bind_Inr)
  have I: "?I t1" "?I t2" using read [OF assms(1) t(1)] "write" [OF _ t(2)] by blast+
  moreover have "t1 = s \<and> t2 = s" if "closed_inv s"
    using that t(1,2) by (auto simp: run_callback_def closed_inv_def)
  ultimately show ?thesis using err [OF I(2) t(3)] by blast
qed

lemma connection_reach_inv: "connection_reach e s \<Longrightarrow> open_inv s \<or> closed_inv s"
proof (induction rule: connection_reach.induct)
  case (opened s s')
  then show ?case using handleConnection_ok [of s e] by auto
next
  case (reported s rv)
  let ?h = "tc_event_handler (cs_conn s)"
  have f: "eh_handle (setREvents rv h) = eh_handle h" "eh_index (setREvents rv h) = eh_index h"
    for h :: "functor_t EventHandler" by (simp_all add: setREvents_def)
  have "el_inv (change_handler ?h (setREvents rv) (cs_loop s)) = el_inv (cs_loop s)"
    "pp_registered (change_handler ?h (setREvents rv) (cs_loop s)) = pp_registered (cs_loop s)"
    using change_handler_inv [of "setREvents rv" ?h "cs_loop s", OF f]
    by (simp_all add: el_inv_def) (simp add: change_handler_def)
  with reported.IH show ?case
    by (simp add: inv_defs conn_ok_def conn_handler_def change_handler_def setREvents_def
        isReading_def isWriting_def)
next
  case (dispatched s s')
  then show ?case using conn_event_ok by blast
next
  case (sent s a data s')
  then show ?case using writeInLoop_ok by (simp add: conn_functor_def)
next
  case (completed s a data s')
  then show ?case by (auto simp: conn_functor_def)
next
  case (answers s rs ws)
  then show ?case by (simp add: inv_defs)
qed

end
