(* ===== verification/Http_Server.thy ===== *)
theory Http_Server
  imports Http_Context Http_Response Tcp_Connection
begin

text \<open>
  \<^verbatim>\<open>src/core/http/http_server.h\<close>, \<^verbatim>\<open>http_server.cpp\<close> and \<^verbatim>\<open>router.h\<close>: what the
  server does with the bytes of a connection. The effects on the connection (\<^verbatim>\<open>write\<close>,
  \<^verbatim>\<open>shutdown\<close>) are returned as a list of actions; the file system is a parameter.
\<close>

section \<open>The file system\<close>

text \<open>
  \<open>fs_size path\<close> is the size \<^verbatim>\<open>stat\<close> reports, \<open>None\<close> if it fails; \<open>fs_read path\<close> is
  the content an \<^verbatim>\<open>ifstream\<close> reads, \<open>None\<close> if the file cannot be opened.
\<close>

record file_system =
  fs_size :: "string \<Rightarrow> int option"
  fs_read :: "string \<Rightarrow> string option"

definition kMaxFileSize :: int where
  "kMaxFileSize = 100 * 1024 * 1024"

section \<open>Routing\<close>

datatype Method = GET | PUT | DELETE | POST

type_synonym request_cb = "HTTPRequest \<Rightarrow> HTTPResponse \<Rightarrow> HTTPResponse checked"
type_synonym router_t = "Method \<Rightarrow> (string \<rightharpoonup> request_cb)"

text \<open>\<^verbatim>\<open>HTTPServer::route\<close> keeps the first callback of a path (\<^verbatim>\<open>emplace\<close>).\<close>

definition route :: "string \<Rightarrow> Method \<Rightarrow> request_cb \<Rightarrow> router_t \<Rightarrow> router_t" where
  "route path m cb rt = rt(m := emplace path cb (rt m))"

text \<open>\<^verbatim>\<open>Router::route\<close> of \<^verbatim>\<open>router.h\<close> replaces it.\<close>

definition Router_route ::
  "string \<Rightarrow> int \<Rightarrow> request_cb \<Rightarrow> (int \<Rightarrow> (string \<rightharpoonup> request_cb)) \<Rightarrow>
     (int \<Rightarrow> (string \<rightharpoonup> request_cb))" where
  "Router_route path m cb rt = rt(m := (rt m)(path \<mapsto> cb))"

definition defaultHandleRequest :: "file_system \<Rightarrow> request_cb" where
  "defaultHandleRequest fs request response =
     (let root = ''.'';
          file_path = root @ request_path request;
          response = setHeader ''FilePath'' file_path response
      in case fs_size fs file_path of
           None \<Rightarrow> Inr (setStatus 404 response)
         | Some sz \<Rightarrow>
             if sz > kMaxFileSize
             then Inr (setContent ''file size up to server bound'' (setStatus 401 response))
             else
               let response = setStatus 200 response
               in checked_bind (readFile (fs_read fs) file_path) (\<lambda>content.
                    Inr (setContent content response)))"

definition handleRequest :: "file_system \<Rightarrow> router_t \<Rightarrow> request_cb" where
  "handleRequest fs rt request response =
     (let dispatch_to = (\<lambda>m. case rt m (request_path request) of
            Some cb \<Rightarrow> cb request response
          | None \<Rightarrow> defaultHandleRequest fs request response)
      in case req_method request of
        HTTP_GET \<Rightarrow> dispatch_to GET
      | HTTP_DELETE \<Rightarrow> dispatch_to DELETE
      | HTTP_POST \<Rightarrow> dispatch_to POST
      | HTTP_PUT \<Rightarrow> dispatch_to PUT
      | _ \<Rightarrow> Inr (setStatus 405 response))"

section \<open>Events of a connection\<close>

text \<open>
  The world a handler runs in: the value of the global \<^verbatim>\<open>max_header_size\<close>, the garbage of
  uninitialised memory, the date and the file system.
\<close>

record server_env =
  se_max_header :: "32 word"
  se_url :: http_parser_url
  se_request :: HTTPRequest
  se_date :: string
  se_fs :: file_system

definition handleConnectionCome :: "server_env \<Rightarrow> req_parser \<Rightarrow> HTTPContext" where
  "handleConnectionCome w m =
     (let http_context = new_HTTPContext m (se_request w)
      in http_context\<lparr>ctx_parser := bindParser (ctx_request http_context) (ctx_parser http_context)\<rparr>)"

text \<open>
  \<^verbatim>\<open>handleMessageCome\<close>: the actions on the connection and the new context. The variable
  \<^verbatim>\<open>request\<close> is the request object of the context, which the parser's callbacks fill.
\<close>

definition handleMessageCome ::
  "server_env \<Rightarrow> HTTPContext \<Rightarrow> string \<Rightarrow> (conn_action list \<times> HTTPContext) checked option" where
  "handleMessageCome w c read_buf =
     (case ctx_parse (se_max_header w) (se_url w) c read_buf of
        None \<Rightarrow> None
      | Some (Inl r) \<Rightarrow> Some (Inl r)
      | Some (Inr (nparse, c)) \<Rightarrow>
          let request = ctx_request c
          in if nparse < 0 then Some (Inr ([Shutdown], c))
             else if message_is_end request then
               Some (checked_bind (defaultHandleRequest (se_fs w) request new_HTTPResponse) (\<lambda>response.
                 Inr ([Write (toString (se_date w) response)], ctx_reset (se_request w) c)))
             else Some (Inr ([], c)))"

definition handleWriteComplete :: "HTTPContext \<Rightarrow> conn_action list" where
  "handleWriteComplete c =
     (if \<not> http_should_keep_alive (ctx_parser c) then [Shutdown] else [])"

end
