(* ===== verification/Http_Walk.thy ===== *)
theory Http_Walk
  imports Http_Execute
begin

text \<open>
  Symbolic execution of \<^verbatim>\<open>http_parser_execute\<close>: what the loop does from a byte on, as rules
  that consume the input from the front; the rules for a request line.
\<close>

section \<open>Locals between and at bytes\<close>

fun loc :: "char \<Rightarrow> nat \<Rightarrow> nat \<Rightarrow> pstate \<Rightarrow> (mark \<times> nat) option \<Rightarrow> 'u http_parser \<Rightarrow> 'u locals" where
  "loc c p n x None q =
     \<lparr>ex_p = p, ex_ch = c, p_state = x, l_nread = of_nat n, header_field_mark = None,
      header_value_mark = None, url_mark = None, body_mark = None, status_mark = None, parser = q\<rparr>"
| "loc c p n x (Some (m, a)) q = put_mark m (Some a) (loc c p n x None q)"

lemma marked_cases:
  obtains "mk = None" | a where "mk = Some (M_header_field, a)" | a where "mk = Some (M_header_value, a)"
    | a where "mk = Some (M_url, a)" | a where "mk = Some (M_body, a)" | a where "mk = Some (M_status, a)"
  by (cases mk) (auto, metis mark.exhaust)

lemma loc_simps [simp]:
  "ex_p (loc c p n x mk q) = p" "ex_ch (loc c p n x mk q) = c" "p_state (loc c p n x mk q) = x"
  "l_nread (loc c p n x mk q) = of_nat n" "parser (loc c p n x mk q) = q"
  by (cases mk rule: marked_cases; simp)+

lemma loc_updates [simp]:
  "(loc c p n x mk q)\<lparr>ex_p := p'\<rparr> = loc c p' n x mk q"
  "(loc c p n x mk q)\<lparr>ex_ch := c'\<rparr> = loc c' p n x mk q"
  "(loc c p n x mk q)\<lparr>p_state := x'\<rparr> = loc c p n x' mk q"
  "(loc c p n x mk q)\<lparr>l_nread := of_nat n'\<rparr> = loc c p n' x mk q"
  "(loc c p n x mk q)\<lparr>parser := q'\<rparr> = loc c p n x mk q'"
  by (cases mk rule: marked_cases; simp)+

lemma loc_marks [simp]:
  "put_mark m None (loc c p n x (Some (m, a)) q) = loc c p n x None q"
  "put_mark m None (loc c p n x None q) = loc c p n x None q"
  "get_mark m (loc c p n x None q) = None"
  "get_mark m (loc c p n x (Some (m, a)) q) = Some a"
  by (cases m; simp)+

declare loc.simps [simp del]

lemma loc_put [simp]: "put_mark m (Some a) (loc c p n x None q) = loc c p n x (Some (m, a)) q"
  by (simp add: loc.simps)

lemma loc_MARK [simp]: "MARK m (loc c p n x None q) = loc c p n x (Some (m, p)) q"
  by (simp add: MARK_def)

lemma count_loc [simp]:
  assumes "n + v \<le> unat (max_header_size e)"
  shows "COUNT_HEADER_SIZE e v (loc c p n x mk q) k = k (loc c p (n + v) x mk q)"
proof -
  have "unat (max_header_size e) < 2 ^ LENGTH(32)" by (rule unsigned_less)
  then have "n + v < 2 ^ 32" using assms by simp
  then have "\<not> of_nat n + of_nat v > max_header_size e"
    using assms by (simp add: word_less_nat_alt unat_of_nat take_bit_eq_mod flip: of_nat_add)
  moreover have "(loc c p n x mk q)\<lparr>l_nread := of_nat n + of_nat v\<rparr> = loc c p (n + v) x mk q"
    by (simp flip: of_nat_add)
  ultimately show ?thesis by (simp add: COUNT_HEADER_SIZE_def Let_def)
qed

section \<open>Running to a result\<close>

definition fits_limit :: "'u env \<Rightarrow> bool" where
  "fits_limit e \<longleftrightarrow> length (input e) \<le> unat (max_header_size e)"

text \<open>
  \<open>runs e r p x mk q oc\<close>: from the byte at \<open>p\<close>, where the rest of the input is \<open>r\<close>, with
  all bytes so far counted, the loop ends with \<open>oc\<close>.
\<close>

definition runs ::
  "'u env \<Rightarrow> string \<Rightarrow> nat \<Rightarrow> pstate \<Rightarrow> (mark \<times> nat) option \<Rightarrow> 'u http_parser \<Rightarrow> 'u outcome \<Rightarrow> bool" where
  "runs e r p x mk q oc \<longleftrightarrow>
     (drop p (input e) = r \<longrightarrow> p \<le> length (input e) \<longrightarrow>
        (\<forall>c. execute_loop e (loc c p p x mk q) = Some oc))"

lemma dispatch_Break: "exec_switch e s = Break s' \<Longrightarrow> dispatch e s = Some (Break s')"
  and dispatch_Return: "exec_switch e s = Return k q \<Longrightarrow> dispatch e s = Some (Return k q)"
  and dispatch_Reexecute: "exec_switch e s = Reexecute s' \<Longrightarrow> dispatch e s = dispatch e s'"
  by (subst dispatch.simps, simp)+

lemma execute_loop_byte:
  assumes "fits_limit e" and "p < length (input e)" and "PARSING_HEADER x"
  shows "execute_loop e (loc c p p x mk q) =
    (case dispatch e (loc (input e ! p) p (Suc p) x mk q) of
       None \<Rightarrow> None
     | Some (Break s) \<Rightarrow> execute_loop e (next_byte s)
     | Some (Reexecute s) \<Rightarrow> None
     | Some (Return n q) \<Rightarrow> Some (Return n q)
     | Some (Abort a) \<Rightarrow> Some (Abort a))"
proof -
  have "begin_byte e (loc c p p x mk q) = Reexecute (loc (input e ! p) p (Suc p) x mk q)"
    using assms count_loc [of p 1 e] by (simp add: begin_byte_def fits_limit_def)
  with assms(2) show ?thesis
    by (subst execute_loop.simps) (simp split: option.split outcome.split)
qed

lemma drop_ConsD: "drop p xs = c # r \<Longrightarrow> p < length xs \<and> xs ! p = c \<and> drop (Suc p) xs = r"
proof -
  assume d: "drop p xs = c # r"
  then have "p < length xs" by (metis drop_all linorder_not_less list.distinct(1))
  with d show ?thesis using Cons_nth_drop_Suc [of p xs] by simp
qed

lemma runs_byte:
  assumes "fits_limit e" and "PARSING_HEADER x"
    and "drop p (input e) = c # r \<Longrightarrow> p < length (input e) \<Longrightarrow>
      p' < length (input e) \<and> drop (Suc p') (input e) = r' \<and>
      dispatch e (loc c p (Suc p) x mk q) = Some (Break (loc c' p' (Suc p') x' mk' q'))"
    and "runs e r' (Suc p') x' mk' q' oc"
  shows "runs e (c # r) p x mk q oc"
  unfolding runs_def
proof (intro impI allI)
  fix d
  assume d: "drop p (input e) = c # r"
  then have p: "p < length (input e)" "input e ! p = c" by (simp_all add: drop_ConsD)
  with assms(3) [OF d] assms(4) execute_loop_byte [OF assms(1) p(1) assms(2), of d mk q]
  show "execute_loop e (loc d p p x mk q) = Some oc"
    by (simp add: runs_def next_byte_def)
qed

text \<open>The common case: the byte is consumed without a jump.\<close>

lemma runs_step:
  assumes "fits_limit e" and "PARSING_HEADER x"
    and "exec_switch e (loc c p (Suc p) x mk q) = Break (loc c p (Suc p) x' mk' q')"
    and "runs e r (Suc p) x' mk' q' oc"
  shows "runs e (c # r) p x mk q oc"
proof (rule runs_byte [where p' = p and r' = r])
  assume "drop p (input e) = c # r" and "p < length (input e)"
  then show "p < length (input e) \<and> drop (Suc p) (input e) = r \<and>
      dispatch e (loc c p (Suc p) x mk q) = Some (Break (loc c p (Suc p) x' mk' q'))"
    using assms(3) by (simp add: dispatch_Break drop_ConsD)
qed (use assms in auto)

section \<open>Callbacks that transform the user's data\<close>

text \<open>
  A table whose callbacks succeed and change nothing but the user's data, except that the
  callback of the URL may stop the process.
\<close>

locale data_transformers =
  fixes st :: "'u http_parser_settings"
    and begin_d :: "'u \<Rightarrow> 'u"
    and url_d :: "http_method \<Rightarrow> string \<Rightarrow> 'u \<Rightarrow> 'u checked"
    and field_d value_d :: "string \<Rightarrow> 'u \<Rightarrow> 'u"
    and headers_d complete_d :: "'u \<Rightarrow> 'u"
  assumes message_begin_cb: "on_message_begin st = Some (\<lambda>q. Inr (0, q\<lparr>hp_data := begin_d (hp_data q)\<rparr>))"
    and url_cb: "on_url st = Some (\<lambda>b q. checked_bind (url_d (hp_method q) b (hp_data q)) (\<lambda>d.
      Inr (0, q\<lparr>hp_data := d\<rparr>)))"
    and header_field_cb: "on_header_field st = Some (\<lambda>b q. Inr (0, q\<lparr>hp_data := field_d b (hp_data q)\<rparr>))"
    and header_value_cb: "on_header_value st = Some (\<lambda>b q. Inr (0, q\<lparr>hp_data := value_d b (hp_data q)\<rparr>))"
    and headers_complete_cb: "on_headers_complete st = Some (\<lambda>q. Inr (0, q\<lparr>hp_data := headers_d (hp_data q)\<rparr>))"
    and message_complete_cb: "on_message_complete st = Some (\<lambda>q. Inr (0, q\<lparr>hp_data := complete_d (hp_data q)\<rparr>))"

lemma after_callback_ok:
  "hp_http_errno q = HPE_OK \<Longrightarrow>
     after_callback 0 q err er (loc c p n x mk q0) k = k (loc c p n (hp_state q) mk q)"
  by (simp add: after_callback_def Let_def UPDATE_STATE_def)

section \<open>The version and the ends of lines\<close>

lemmas exec_eval = exec_switch_def step_defs STRICT_CHECK_def UPDATE_STATE_def

text \<open>One byte each, in the states that do not call back.\<close>

lemma plain_steps:
  assumes "fits_limit e"
  shows "runs e r (Suc p) s_req_http_H mk q oc \<Longrightarrow> runs e (CHR ''H'' # r) p s_req_http_start mk q oc"
    and "runs e r (Suc p) s_req_http_HT mk q oc \<Longrightarrow> runs e (CHR ''T'' # r) p s_req_http_H mk q oc"
    and "runs e r (Suc p) s_req_http_HTT mk q oc \<Longrightarrow> runs e (CHR ''T'' # r) p s_req_http_HT mk q oc"
    and "runs e r (Suc p) s_req_http_HTTP mk q oc \<Longrightarrow> runs e (CHR ''P'' # r) p s_req_http_HTT mk q oc"
    and "runs e r (Suc p) s_req_http_major mk q oc \<Longrightarrow> runs e (CHR ''/'' # r) p s_req_http_HTTP mk q oc"
    and "IS_NUM c \<Longrightarrow> runs e r (Suc p) s_req_http_dot mk (q\<lparr>hp_http_major := of_nat (digit_val c)\<rparr>) oc \<Longrightarrow>
      runs e (c # r) p s_req_http_major mk q oc"
    and "runs e r (Suc p) s_req_http_minor mk q oc \<Longrightarrow> runs e (CHR ''.'' # r) p s_req_http_dot mk q oc"
    and "IS_NUM c \<Longrightarrow> runs e r (Suc p) s_req_http_end mk (q\<lparr>hp_http_minor := of_nat (digit_val c)\<rparr>) oc \<Longrightarrow>
      runs e (c # r) p s_req_http_minor mk q oc"
    and "runs e r (Suc p) s_req_line_almost_done mk q oc \<Longrightarrow> runs e (CR # r) p s_req_http_end mk q oc"
    and "runs e r (Suc p) s_header_field_start mk q oc \<Longrightarrow> runs e (LF # r) p s_req_line_almost_done mk q oc"
    and "runs e r (Suc p) s_headers_almost_done mk q oc \<Longrightarrow> runs e (CR # r) p s_header_field_start mk q oc"
    and "runs e r (Suc p) s_header_value_lws mk q oc \<Longrightarrow> runs e (LF # r) p s_header_almost_done mk q oc"
    and "runs e r (Suc p) s_header_value_discard_ws mk q oc \<Longrightarrow>
      runs e (SP # r) p s_header_value_discard_ws mk q oc"
  by (rule runs_step [OF assms]; simp add: exec_eval PARSING_HEADER_num)+

definition digit :: "nat \<Rightarrow> char" where
  "digit n = char_of (48 + n)"

lemma digit_simps [simp]: "n < 10 \<Longrightarrow> IS_NUM (digit n)" "n < 10 \<Longrightarrow> digit_val (digit n) = n"
  by (simp_all add: digit_def digit_val_def IS_NUM_def)

definition version_text :: "nat \<Rightarrow> nat \<Rightarrow> string" where
  "version_text major minor = ''HTTP/'' @ [digit major, CHR ''.'', digit minor] @ [CR, LF]"

lemma runs_version:
  assumes "fits_limit e" and "major < 10" and "minor < 10"
    and "runs e r (p + 10) s_header_field_start None
      (q\<lparr>hp_http_major := of_nat major, hp_http_minor := of_nat minor\<rparr>) oc"
  shows "runs e (version_text major minor @ r) p s_req_http_start None q oc"
  using assms(2-4) unfolding version_text_def append.simps
  by (intro plain_steps [OF assms(1)]) (simp_all add: numeral_eq_Suc)

section \<open>The method\<close>

text \<open>The recognition of a method, apart from the parser object.\<close>

fun method_run :: "http_method \<Rightarrow> nat \<Rightarrow> string \<Rightarrow> http_method option" where
  "method_run m i [] = (if i = length (method_string m) then Some m else None)"
| "method_run m i (c # cs) =
     (if is_method_char c \<and> i \<le> length (method_string m) then
        (case (if i < length (method_string m) \<and> method_string m ! i = c then Some m
               else method_switch m i c) of
           Some m' \<Rightarrow> method_run m' (Suc i) cs
         | None \<Rightarrow> None)
      else None)"

lemma is_method_char_simps [simp]: "\<not> is_method_char NUL" "\<not> is_method_char SP"
  by (simp_all add: is_method_char_def)

lemma method_run_step:
  assumes "method_run m i (c # cs) = Some m'"
  obtains m1 where "method_run m1 (Suc i) cs = Some m'" "i \<le> length (method_string m)" "is_method_char c"
    "m1 = m \<and> i < length (method_string m) \<and> method_string m ! i = c \<or>
     (i < length (method_string m) \<longrightarrow> method_string m ! i \<noteq> c) \<and> method_switch m i c = Some m1"
  using assms by (auto split: if_splits option.splits)

lemma exec_switch_method:
  assumes "hp_method q = m" and "unat (hp_index q) = i" and "i \<le> length (method_string m)"
    and "is_method_char c"
    and "m1 = m \<and> i < length (method_string m) \<and> method_string m ! i = c \<or>
     (i < length (method_string m) \<longrightarrow> method_string m ! i \<noteq> c) \<and> method_switch m i c = Some m1"
  shows "exec_switch e (loc c p n s_req_method mk q) =
    Break (loc c p n s_req_method mk (q\<lparr>hp_method := m1, hp_index := hp_index q + 1\<rparr>))"
proof -
  have c: "c \<noteq> NUL" "c \<noteq> SP" using assms(4) is_method_char_simps by metis+
  have "exec_switch e (loc c p n s_req_method mk q) = exec_req_method e (loc c p n s_req_method mk q)"
    by (simp add: exec_switch_def)
  also have "\<dots> = Break (loc c p n s_req_method mk (q\<lparr>hp_method := m1, hp_index := hp_index q + 1\<rparr>))"
  proof (cases "i < length (method_string m)")
    case True
    with assms c show ?thesis by (auto simp: exec_req_method_def)
  next
    case False
    with assms(3) have "i = length (method_string m)" by simp
    with assms c show ?thesis by (auto simp: exec_req_method_def)
  qed
  finally show ?thesis .
qed

lemma runs_method:
  assumes "fits_limit e" and "method_run m i cs = Some m'" and "hp_method q = m" and "unat (hp_index q) = i"
    and "i + length cs < 2 ^ 7 - 1"
    and "runs e r (p + length cs + 1) s_req_spaces_before_url None
      (q\<lparr>hp_method := m', hp_index := hp_index q + of_nat (length cs + 1)\<rparr>) oc"
  shows "runs e (cs @ SP # r) p s_req_method None q oc"
  using assms(2-6)
proof (induction cs arbitrary: m i p q)
  case Nil
  then have m: "i = length (method_string m)" "m' = m" by (simp_all split: if_splits)
  have "exec_switch e (loc SP p (Suc p) s_req_method None q) =
      exec_req_method e (loc SP p (Suc p) s_req_method None q)"
    by (simp add: exec_switch_def)
  also have "\<dots> = Break (loc SP p (Suc p) s_req_spaces_before_url None (q\<lparr>hp_index := hp_index q + 1\<rparr>))"
    using Nil.prems(2,3) m by (simp add: exec_req_method_def UPDATE_STATE_def)
  finally have sw: "exec_switch e (loc SP p (Suc p) s_req_method None q) =
     Break (loc SP p (Suc p) s_req_spaces_before_url None (q\<lparr>hp_index := hp_index q + 1\<rparr>))" .
  have "q\<lparr>hp_method := m', hp_index := hp_index q + 1\<rparr> = q\<lparr>hp_index := hp_index q + 1\<rparr>"
    using m Nil.prems(2) by simp
  with Nil.prems(5) show ?case
    using runs_step [OF assms(1) _ sw] by (simp add: PARSING_HEADER_num)
next
  case (Cons c cs)
  from Cons.prems(1) obtain m1 where m1: "method_run m1 (Suc i) cs = Some m'" "i \<le> length (method_string m)"
      "is_method_char c"
      "m1 = m \<and> i < length (method_string m) \<and> method_string m ! i = c \<or>
       (i < length (method_string m) \<longrightarrow> method_string m ! i \<noteq> c) \<and> method_switch m i c = Some m1"
    by (rule method_run_step)
  let ?q = "q\<lparr>hp_method := m1, hp_index := hp_index q + 1\<rparr>"
  note sw = exec_switch_method [OF Cons.prems(2,3) m1(2,3,4), of e p "Suc p" None]
  have i: "unat (hp_index q + 1) = Suc i"
    using Cons.prems(3,4) by (simp add: unat_word_ariths)
  have "runs e (cs @ SP # r) (Suc p) s_req_method None ?q oc"
    by (rule Cons.IH [OF m1(1)]) (use i Cons.prems(4,5) in \<open>simp_all add: add.assoc\<close>)
  then show ?case
    using runs_step [OF assms(1) _ sw, of "cs @ SP # r" oc] by (simp add: PARSING_HEADER_num)
qed

lemma method_recognised:
  "\<exists>m0. first_method (hd (method_string m)) = Some m0 \<and> method_run m0 1 (tl (method_string m)) = Some m"
  by (cases m) (simp_all add: first_method_def method_switch_def is_method_char_def)

lemma method_switch_prefix:
  "method_switch m i c = Some m' \<Longrightarrow>
     take (Suc i) (method_string m') = take i (method_string m) @ [c] \<and> Suc i \<le> length (method_string m')"
  by (auto simp: method_switch_def map_of_Cons_code split: if_splits)

lemma method_run_sound:
  "method_run m i cs = Some m' \<Longrightarrow> i \<le> length (method_string m) \<Longrightarrow> take i (method_string m) @ cs = method_string m'"
proof (induction cs arbitrary: m i)
  case Nil
  then show ?case by (auto split: if_splits)
next
  case (Cons c cs)
  from Cons.prems(1) obtain m1 where m1: "method_run m1 (Suc i) cs = Some m'" "is_method_char c"
      "m1 = m \<and> i < length (method_string m) \<and> method_string m ! i = c \<or>
       (i < length (method_string m) \<longrightarrow> method_string m ! i \<noteq> c) \<and> method_switch m i c = Some m1"
    by (rule method_run_step)
  then have "take (Suc i) (method_string m1) = take i (method_string m) @ [c] \<and> Suc i \<le> length (method_string m1)"
    using method_switch_prefix by (auto simp: take_Suc_conv_app_nth)
  with Cons.IH [OF m1(1)] show ?case by simp
qed

section \<open>The URL\<close>

definition url_end_states :: "pstate set" where
  "url_end_states = {s_req_server, s_req_server_with_at, s_req_path, s_req_query_string_start,
     s_req_query_string, s_req_fragment_start, s_req_fragment}"

definition url_start :: "http_method \<Rightarrow> pstate" where
  "url_start m = (if m = HTTP_CONNECT then s_req_server_start else s_req_spaces_before_url)"

text \<open>The URLs the parser lets pass to its callback.\<close>

definition url_accepted :: "http_method \<Rightarrow> string \<Rightarrow> bool" where
  "url_accepted m u \<longleftrightarrow> foldl parse_url_char (url_start m) u \<in> url_end_states"

lemma parse_url_char_dead [simp]: "parse_url_char s_dead c = s_dead"
  by (simp add: parse_url_char_def)

lemma foldl_dead [simp]: "foldl parse_url_char s_dead u = s_dead"
  by (induction u) simp_all

lemma parse_url_char_alive:
  assumes "parse_url_char x c \<noteq> s_dead"
  shows "c \<noteq> SP" "c \<noteq> CR" "c \<noteq> LF" "parse_url_char x c \<in> url_mark_states"
proof -
  show "c \<noteq> SP" "c \<noteq> CR" "c \<noteq> LF" using assms by (auto simp: parse_url_char_def)
  show "parse_url_char x c \<in> url_mark_states"
    using assms
    by (cases x) (auto simp: parse_url_char_def url_server_char_def url_mark_states_def split: if_splits)
qed

lemma exec_switch_url:
  assumes "x \<in> url_mark_states" and "parse_url_char x c \<noteq> s_dead"
  shows "exec_switch e (loc c p n x mk q) = Break (loc c p n (parse_url_char x c) mk q)"
  using assms parse_url_char_alive [OF assms(2)]
  by (auto simp: url_mark_states_def exec_switch_def exec_req_url_def exec_req_schema_def url_step_def
      UPDATE_STATE_def Let_def)

lemma runs_url_rest:
  assumes "fits_limit e" and "x \<in> url_mark_states" and "foldl parse_url_char x u \<noteq> s_dead"
    and "runs e r (p + length u) (foldl parse_url_char x u) mk q oc"
  shows "runs e (u @ r) p x mk q oc"
  using assms(2-4)
proof (induction u arbitrary: x p)
  case Nil
  then show ?case by simp
next
  case (Cons c u)
  then have alive: "parse_url_char x c \<noteq> s_dead" by auto
  have "runs e (u @ r) (Suc p) (parse_url_char x c) mk q oc"
    by (rule Cons.IH) (use Cons.prems parse_url_char_alive(4) [OF alive] in simp_all)
  moreover have "PARSING_HEADER x" using Cons.prems(1) by (auto simp: url_mark_states_def PARSING_HEADER_num)
  ultimately show ?case
    using runs_step [OF assms(1) _ exec_switch_url [OF Cons.prems(1) alive]] by simp
qed

lemma runs_url:
  assumes "fits_limit e" and "url_accepted (hp_method q) u"
    and "runs e r (p + length u) (foldl parse_url_char (url_start (hp_method q)) u) (Some (M_url, p)) q oc"
  shows "runs e (u @ r) p s_req_spaces_before_url None q oc"
proof (cases u)
  case Nil
  with assms(2) show ?thesis by (auto simp: url_accepted_def url_end_states_def url_start_def split: if_splits)
next
  case (Cons c u')
  let ?x = "parse_url_char (url_start (hp_method q)) c"
  have acc: "foldl parse_url_char ?x u' \<in> url_end_states" using assms(2) Cons by (simp add: url_accepted_def)
  then have fin: "foldl parse_url_char ?x u' \<noteq> s_dead" by (auto simp: url_end_states_def)
  then have alive: "?x \<noteq> s_dead" by auto
  note x = parse_url_char_alive [OF alive]
  have "exec_switch e (loc c p (Suc p) s_req_spaces_before_url None q) =
      Break (loc c p (Suc p) ?x (Some (M_url, p)) q)"
    using x(1) alive
    by (auto simp: exec_switch_def exec_req_spaces_before_url_def url_step_def UPDATE_STATE_def Let_def
        url_start_def)
  moreover have "runs e (u' @ r) (Suc p) ?x (Some (M_url, p)) q oc"
    by (rule runs_url_rest [OF assms(1) x(4) fin]) (use assms(3) Cons in simp)
  ultimately show ?thesis using Cons runs_step [OF assms(1)] by (simp add: PARSING_HEADER_num)
qed

end
