(* ===== verification/Http_Names.thy ===== *)
theory Http_Names
  imports Http_Walk
begin

text \<open>
  The automaton of \<^verbatim>\<open>http_parser_execute\<close> that recognises the header names with a meaning
  for the parser, against the names as strings.
\<close>

section \<open>The loop over a name\<close>

definition token_char :: "char \<Rightarrow> bool" where
  "token_char c \<longleftrightarrow> TOKEN c \<noteq> NUL"

text \<open>The switch of the header-name loop over the characters of a name.\<close>

fun field_run :: "string \<Rightarrow> 'u http_parser \<Rightarrow> 'u http_parser checked" where
  "field_run [] q = Inr q"
| "field_run (c # cs) q = checked_bind (header_field_char (TOKEN c) c q) (field_run cs)"

lemma field_run_general [simp]: "hp_header_state q = h_general \<Longrightarrow> field_run cs q = Inr q"
  by (induction cs) (simp_all add: header_field_char_def Let_def)

lemma scan_limit_fits: "fits_limit e \<Longrightarrow> p \<le> length (input e) \<Longrightarrow> scan_limit e p = length (input e)"
  by (simp add: scan_limit_def fits_limit_def)

lemma field_scan_run:
  assumes "drop p d = c # cs @ x # r" and "\<forall>c \<in> set cs. token_char c" and "\<not> token_char x"
  shows "field_scan d (length d) p = p + length cs"
  using assms
proof (induction cs arbitrary: p c)
  case Nil
  then have p: "p < length d" "drop (Suc p) d = x # r" using drop_ConsD by fastforce+
  then have "Suc p < length d" "d ! Suc p = x" using drop_ConsD by fastforce+
  with Nil.prems(3) show ?case by (subst field_scan.simps) (simp add: token_char_def)
next
  case (Cons c' cs)
  then have "drop (Suc p) d = c' # cs @ x # r" using drop_ConsD by fastforce
  then have "Suc p < length d" "d ! Suc p = c'" using drop_ConsD by fastforce+
  with Cons.IH [OF \<open>drop (Suc p) d = _\<close>] Cons.prems(2,3) show ?case
    by (subst field_scan.simps) (simp add: token_char_def)
qed

lemma header_field_loop_run:
  assumes "fits_limit e" and "drop p (input e) = cs @ x # r" and "\<forall>c \<in> set cs. token_char c"
    and "\<not> token_char x" and "field_run cs q = Inr q'"
  shows "header_field_loop e p ch q = Inr (p + length cs, x, q')"
  using assms(2,3,5)
proof (induction "length cs" arbitrary: cs p ch q rule: less_induct)
  case less
  show ?case
  proof (cases cs)
    case Nil
    then have "p < length (input e)" "input e ! p = x" using less.prems(1) drop_ConsD by fastforce+
    with Nil less.prems(3) assms(4) show ?thesis
      by (subst header_field_loop.simps) (simp add: token_char_def)
  next
    case (Cons c cs')
    then have p: "p < length (input e)" "input e ! p = c" "drop (Suc p) (input e) = cs' @ x # r"
      using less.prems(1) drop_ConsD by fastforce+
    have c: "TOKEN c \<noteq> NUL" using less.prems(2) Cons by (simp add: token_char_def)
    show ?thesis
    proof (cases "hp_header_state q = h_general")
      case True
      then have q': "q' = q" using less.prems(3) by simp
      have scan: "field_scan (input e) (scan_limit e p) p = p + length cs'"
        using field_scan_run [of p "input e" c cs' x r] less.prems(1,2) Cons assms(4) p(1)
          scan_limit_fits [OF assms(1), of p] by simp
      have "drop (Suc (p + length cs')) (input e) = x # r"
        using p(3) by (metis add_Suc append_eq_conv_conj drop_drop add.commute)
      then have "header_field_loop e (Suc (p + length cs')) c q = Inr (Suc (p + length cs'), x, q)"
        using less.hyps [of "[]" "Suc (p + length cs')" q c] Cons q' by simp
      with True p c scan q' Cons show ?thesis
        by (subst header_field_loop.simps) (simp add: header_field_char_def Let_def)
    next
      case False
      from less.prems(3) Cons obtain q1 where q1: "header_field_char (TOKEN c) c q = Inr q1" "field_run cs' q1 = Inr q'"
        by (auto simp: checked_bind_Inr)
      have "header_field_loop e (Suc p) c q1 = Inr (Suc p + length cs', x, q')"
        using less.hyps [of cs' "Suc p" q1 c] p(3) less.prems(2) q1(2) Cons by simp
      with False p c q1(1) Cons show ?thesis
        by (subst header_field_loop.simps) (simp add: Let_def)
    qed
  qed
qed

text \<open>The names that change how a message is read.\<close>

definition special_names :: "string list" where
  "special_names =
     [''connection'', ''proxy-connection'', ''content-length'', ''transfer-encoding'', ''upgrade'']"

text \<open>
  What the header state knows after the characters \<open>xs\<close> of a name (as the table of tokens
  maps them); \<open>i\<close> is the index.
\<close>

definition matching :: "string \<Rightarrow> nat \<Rightarrow> string \<Rightarrow> nat \<Rightarrow> bool" where
  "matching w k xs i \<longleftrightarrow> k \<le> i \<and> Suc i < length w \<and> xs = take (Suc i) w"

definition name_inv :: "string \<Rightarrow> header_states \<Rightarrow> nat \<Rightarrow> bool" where
  "name_inv xs h i \<longleftrightarrow>
     (case h of
        h_general \<Rightarrow> \<forall>w \<in> set special_names. take (length xs) w \<noteq> xs
      | h_C \<Rightarrow> xs = ''c'' \<and> i = 0
      | h_CO \<Rightarrow> xs = ''co'' \<and> i = 1
      | h_CON \<Rightarrow> xs = ''con'' \<and> i = 2
      | h_matching_connection \<Rightarrow> matching ''connection'' 3 xs i
      | h_matching_content_length \<Rightarrow> matching ''content-length'' 3 xs i
      | h_matching_proxy_connection \<Rightarrow> matching ''proxy-connection'' 0 xs i
      | h_matching_transfer_encoding \<Rightarrow> matching ''transfer-encoding'' 0 xs i
      | h_matching_upgrade \<Rightarrow> matching ''upgrade'' 0 xs i
      | h_connection \<Rightarrow> xs = ''connection'' \<or> xs = ''proxy-connection''
      | h_content_length \<Rightarrow> xs = ''content-length''
      | h_transfer_encoding \<Rightarrow> xs = ''transfer-encoding''
      | h_upgrade \<Rightarrow> xs = ''upgrade''
      | _ \<Rightarrow> False)"

lemma matching_next:
  assumes "matching w k xs i" and "w \<in> set special_names" and "unat (hp_index q) = i"
    and "hp_header_state q = h" and "h \<noteq> h_general"
  shows "match_field w whole c q = Inr (q\<lparr>hp_index := hp_index q + 1, hp_header_state :=
     (if c \<noteq> w ! Suc i then h_general else if Suc (Suc i) = length w then whole else h)\<rparr>) \<and>
   unat (hp_index q + 1) = Suc i \<and> take (Suc (Suc i)) w = xs @ [w ! Suc i]"
proof -
  have i: "Suc i < length w" and xs: "xs = take (Suc i) w" using assms(1) by (simp_all add: matching_def)
  have "length w \<le> 17" using assms(2) by (auto simp: special_names_def)
  with i have "unat (hp_index q + 1) = Suc i" using assms(3) by (simp add: unat_word_ariths)
  with i xs assms(4) show ?thesis
    by (auto simp: match_field_def Let_def match_word_def take_Suc_conv_app_nth)
qed

lemma matching_mismatch:
  assumes "matching w k xs i" and "t \<noteq> w ! Suc i"
    and "\<forall>w' \<in> set special_names. w' \<noteq> w \<longrightarrow> take (Suc k) w' \<noteq> take (Suc k) w"
  shows "\<forall>w' \<in> set special_names. take (length (xs @ [t])) w' \<noteq> xs @ [t]"
proof (intro ballI notI)
  fix w' assume w': "w' \<in> set special_names" "take (length (xs @ [t])) w' = xs @ [t]"
  have i: "k \<le> i" "Suc i < length w" and xs: "xs = take (Suc i) w" using assms(1) by (simp_all add: matching_def)
  have len: "length xs = Suc i" using i xs by simp
  have "take (Suc i) w' = take (Suc i) w" using w'(2) len xs by (metis append_eq_conv_conj length_append_singleton take_Suc_conv_app_nth take_take min.absorb1 le_SucI order_refl)
  then have "take (Suc k) w' = take (Suc k) w" using i(1) by (metis min.absorb1 Suc_le_mono take_take)
  then have "w' = w" using assms(3) w'(1) by blast
  then have "xs @ [t] = take (Suc i) w @ [w ! Suc i]" using w'(2) len i by (simp add: take_Suc_conv_app_nth)
  with assms(2) show False by simp
qed

lemma name_inv_matching:
  assumes "matching w k xs i" and "w \<in> set special_names"
    and "\<forall>w' \<in> set special_names. w' \<noteq> w \<longrightarrow> take (Suc k) w' \<noteq> take (Suc k) w"
    and "\<And>ys j. name_inv ys h j \<longleftrightarrow> matching w k ys j" and "\<And>j. name_inv w whole j"
  shows "name_inv (xs @ [t]) (if t \<noteq> w ! Suc i then h_general else if Suc (Suc i) = length w then whole else h)
    (Suc i)"
proof -
  have i: "k \<le> i" "Suc i < length w" and xs: "xs = take (Suc i) w" using assms(1) by (simp_all add: matching_def)
  then have ext: "xs @ [w ! Suc i] = take (Suc (Suc i)) w" by (simp add: take_Suc_conv_app_nth)
  consider "t \<noteq> w ! Suc i" | "t = w ! Suc i" "Suc (Suc i) = length w" | "t = w ! Suc i" "Suc (Suc i) < length w"
    using i by linarith
  then show ?thesis
  proof cases
    case 1
    with matching_mismatch [OF assms(1) _ assms(3)] show ?thesis by (simp add: name_inv_def)
  next
    case 2
    then have "xs @ [t] = w" using ext by simp
    with 2 assms(5) show ?thesis by simp
  next
    case 3
    with ext i assms(4) show ?thesis by (simp add: matching_def)
  qed
qed

text \<open>One character of a name.\<close>

definition name_step :: "string \<Rightarrow> 'u http_parser \<Rightarrow> 'u http_parser \<Rightarrow> bool" where
  "name_step xs q q' \<longleftrightarrow> name_inv xs (hp_header_state q') (unat (hp_index q')) \<and>
     q' = q\<lparr>hp_index := hp_index q', hp_header_state := hp_header_state q', hp_flags := hp_flags q'\<rparr> \<and>
     hp_flags q' = (if hp_header_state q' = h_transfer_encoding
       then add_flag (hp_flags q) F_TRANSFER_ENCODING else hp_flags q)"

lemma name_inv_simps:
  "name_inv ys h_matching_connection j \<longleftrightarrow> matching ''connection'' 3 ys j"
  "name_inv ys h_matching_content_length j \<longleftrightarrow> matching ''content-length'' 3 ys j"
  "name_inv ys h_matching_proxy_connection j \<longleftrightarrow> matching ''proxy-connection'' 0 ys j"
  "name_inv ys h_matching_transfer_encoding j \<longleftrightarrow> matching ''transfer-encoding'' 0 ys j"
  "name_inv ys h_matching_upgrade j \<longleftrightarrow> matching ''upgrade'' 0 ys j"
  "name_inv ''connection'' h_connection j" "name_inv ''proxy-connection'' h_connection j"
  "name_inv ''content-length'' h_content_length j" "name_inv ''transfer-encoding'' h_transfer_encoding j"
  "name_inv ''upgrade'' h_upgrade j"
  by (simp_all add: name_inv_def)

lemma name_step_matching:
  assumes inv: "name_inv xs (hp_header_state q) (unat (hp_index q))"
    and h: "hp_header_state q = h" "h \<noteq> h_general" and w: "w \<in> set special_names"
    and m: "\<And>ys j. name_inv ys h j \<longleftrightarrow> matching w k ys j"
    and other: "\<forall>w' \<in> set special_names. w' \<noteq> w \<longrightarrow> take (Suc k) w' \<noteq> take (Suc k) w"
    and whole: "\<And>j. name_inv w whole j"
  shows "\<exists>q'. match_field w whole t q = Inr q' \<and>
    name_inv (xs @ [t]) (hp_header_state q') (unat (hp_index q')) \<and>
    q' = q\<lparr>hp_index := hp_index q', hp_header_state := hp_header_state q'\<rparr> \<and>
    hp_header_state q' \<in> {h_general, whole, h}"
proof -
  have "matching w k xs (unat (hp_index q))" using inv h m by simp
  from matching_next [OF this w refl h, of whole t] name_inv_matching [OF this w other m whole, of t]
  show ?thesis by simp
qed

lemma name_step_simple:
  assumes "name_inv xs h (unat i)" and "h \<noteq> h_transfer_encoding"
  shows "name_step xs q (q\<lparr>hp_index := i, hp_header_state := h\<rparr>)"
  using assms by (cases q) (simp add: name_step_def)

lemma name_step_same:
  assumes "name_inv xs h (unat (hp_index q))" and "h \<noteq> h_transfer_encoding"
  shows "name_step xs q (q\<lparr>hp_header_state := h\<rparr>)"
  using assms by (cases q) (simp add: name_step_def)

lemma name_step_match:
  assumes inv: "name_inv xs (hp_header_state q) (unat (hp_index q))"
    and h: "hp_header_state q = h" "h \<noteq> h_general" and w: "w \<in> set special_names"
    and m: "\<And>ys j. name_inv ys h j \<longleftrightarrow> matching w k ys j"
    and other: "\<forall>w' \<in> set special_names. w' \<noteq> w \<longrightarrow> take (Suc k) w' \<noteq> take (Suc k) w"
    and whole: "\<And>j. name_inv w whole j" and te: "h \<noteq> h_transfer_encoding" "whole \<noteq> h_transfer_encoding"
  shows "\<exists>q'. match_field w whole t q = Inr q' \<and> name_step (xs @ [t]) q q'"
proof -
  obtain q' where q': "match_field w whole t q = Inr q'"
      "name_inv (xs @ [t]) (hp_header_state q') (unat (hp_index q'))"
      "q' = q\<lparr>hp_index := hp_index q', hp_header_state := hp_header_state q'\<rparr>"
      "hp_header_state q' \<in> {h_general, whole, h}"
    using name_step_matching [OF inv h w m other whole, of t] by blast
  have "hp_header_state q' \<noteq> h_transfer_encoding" using q'(4) te by auto
  from name_step_simple [OF q'(2) this, of q] q'(3) have "name_step (xs @ [t]) q q'" by simp
  with q'(1) show ?thesis by blast
qed

lemma others_differ:
  "\<forall>w' \<in> set special_names. w' \<noteq> ''connection'' \<longrightarrow> take (Suc 3) w' \<noteq> take (Suc 3) ''connection''"
  "\<forall>w' \<in> set special_names. w' \<noteq> ''content-length'' \<longrightarrow> take (Suc 3) w' \<noteq> take (Suc 3) ''content-length''"
  "\<forall>w' \<in> set special_names. w' \<noteq> ''proxy-connection'' \<longrightarrow> take (Suc 0) w' \<noteq> take (Suc 0) ''proxy-connection''"
  "\<forall>w' \<in> set special_names. w' \<noteq> ''transfer-encoding'' \<longrightarrow> take (Suc 0) w' \<noteq> take (Suc 0) ''transfer-encoding''"
  "\<forall>w' \<in> set special_names. w' \<noteq> ''upgrade'' \<longrightarrow> take (Suc 0) w' \<noteq> take (Suc 0) ''upgrade''"
  by (simp_all add: special_names_def)

lemma special_members [simp]:
  "''connection'' \<in> set special_names" "''content-length'' \<in> set special_names"
  "''proxy-connection'' \<in> set special_names" "''transfer-encoding'' \<in> set special_names"
  "''upgrade'' \<in> set special_names"
  by (simp_all add: special_names_def)

lemma name_inv_short:
  "name_inv ''c'' h_C 0" "name_inv ''co'' h_CO (Suc 0)" "name_inv ''con'' h_CON 2"
  "name_inv ''conn'' h_matching_connection 3" "name_inv ''cont'' h_matching_content_length 3"
  "t \<noteq> CHR ''o'' \<Longrightarrow> name_inv [CHR ''c'', t] h_general j"
  "t \<noteq> CHR ''n'' \<Longrightarrow> name_inv [CHR ''c'', CHR ''o'', t] h_general j"
  "t \<noteq> CHR ''n'' \<Longrightarrow> t \<noteq> CHR ''t'' \<Longrightarrow> name_inv [CHR ''c'', CHR ''o'', CHR ''n'', t] h_general j"
  by (auto simp: name_inv_def matching_def special_names_def)

lemma name_inv_longer:
  "xs \<in> set special_names \<Longrightarrow> name_inv (xs @ [t]) h_general j"
  by (auto simp: name_inv_def special_names_def)

lemma name_inv_general:
  assumes "name_inv xs h_general j"
  shows "name_inv (xs @ [t]) h_general j'"
proof -
  have "take (length xs) w = xs" if "take (Suc (length xs)) w = xs @ [t]" for w
    using arg_cong [OF that, of "take (length xs)"] by simp
  with assms show ?thesis by (auto simp: name_inv_def)
qed

lemma header_field_char_short:
  "hp_header_state q = h_C \<Longrightarrow> header_field_char t c q = Inr (q\<lparr>hp_index := hp_index q + 1,
     hp_header_state := (if t = CHR ''o'' then h_CO else h_general)\<rparr>)"
  "hp_header_state q = h_CO \<Longrightarrow> header_field_char t c q = Inr (q\<lparr>hp_index := hp_index q + 1,
     hp_header_state := (if t = CHR ''n'' then h_CON else h_general)\<rparr>)"
  "hp_header_state q = h_CON \<Longrightarrow> header_field_char t c q = Inr (q\<lparr>hp_index := hp_index q + 1,
     hp_header_state := (if t = CHR ''n'' then h_matching_connection
       else if t = CHR ''t'' then h_matching_content_length else h_general)\<rparr>)"
  by (simp_all add: header_field_char_def)

lemma header_field_char_longer:
  "hp_header_state q \<in> {h_connection, h_content_length, h_transfer_encoding, h_upgrade} \<Longrightarrow> c \<noteq> SP \<Longrightarrow>
     header_field_char t c q = Inr (q\<lparr>hp_header_state := h_general\<rparr>)"
  by (auto simp: header_field_char_def)

lemma header_field_char_step:
  assumes inv: "name_inv xs (hp_header_state q) (unat (hp_index q))" and c: "token_char c"
  shows "\<exists>q'. header_field_char (TOKEN c) c q = Inr q' \<and> name_step (xs @ [TOKEN c]) q q'"
proof -
  let ?t = "TOKEN c"
  have sp: "c \<noteq> SP" using c by (auto simp: token_char_def TOKEN_def STRICT_TOKEN_def)
  have short: ?thesis if "header_field_char ?t c q = Inr (q\<lparr>hp_index := hp_index q + 1, hp_header_state := h\<rparr>)"
      "name_inv (xs @ [?t]) h (unat (hp_index q + 1))" "h \<noteq> h_transfer_encoding" for h
    using that(1) name_step_simple [OF that(2,3), of q] by blast
  have longer: ?thesis if h: "hp_header_state q \<in> {h_connection, h_content_length, h_transfer_encoding, h_upgrade}"
  proof -
    have "xs \<in> set special_names" using inv h by (auto simp: name_inv_def)
    from name_step_same [OF name_inv_longer [OF this], of ?t q] header_field_char_longer [OF h sp, of ?t]
    show ?thesis by auto
  qed
  show ?thesis
  proof (cases "hp_header_state q")
    case h_general
    then have "name_inv (xs @ [?t]) h_general (unat (hp_index q))" using inv name_inv_general by auto
    with h_general show ?thesis by (simp add: header_field_char_def Let_def name_step_def)
  next
    case h_C
    then have "xs = ''c''" "unat (hp_index q + 1) = 1" using inv by (simp_all add: name_inv_def unat_word_ariths)
    then show ?thesis by (intro short [OF header_field_char_short(1) [OF h_C]]) (simp_all add: name_inv_short)
  next
    case h_CO
    then have "xs = ''co''" "unat (hp_index q + 1) = 2" using inv by (simp_all add: name_inv_def unat_word_ariths)
    then show ?thesis by (intro short [OF header_field_char_short(2) [OF h_CO]]) (simp_all add: name_inv_short)
  next
    case h_CON
    then have "xs = ''con''" "unat (hp_index q + 1) = 3" using inv by (simp_all add: name_inv_def unat_word_ariths)
    then show ?thesis by (intro short [OF header_field_char_short(3) [OF h_CON]]) (simp_all add: name_inv_short)
  next
    case h_matching_connection
    from name_step_match [OF inv this _ _ name_inv_simps(1) others_differ(1) name_inv_simps(6), of ?t]
    show ?thesis by (simp add: header_field_char_def h_matching_connection)
  next
    case h_matching_content_length
    from name_step_match [OF inv this _ _ name_inv_simps(2) others_differ(2) name_inv_simps(8), of ?t]
    show ?thesis by (simp add: header_field_char_def h_matching_content_length)
  next
    case h_matching_proxy_connection
    from name_step_match [OF inv this _ _ name_inv_simps(3) others_differ(3) name_inv_simps(7), of ?t]
    show ?thesis by (simp add: header_field_char_def h_matching_proxy_connection)
  next
    case h_matching_upgrade
    from name_step_match [OF inv this _ _ name_inv_simps(5) others_differ(5) name_inv_simps(10), of ?t]
    show ?thesis by (simp add: header_field_char_def h_matching_upgrade)
  next
    case h_matching_transfer_encoding
    from name_step_matching [OF inv this _ _ name_inv_simps(4) others_differ(4) name_inv_simps(9), of ?t]
    obtain q' where q': "match_field ''transfer-encoding'' h_transfer_encoding ?t q = Inr q'"
      "name_inv (xs @ [?t]) (hp_header_state q') (unat (hp_index q'))"
      "q' = q\<lparr>hp_index := hp_index q', hp_header_state := hp_header_state q'\<rparr>" by auto
    let ?f = "if hp_header_state q' = h_transfer_encoding
      then q'\<lparr>hp_flags := add_flag (hp_flags q') F_TRANSFER_ENCODING\<rparr> else q'"
    have "header_field_char ?t c q = Inr ?f"
      using q'(1) by (simp add: header_field_char_def h_matching_transfer_encoding)
    moreover have "name_step (xs @ [?t]) q ?f" using q'(2,3) by (cases q, cases q') (auto simp: name_step_def)
    ultimately show ?thesis by blast
  qed (use inv longer in \<open>simp_all add: name_inv_def\<close>)
qed

definition name_start :: "char \<Rightarrow> header_states" where
  "name_start c =
     (if TOKEN c = CHR ''c'' then h_C
      else if TOKEN c = CHR ''p'' then h_matching_proxy_connection
      else if TOKEN c = CHR ''t'' then h_matching_transfer_encoding
      else if TOKEN c = CHR ''u'' then h_matching_upgrade
      else h_general)"

lemma name_inv_start: "name_inv [TOKEN c] (name_start c) 0"
  by (auto simp: name_start_def name_inv_def matching_def special_names_def)

text \<open>The header state is exactly what it claims to be.\<close>

definition finished_states :: "header_states set" where
  "finished_states = {h_connection, h_content_length, h_transfer_encoding, h_upgrade}"

lemma special_not_prefix:
  "v \<in> set special_names \<Longrightarrow> w \<in> set special_names \<Longrightarrow> take (length v) w = v \<Longrightarrow> v = w"
  by (auto simp: special_names_def)

lemma name_inv_finished:
  assumes "name_inv xs h i"
  shows "xs \<in> set special_names \<longleftrightarrow> h \<in> finished_states"
proof
  assume "h \<in> finished_states"
  with assms show "xs \<in> set special_names" by (auto simp: finished_states_def name_inv_def)
next
  assume xs: "xs \<in> set special_names"
  then have not_short: "xs \<noteq> ''c''" "xs \<noteq> ''co''" "xs \<noteq> ''con''" by (auto simp: special_names_def)
  have no_match: "\<not> matching w k xs i" if "w \<in> set special_names" for w k
    using special_not_prefix [OF xs that] by (auto simp: matching_def)
  have "h \<noteq> h_general" using assms xs by (force simp: name_inv_def)
  with assms not_short no_match show "h \<in> finished_states"
    by (cases h) (simp_all add: name_inv_def finished_states_def)
qed

lemma name_inv_special:
  assumes "name_inv xs h i"
  shows "h = h_connection \<longleftrightarrow> xs = ''connection'' \<or> xs = ''proxy-connection''"
    and "h = h_content_length \<longleftrightarrow> xs = ''content-length''"
    and "h = h_transfer_encoding \<longleftrightarrow> xs = ''transfer-encoding''"
    and "h = h_upgrade \<longleftrightarrow> xs = ''upgrade''"
  using name_inv_finished [OF assms] assms
  by (auto simp: finished_states_def name_inv_def)

text \<open>A whole name.\<close>

definition te_prefix :: "string \<Rightarrow> bool" where
  "te_prefix xs \<longleftrightarrow> take 17 xs = ''transfer-encoding''"

lemma te_prefix_long: "te_prefix xs \<Longrightarrow> 17 \<le> length xs"
proof -
  assume "te_prefix xs"
  then have "length (take 17 xs) = length ''transfer-encoding''" by (simp only: te_prefix_def)
  then show ?thesis by simp
qed

lemma te_prefix_new: "xs @ [t] = ''transfer-encoding'' \<Longrightarrow> \<not> te_prefix xs"
  using te_prefix_long [of xs] arg_cong [of "xs @ [t]" "''transfer-encoding''" length] by auto

lemma te_prefix_snoc: "te_prefix (xs @ [t]) \<longleftrightarrow> te_prefix xs \<or> xs @ [t] = ''transfer-encoding''"
proof (cases "length xs < 17")
  case True
  then have "take 17 (xs @ [t]) = xs @ [t]" by simp
  then show ?thesis using True te_prefix_long [of xs] by (auto simp: te_prefix_def)
next
  case False
  then have "take 17 (xs @ [t]) = take 17 xs" by simp
  moreover have "xs @ [t] \<noteq> ''transfer-encoding''"
    using False by auto
  ultimately show ?thesis unfolding te_prefix_def by metis
qed

lemma te_prefix_append: "te_prefix xs \<Longrightarrow> te_prefix (xs @ ys)"
proof (induction ys rule: rev_induct)
  case (snoc y ys)
  then show ?case using te_prefix_snoc [of "xs @ ys" y] by simp
qed simp

lemma field_run_name:
  assumes "name_inv xs (hp_header_state q) (unat (hp_index q))" and "\<forall>c \<in> set cs. token_char c"
  shows "\<exists>q'. field_run cs q = Inr q' \<and> name_inv (xs @ map TOKEN cs) (hp_header_state q') (unat (hp_index q')) \<and>
    q' = q\<lparr>hp_index := hp_index q', hp_header_state := hp_header_state q', hp_flags := hp_flags q'\<rparr> \<and>
    hp_flags q' = (if te_prefix (xs @ map TOKEN cs) \<and> \<not> te_prefix xs
      then add_flag (hp_flags q) F_TRANSFER_ENCODING else hp_flags q)"
  using assms
proof (induction cs arbitrary: xs q)
  case Nil
  then show ?case by simp
next
  case (Cons c cs)
  let ?xs = "xs @ [TOKEN c]"
  obtain q1 where q1: "header_field_char (TOKEN c) c q = Inr q1" "name_step ?xs q q1"
    using header_field_char_step [OF Cons.prems(1)] Cons.prems(2) by auto
  then have inv1: "name_inv ?xs (hp_header_state q1) (unat (hp_index q1))" by (simp add: name_step_def)
  from Cons.IH [OF this] Cons.prems(2) obtain q' where q': "field_run cs q1 = Inr q'"
    "name_inv (?xs @ map TOKEN cs) (hp_header_state q') (unat (hp_index q'))"
    "q' = q1\<lparr>hp_index := hp_index q', hp_header_state := hp_header_state q', hp_flags := hp_flags q'\<rparr>"
    "hp_flags q' = (if te_prefix (?xs @ map TOKEN cs) \<and> \<not> te_prefix ?xs
      then add_flag (hp_flags q1) F_TRANSFER_ENCODING else hp_flags q1)" by auto
  have fl1: "hp_flags q1 = (if ?xs = ''transfer-encoding'' then add_flag (hp_flags q) F_TRANSFER_ENCODING
      else hp_flags q)"
    using q1(2) name_inv_special(3) [OF inv1] by (simp add: name_step_def)
  have "q' = q\<lparr>hp_index := hp_index q', hp_header_state := hp_header_state q', hp_flags := hp_flags q'\<rparr>"
    using q1(2) q'(3) by (cases q, cases q1, cases q') (simp add: name_step_def)
  moreover have "hp_flags q' = (if te_prefix (xs @ map TOKEN (c # cs)) \<and> \<not> te_prefix xs
      then add_flag (hp_flags q) F_TRANSFER_ENCODING else hp_flags q)"
    using q'(4) fl1 te_prefix_snoc [of xs "TOKEN c"] te_prefix_new [of xs "TOKEN c"]
      te_prefix_append [of ?xs "map TOKEN cs"] by (auto split: if_splits)
  ultimately show ?case using q1(1) q'(1,2) by auto
qed

end
