(* ===== verification/Http_Requests.thy ===== *)
theory Http_Requests
  imports Http_Names Http_Api
begin

text \<open>
  Whole requests: the text of a request and what the parser makes of it.
\<close>

section \<open>The loop over a value\<close>

lemma drop_appendD: "drop p xs = us @ r \<Longrightarrow> drop (p + length us) xs = r"
  by (metis add.commute append_eq_conv_conj drop_drop)

definition value_char :: "char \<Rightarrow> bool" where
  "value_char c \<longleftrightarrow> c \<noteq> CR \<and> c \<noteq> LF \<and> IS_HEADER_CHAR c"

lemma value_scan_run:
  assumes "drop p d = cs @ CR # r" and "\<forall>c \<in> set cs. value_char c" and "cs \<noteq> [] \<or> 0 < p"
  shows "value_scan l d (length d) p = Inr (p + length cs - 1)"
  using assms
proof (induction cs arbitrary: p)
  case Nil
  then have "p < length d" "d ! p = CR" using drop_ConsD by fastforce+
  then show ?case by (subst value_scan.simps) simp
next
  case (Cons c cs)
  then have p: "p < length d" "d ! p = c" "drop (Suc p) d = cs @ CR # r" using drop_ConsD by fastforce+
  with Cons.IH [OF p(3)] Cons.prems(2) show ?case
    by (subst value_scan.simps) (simp add: value_char_def)
qed

lemma header_value_loop_run:
  assumes "fits_limit e" and "drop p (input e) = cs @ CR # r" and "\<forall>c \<in> set cs. value_char c"
  shows "header_value_loop e p h_general q = HV_CR (p + length cs) h_general q"
proof -
  have last: "header_value_loop e p' h_general q = HV_CR p' h_general q" if "drop p' (input e) = CR # r" for p'
    using drop_ConsD [OF that] by (subst header_value_loop.simps) simp
  show ?thesis
  proof (cases cs)
    case Nil
    with last [of p] assms(2) show ?thesis by simp
  next
    case (Cons c cs')
    then have p: "p < length (input e)" "input e ! p = c" using assms(2) drop_ConsD by fastforce+
    have c: "value_char c" using assms(3) Cons by simp
    have scan: "value_scan (lenient e) (input e) (scan_limit e p) p = Inr (p + length cs - 1)"
      using value_scan_run [OF assms(2,3)] Cons p(1) scan_limit_fits [OF assms(1), of p] by simp
    have "p + length cs - 1 \<noteq> length (input e)"
    proof -
      have "drop (p + length cs) (input e) = CR # r"
        using assms(2) by (rule drop_appendD)
      with drop_ConsD [OF this] show ?thesis by linarith
    qed
    moreover have "drop (p + length cs) (input e) = CR # r"
      using assms(2) by (rule drop_appendD)
    ultimately show ?thesis
      using p c scan last [of "p + length cs"] Cons
      by (subst header_value_loop.simps) (auto simp: Let_def value_char_def)
  qed
qed

section \<open>Rules with callbacks\<close>

lemma colon_no_token [simp]: "\<not> token_char CHR '':''"
  by (simp add: token_char_def TOKEN_def spec_simps token_spec_def char_class_defs)

lemma token_char_simps: "token_char c \<Longrightarrow> c \<noteq> CR \<and> c \<noteq> LF \<and> c \<noteq> SP \<and> c \<noteq> HT \<and> TOKEN c \<noteq> NUL"
  by (auto simp: token_char_def TOKEN_def spec_simps token_spec_def char_class_defs)

lemma callback_data_loc:
  assumes "hp_http_errno q = HPE_OK" and "mark_cb m (settings e) = Some f"
    and "drop a (input e) = u @ r" and "stop = a + length u"
    and "f u (q\<lparr>hp_state := x\<rparr>) = Inr (0, q')" and "hp_http_errno q' = HPE_OK" and "hp_state q' = y" and "r \<noteq> []"
  shows "CALLBACK_DATA_AT m stop er e (loc c p n x (Some (m, a)) q) k = k (loc c p n y None q')"
proof -
  have "a < length (input e)" using assms(3,8) by (metis Nil_is_append_conv drop_all linorder_not_less)
  then have "stop \<le> length (input e)" using arg_cong [OF assms(3), of length] assms(4) by simp
  then show ?thesis
    using assms by (simp add: CALLBACK_DATA_AT_def after_callback_ok)
qed

text \<open>The header states after a name without a meaning for the parser.\<close>

definition plain_states :: "header_states set" where
  "plain_states = {h_general, h_C, h_CO, h_CON, h_matching_connection, h_matching_proxy_connection,
     h_matching_content_length, h_matching_transfer_encoding, h_matching_upgrade}"

context data_transformers begin

lemma runs_message_begin:
  assumes "settings e = st" and "fits_limit e" and "first_method c = Some m0" and "hp_http_errno q = HPE_OK"
    and "runs e r (Suc p) s_req_method None
      (q\<lparr>hp_flags := 0, hp_content_length := ULLONG_MAX, hp_index := 1, hp_method := m0,
         hp_state := s_req_method, hp_data := begin_d (hp_data q)\<rparr>) oc"
  shows "runs e (c # r) p s_start_req None q oc"
proof -
  have c: "IS_ALPHA c" "c \<noteq> CR" "c \<noteq> LF"
    using assms(3) by (auto simp: first_method_def map_of_Cons_code IS_ALPHA_def split: if_splits)
  have "exec_switch e (loc c p (Suc p) s_start_req None q) = Break (loc c p (Suc p) s_req_method None
      (q\<lparr>hp_flags := 0, hp_content_length := ULLONG_MAX, hp_index := 1, hp_method := m0,
         hp_state := s_req_method, hp_data := begin_d (hp_data q)\<rparr>))"
    using assms(1,3,4) c
    by (simp add: exec_switch_def exec_start_req_def Let_def CALLBACK_NOTIFY_def CALLBACK_NOTIFY_AT_def
        UPDATE_STATE_def message_begin_cb after_callback_ok)
  from runs_step [OF assms(2) _ this assms(5)] show ?thesis by (simp add: PARSING_HEADER_num)
qed

lemma runs_url_end:
  assumes "settings e = st" and "fits_limit e" and "x \<in> url_end_states" and "hp_http_errno q = HPE_OK"
    and "drop a (input e) = u @ SP # r" and "url_d (hp_method q) u (hp_data q) = Inr d"
    and "runs e r (Suc (a + length u)) s_req_http_start None (q\<lparr>hp_state := s_req_http_start, hp_data := d\<rparr>) oc"
  shows "runs e (SP # r) (a + length u) x (Some (M_url, a)) q oc"
proof (rule runs_step [OF assms(2) _ _ assms(7)])
  note cb = url_cb [folded assms(1), folded mark_cb.simps(3)]
  have "CALLBACK_DATA_AT M_url (a + length u) (Suc (a + length u)) e
      (loc SP (a + length u) (Suc (a + length u)) s_req_http_start (Some (M_url, a)) q) Break =
    Break (loc SP (a + length u) (Suc (a + length u)) s_req_http_start None
      (q\<lparr>hp_state := s_req_http_start, hp_data := d\<rparr>))"
    by (rule callback_data_loc [OF assms(4) cb assms(5)]) (use assms(4,6) in simp_all)
  then show "exec_switch e (loc SP (a + length u) (Suc (a + length u)) x (Some (M_url, a)) q) =
      Break (loc SP (a + length u) (Suc (a + length u)) s_req_http_start None
        (q\<lparr>hp_state := s_req_http_start, hp_data := d\<rparr>))"
    using assms(3)
    by (auto simp: url_end_states_def exec_switch_def exec_req_url_def CALLBACK_DATA_def UPDATE_STATE_def)
  show "PARSING_HEADER x" using assms(3) by (auto simp: url_end_states_def PARSING_HEADER_num)
qed

lemma runs_field:
  assumes "settings e = st" and "fits_limit e" and "drop p (input e) = (c # cs) @ CHR '':'' # r"
    and "\<forall>c \<in> set (c # cs). token_char c" and "hp_http_errno q = HPE_OK"
    and "field_run cs (q\<lparr>hp_index := 0, hp_header_state := name_start c\<rparr>) = Inr q'"
    and "hp_http_errno q' = HPE_OK"
    and "runs e r (Suc (p + length (c # cs))) s_header_value_discard_ws None
      (q'\<lparr>hp_state := s_header_value_discard_ws, hp_data := field_d (c # cs) (hp_data q')\<rparr>) oc"
  shows "runs e ((c # cs) @ CHR '':'' # r) p s_header_field_start None q oc"
proof -
  let ?q = "q\<lparr>hp_index := 0, hp_header_state := name_start c\<rparr>" and ?p = "Suc p + length cs"
  note cb = header_field_cb [folded assms(1), folded mark_cb.simps(1)]
  have c: "c \<noteq> CR" "c \<noteq> LF" "TOKEN c \<noteq> NUL" using assms(4) token_char_simps by auto
  have start: "exec_switch e (loc c p (Suc p) s_header_field_start None q) =
      Break (loc c p (Suc p) s_header_field (Some (M_header_field, p)) ?q)"
    using c by (simp add: exec_switch_def exec_header_field_start_def Let_def UPDATE_STATE_def name_start_def)
  have d: "drop (Suc p) (input e) = cs @ CHR '':'' # r"
    using drop_ConsD [OF assms(3) [unfolded append_Cons]] by blast
  have dc: "drop ?p (input e) = CHR '':'' # r" using d by (rule drop_appendD)
  from drop_ConsD [OF this] have len: "?p < length (input e)" by simp
  have loop: "header_field_loop e (Suc p) ch ?q = Inr (?p, CHR '':'', q')" for ch
    by (rule header_field_loop_run [OF assms(2) d _ _ assms(6)]) (use assms(4) in simp_all)
  have cnt: "COUNT_HEADER_SIZE e (length cs) (loc CHR '':'' ?p (Suc (Suc p)) x mk q') k =
      k (loc CHR '':'' ?p (Suc ?p) x mk q')" for x mk k
    using count_loc [of "Suc (Suc p)" "length cs" e] assms(2) len by (simp add: fits_limit_def)
  have "CALLBACK_DATA_AT M_header_field ?p (Suc ?p) e
      (loc CHR '':'' ?p (Suc ?p) s_header_value_discard_ws (Some (M_header_field, p)) q') Break =
    Break (loc CHR '':'' ?p (Suc ?p) s_header_value_discard_ws None
      (q'\<lparr>hp_state := s_header_value_discard_ws, hp_data := field_d (c # cs) (hp_data q')\<rparr>))"
    by (rule callback_data_loc [OF assms(7) cb assms(3)]) (use assms(7) in simp_all)
  with cnt [of s_header_field] loop len
  have step: "exec_switch e (loc ch (Suc p) (Suc (Suc p)) s_header_field (Some (M_header_field, p)) ?q) =
    Break (loc CHR '':'' ?p (Suc ?p) s_header_value_discard_ws None
      (q'\<lparr>hp_state := s_header_value_discard_ws, hp_data := field_d (c # cs) (hp_data q')\<rparr>))" for ch
    by (simp add: exec_switch_def exec_header_field_def Let_def CALLBACK_DATA_def UPDATE_STATE_def)
  obtain c2 r2 where c2: "cs @ CHR '':'' # r = c2 # r2" by (cases cs) auto
  have "runs e (c2 # r2) (Suc p) s_header_field (Some (M_header_field, p)) ?q oc"
  proof (rule runs_byte [OF assms(2), where p' = ?p and r' = r])
    show "?p < length (input e) \<and> drop (Suc ?p) (input e) = r \<and>
        dispatch e (loc c2 (Suc p) (Suc (Suc p)) s_header_field (Some (M_header_field, p)) ?q) =
        Some (Break (loc CHR '':'' ?p (Suc ?p) s_header_value_discard_ws None
          (q'\<lparr>hp_state := s_header_value_discard_ws, hp_data := field_d (c # cs) (hp_data q')\<rparr>)))"
      using len drop_ConsD [OF dc] dispatch_Break [OF step] by blast
    show "runs e r (Suc ?p) s_header_value_discard_ws None
        (q'\<lparr>hp_state := s_header_value_discard_ws, hp_data := field_d (c # cs) (hp_data q')\<rparr>) oc"
      using assms(8) by simp
  qed (simp add: PARSING_HEADER_num)
  then show ?thesis
    using runs_step [OF assms(2) _ start] c2 by (simp add: PARSING_HEADER_num)
qed

text \<open>A value, given what its first byte and the loop over the others do to the header state.\<close>

lemma runs_value_from:
  assumes "settings e = st" and "fits_limit e" and "drop p (input e) = (c # cs) @ CR # LF # r"
    and start: "exec_switch e (loc c p (Suc p) s_header_value_discard_ws None q) =
      Break (loc c p (Suc p) s_header_value (Some (M_header_value, p)) q1)"
    and loop: "header_value_loop e (Suc p) (hp_header_state q1) q1 = HV_CR (Suc p + length cs) h q2"
    and "hp_http_errno q2 = HPE_OK"
    and "runs e r (Suc (Suc (p + length (c # cs)))) s_header_value_lws None
      (q2\<lparr>hp_state := s_header_almost_done, hp_data := value_d (c # cs) (hp_data q2), hp_header_state := h\<rparr>) oc"
  shows "runs e ((c # cs) @ CR # LF # r) p s_header_value_discard_ws None q oc"
proof -
  let ?p = "Suc p + length cs"
  let ?q' = "q2\<lparr>hp_state := s_header_almost_done, hp_data := value_d (c # cs) (hp_data q2), hp_header_state := h\<rparr>"
  note cb = header_value_cb [folded assms(1), folded mark_cb.simps(2)]
  have d: "drop (Suc p) (input e) = cs @ CR # LF # r"
    using drop_ConsD [OF assms(3) [unfolded append_Cons]] by blast
  have dc: "drop ?p (input e) = CR # LF # r" using d by (rule drop_appendD)
  from drop_ConsD [OF this] have len: "?p < length (input e)" by simp
  have cnt: "COUNT_HEADER_SIZE e (length cs) (loc CR ?p (Suc (Suc p)) x mk q') k =
      k (loc CR ?p (Suc ?p) x mk q')" for x mk k q'
    using count_loc [of "Suc (Suc p)" "length cs" e] assms(2) len by (simp add: fits_limit_def)
  have "CALLBACK_DATA_AT M_header_value ?p (Suc ?p) e
      (loc CR ?p (Suc (Suc p)) s_header_almost_done (Some (M_header_value, p)) (q2\<lparr>hp_header_state := h\<rparr>)) k =
    k (loc CR ?p (Suc (Suc p)) s_header_almost_done None
      (q2\<lparr>hp_header_state := h, hp_state := s_header_almost_done, hp_data := value_d (c # cs) (hp_data q2)\<rparr>))" for k
    by (rule callback_data_loc [OF _ cb assms(3)]) (use assms(6) in simp_all)
  with cnt loop
  have step: "exec_switch e (loc ch (Suc p) (Suc (Suc p)) s_header_value (Some (M_header_value, p)) q1) =
    Break (loc CR ?p (Suc ?p) s_header_almost_done None ?q')" for ch
    by (simp add: exec_switch_def exec_header_value_def Let_def CALLBACK_DATA_def UPDATE_STATE_def
        set_header_state_def)
  obtain c2 r2 where c2: "cs @ CR # LF # r = c2 # r2" by (cases cs) auto
  have "runs e (c2 # r2) (Suc p) s_header_value (Some (M_header_value, p)) q1 oc"
  proof (rule runs_byte [OF assms(2), where p' = ?p and r' = "LF # r"])
    show "?p < length (input e) \<and> drop (Suc ?p) (input e) = LF # r \<and>
        dispatch e (loc c2 (Suc p) (Suc (Suc p)) s_header_value (Some (M_header_value, p)) q1) =
        Some (Break (loc CR ?p (Suc ?p) s_header_almost_done None ?q'))"
      using len drop_ConsD [OF dc] dispatch_Break [OF step] by blast
    show "runs e (LF # r) (Suc ?p) s_header_almost_done None ?q' oc"
      using assms(7) by (intro plain_steps [OF assms(2)]) simp
  qed (simp add: PARSING_HEADER_num)
  then show ?thesis
    using runs_step [OF assms(2) _ start] c2 by (simp add: PARSING_HEADER_num)
qed

lemma runs_value:
  assumes "settings e = st" and "fits_limit e" and "drop p (input e) = (c # cs) @ CR # LF # r"
    and "c \<noteq> SP" "c \<noteq> HT" "c \<noteq> CR" "c \<noteq> LF" and "\<forall>c \<in> set cs. value_char c"
    and "hp_header_state q \<in> plain_states" and "hp_http_errno q = HPE_OK"
    and "runs e r (Suc (Suc (p + length (c # cs)))) s_header_value_lws None
      (q\<lparr>hp_index := 0, hp_state := s_header_almost_done, hp_data := value_d (c # cs) (hp_data q),
         hp_header_state := h_general\<rparr>) oc"
  shows "runs e ((c # cs) @ CR # LF # r) p s_header_value_discard_ws None q oc"
proof (rule runs_value_from [OF assms(1-3)])
  let ?q = "q\<lparr>hp_index := 0, hp_header_state := h_general\<rparr>"
  show "exec_switch e (loc c p (Suc p) s_header_value_discard_ws None q) =
      Break (loc c p (Suc p) s_header_value (Some (M_header_value, p)) ?q)"
    using assms(4-7,9)
    by (auto simp: exec_switch_def exec_header_value_discard_ws_def exec_header_value_start_def Let_def
        UPDATE_STATE_def set_header_state_def plain_states_def)
  have "drop (Suc p) (input e) = cs @ CR # LF # r"
    using drop_ConsD [OF assms(3) [unfolded append_Cons]] by blast
  from header_value_loop_run [OF assms(2) this assms(8)]
  show "header_value_loop e (Suc p) (hp_header_state ?q) ?q = HV_CR (Suc p + length cs) h_general ?q" by simp
qed (use assms(10,11) in simp_all)

end

lemma runs_lws:
  assumes "fits_limit e" and "c \<noteq> SP" "c \<noteq> HT" and "hp_header_state q \<in> {h_general, h_content_length_num}"
    and "runs e (c # r) p s_header_field_start None q oc"
  shows "runs e (c # r) p s_header_value_lws None q oc"
  unfolding runs_def
proof (intro impI allI)
  fix d
  assume d: "drop p (input e) = c # r" "p \<le> length (input e)"
  note p = drop_ConsD [OF d(1)]
  have "exec_switch e (loc c p (Suc p) s_header_value_lws None q) =
      Reexecute (loc c p (Suc p) s_header_field_start None q)"
    using assms(2-4)
    by (auto simp: exec_switch_def exec_header_value_lws_def UPDATE_STATE_def finish_header_def)
  from dispatch_Reexecute [OF this] have "execute_loop e (loc d p p s_header_value_lws None q) =
      execute_loop e (loc d p p s_header_field_start None q)"
    using p execute_loop_byte [OF assms(1), of p] by (simp add: PARSING_HEADER_num)
  with assms(5) d show "execute_loop e (loc d p p s_header_value_lws None q) = Some oc"
    by (simp add: runs_def)
qed

section \<open>The end of the headers\<close>

lemma loc_nread_0 [simp]: "(loc c p n x mk q)\<lparr>l_nread := 0\<rparr> = loc c p 0 x mk q"
  using loc_updates(4) [where n' = 0] by simp

lemma NEW_MESSAGE_frame [simp]:
  "NEW_MESSAGE (q\<lparr>hp_upgrade := u\<rparr>) = NEW_MESSAGE q" "NEW_MESSAGE (q\<lparr>hp_data := d\<rparr>) = NEW_MESSAGE q"
  "NEW_MESSAGE (q\<lparr>hp_nread := n\<rparr>) = NEW_MESSAGE q"
  by (simp_all add: NEW_MESSAGE_def http_should_keep_alive_def http_message_needs_eof_def start_state_def)

context data_transformers begin

lemma headers_end_switch:
  assumes "settings e = st" and "hp_flags q = 0" and "hp_http_errno q = HPE_OK"
  shows "exec_switch e (loc LF p n s_headers_almost_done None q) =
    Reexecute (loc LF p n s_headers_done None
      (q\<lparr>hp_upgrade := hp_method q = HTTP_CONNECT, hp_data := headers_d (hp_data q)\<rparr>))"
  using assms(2,3) headers_complete_cb [folded assms(1)]
  by (simp add: exec_switch_def exec_headers_almost_done_def STRICT_CHECK_def UPDATE_STATE_def Let_def
      headers_complete_def)

lemma headers_done_switch:
  assumes "settings e = st" and "hp_flags q = 0" and "hp_http_errno q = HPE_OK"
    and "hp_content_length q = ULLONG_MAX" and "hp_type q = HTTP_REQUEST"
    and "hp_upgrade q \<longleftrightarrow> hp_method q = HTTP_CONNECT"
  shows "exec_switch e (loc LF p n s_headers_done None q) =
    (let q' = q\<lparr>hp_nread := 0, hp_state := NEW_MESSAGE q, hp_data := complete_d (hp_data q)\<rparr>;
         s = loc LF p 0 (NEW_MESSAGE q) None q'
     in if hp_method q = HTTP_CONNECT then Return (Suc p) q' else Break s)"
proof -
  have "ULLONG_MAX \<noteq> (0 :: 64 word)" by (simp add: ULLONG_MAX_def)
  then show ?thesis
  using assms(2-6) message_complete_cb [folded assms(1)]
  by (auto simp: exec_switch_def exec_headers_done_def STRICT_CHECK_def UPDATE_STATE_def Let_def
      new_message_def reset_nread_def CALLBACK_NOTIFY_def CALLBACK_NOTIFY_AT_def after_callback_ok
      http_message_needs_eof_def RETURN_def)
qed

lemma runs_end:
  assumes "settings e = st" and "fits_limit e" and "hp_flags q = 0" and "hp_http_errno q = HPE_OK"
    and "hp_content_length q = ULLONG_MAX" and "hp_type q = HTTP_REQUEST"
  shows "runs e [CR, LF] p s_header_field_start None q (Return (Suc (Suc p))
    (q\<lparr>hp_upgrade := hp_method q = HTTP_CONNECT, hp_nread := 0, hp_state := NEW_MESSAGE q,
       hp_data := complete_d (headers_d (hp_data q))\<rparr>))"
proof (rule plain_steps(11) [OF assms(2)])
  let ?q1 = "q\<lparr>hp_upgrade := hp_method q = HTTP_CONNECT, hp_data := headers_d (hp_data q)\<rparr>"
  let ?q' = "q\<lparr>hp_upgrade := hp_method q = HTTP_CONNECT, hp_nread := 0, hp_state := NEW_MESSAGE q,
       hp_data := complete_d (headers_d (hp_data q))\<rparr>"
  show "runs e [LF] (Suc p) s_headers_almost_done None q (Return (Suc (Suc p)) ?q')"
    unfolding runs_def
  proof (intro impI allI)
    fix d
    assume d: "drop (Suc p) (input e) = [LF]" "Suc p \<le> length (input e)"
    note p = drop_ConsD [OF d(1)]
    then have len: "length (input e) = Suc (Suc p)" using arg_cong [OF d(1), of length] by simp
    let ?d = "loc LF (Suc p) (Suc (Suc p)) s_headers_done None ?q1"
    have disp: "dispatch e (loc LF (Suc p) (Suc (Suc p)) s_headers_almost_done None q) = dispatch e ?d"
      by (rule dispatch_Reexecute [OF headers_end_switch [OF assms(1,3,4)]])
    have sw: "exec_switch e ?d = (let q' = ?q1\<lparr>hp_nread := 0, hp_state := NEW_MESSAGE ?q1,
        hp_data := complete_d (hp_data ?q1)\<rparr>; s = loc LF (Suc p) 0 (NEW_MESSAGE ?q1) None q'
      in if hp_method ?q1 = HTTP_CONNECT then Return (Suc (Suc p)) q' else Break s)"
      by (rule headers_done_switch [OF assms(1)]) (use assms(3-6) in simp_all)
    show "execute_loop e (loc d (Suc p) (Suc p) s_headers_almost_done None q) = Some (Return (Suc (Suc p)) ?q')"
    proof (cases "hp_method q = HTTP_CONNECT")
      case True
      with sw have "exec_switch e ?d = Return (Suc (Suc p)) ?q'" by (simp add: Let_def)
      from dispatch_Return [OF this] show ?thesis
        using p disp execute_loop_byte [OF assms(2), of "Suc p" s_headers_almost_done d None q]
        by (simp add: PARSING_HEADER_num)
    next
      case False
      with sw have "exec_switch e ?d = Break (loc LF (Suc p) 0 (NEW_MESSAGE q) None ?q')"
        by (simp add: Let_def)
      from dispatch_Break [OF this] have "execute_loop e (loc d (Suc p) (Suc p) s_headers_almost_done None q) =
          execute_loop e (loc LF (Suc (Suc p)) 0 (NEW_MESSAGE q) None ?q')"
        using p disp execute_loop_byte [OF assms(2), of "Suc p" s_headers_almost_done d None q]
        by (simp add: PARSING_HEADER_num next_byte_def)
      also have "\<dots> = Some (Return (Suc (Suc p)) ?q')"
        using len assms(4)
        by (subst execute_loop.simps)
          (simp add: finish_execute_def assert_that_def marks_set_def CALLBACK_DATA_NOADVANCE_def
            CALLBACK_DATA_AT_def RETURN_def)
      finally show ?thesis .
    qed
  qed
qed

end

section \<open>Header lines\<close>

type_synonym header = "string \<times> string"

fun header_line :: "header \<Rightarrow> string" where
  "header_line (n, v) = n @ CHR '':'' # SP # v @ [CR, LF]"

text \<open>
  Headers without a meaning for the parser: the name is a token that is none of the special
  names (nor begins with \<^verbatim>\<open>transfer-encoding\<close>, which sets a flag).
\<close>

fun plain_header :: "header \<Rightarrow> bool" where
  "plain_header (n, v) \<longleftrightarrow>
     n \<noteq> [] \<and> (\<forall>c \<in> set n. token_char c) \<and> map TOKEN n \<notin> set special_names \<and>
     \<not> te_prefix (map TOKEN n) \<and>
     v \<noteq> [] \<and> (\<forall>c \<in> set v. value_char c) \<and> hd v \<noteq> SP \<and> hd v \<noteq> HT"

lemma runsI: "(drop p (input e) = r \<Longrightarrow> runs e r p x mk q oc) \<Longrightarrow> runs e r p x mk q oc"
  by (simp add: runs_def)

lemma plain_name:
  assumes "\<forall>c \<in> set (c # cs). token_char c" and "map TOKEN (c # cs) \<notin> set special_names"
    and "\<not> te_prefix (map TOKEN (c # cs))"
  obtains q' where "field_run cs (q\<lparr>hp_index := 0, hp_header_state := name_start c\<rparr>) = Inr q'"
    "hp_header_state q' \<in> plain_states"
    "q' = q\<lparr>hp_index := hp_index q', hp_header_state := hp_header_state q'\<rparr>"
proof -
  let ?q = "q\<lparr>hp_index := 0, hp_header_state := name_start c\<rparr>"
  have "name_inv [TOKEN c] (hp_header_state ?q) (unat (hp_index ?q))" by (simp add: name_inv_start)
  moreover have "\<forall>c \<in> set cs. token_char c" using assms(1) by simp
  ultimately obtain q' where run: "field_run cs ?q = Inr q'"
    "name_inv ([TOKEN c] @ map TOKEN cs) (hp_header_state q') (unat (hp_index q'))"
    "q' = ?q\<lparr>hp_index := hp_index q', hp_header_state := hp_header_state q', hp_flags := hp_flags q'\<rparr>"
    "hp_flags q' = (if te_prefix ([TOKEN c] @ map TOKEN cs) \<and> \<not> te_prefix [TOKEN c]
      then add_flag (hp_flags ?q) F_TRANSFER_ENCODING else hp_flags ?q)"
    using field_run_name by blast
  note q' = run(1) run(2) [simplified] run(3)
  have flags: "hp_flags q' = hp_flags q" using run(4) assms(3) by simp
  have "hp_header_state q' \<notin> finished_states" using name_inv_finished [OF q'(2)] assms(2) by simp
  then have "hp_header_state q' \<in> plain_states"
    using q'(2) by (cases "hp_header_state q'") (simp_all add: name_inv_def finished_states_def plain_states_def)
  moreover have "q' = q\<lparr>hp_index := hp_index q', hp_header_state := hp_header_state q'\<rparr>"
    using q'(3) flags by (cases q, cases q') simp
  ultimately show ?thesis using q'(1) that by blast
qed

context data_transformers begin

text \<open>A header line, given what its name and its value do.\<close>

lemma runs_header_line:
  assumes "settings e = st" and "fits_limit e" and "\<forall>c \<in> set (c # cs). token_char c" and "hp_http_errno q = HPE_OK"
    and "field_run cs (q\<lparr>hp_index := 0, hp_header_state := name_start c\<rparr>) = Inr q'" and "hp_http_errno q' = HPE_OK"
    and "\<And>p'. p' = p + length (c # cs) + 2 \<Longrightarrow> drop p' (input e) = v @ CR # LF # r \<Longrightarrow>
      runs e (v @ CR # LF # r) p' s_header_value_discard_ws None
        (q'\<lparr>hp_state := s_header_value_discard_ws, hp_data := field_d (c # cs) (hp_data q')\<rparr>) oc"
  shows "runs e (header_line (c # cs, v) @ r) p s_header_field_start None q oc"
proof (rule runsI)
  assume d: "drop p (input e) = header_line (c # cs, v) @ r"
  let ?r1 = "SP # v @ CR # LF # r" and ?p1 = "Suc (p + length (c # cs))"
  have d1: "drop p (input e) = (c # cs) @ CHR '':'' # ?r1" using d by simp
  from drop_ConsD [OF drop_appendD [OF d1]] have "drop ?p1 (input e) = ?r1" by simp
  from drop_ConsD [OF this] have d2: "drop (Suc ?p1) (input e) = v @ CR # LF # r" by blast
  have "runs e ?r1 ?p1 s_header_value_discard_ws None
      (q'\<lparr>hp_state := s_header_value_discard_ws, hp_data := field_d (c # cs) (hp_data q')\<rparr>) oc"
    by (rule plain_steps(13) [OF assms(2) assms(7) [OF _ d2]]) simp
  from runs_field [OF assms(1,2) d1 assms(3-6) this]
  show "runs e (header_line (c # cs, v) @ r) p s_header_field_start None q oc" by simp
qed

lemma runs_header:
  assumes "settings e = st" and "fits_limit e" and "plain_header (n, v)" and "hp_http_errno q = HPE_OK"
    and "runs e r (p + length (header_line (n, v))) s_header_value_lws None
      (q\<lparr>hp_index := 0, hp_state := s_header_almost_done, hp_data := value_d v (field_d n (hp_data q)),
         hp_header_state := h_general\<rparr>) oc"
  shows "runs e (header_line (n, v) @ r) p s_header_field_start None q oc"
proof -
  obtain c cs where n: "n = c # cs" using assms(3) by (cases n) auto
  obtain d0 ds where v: "v = d0 # ds" using assms(3) by (cases v) auto
  obtain q' where q': "field_run cs (q\<lparr>hp_index := 0, hp_header_state := name_start c\<rparr>) = Inr q'"
    "hp_header_state q' \<in> plain_states"
    "q' = q\<lparr>hp_index := hp_index q', hp_header_state := hp_header_state q'\<rparr>"
    using plain_name [of c cs q] assms(3) n by auto
  have fr: "hp_http_errno q' = HPE_OK" "hp_data q' = hp_data q"
    using assms(4) by (subst q'(3), simp)+
  let ?q1 = "q'\<lparr>hp_state := s_header_value_discard_ws, hp_data := field_d n (hp_data q')\<rparr>"
  have q2: "?q1\<lparr>hp_index := 0, hp_state := s_header_almost_done, hp_data := value_d v (hp_data ?q1),
      hp_header_state := h_general\<rparr> = q\<lparr>hp_index := 0, hp_state := s_header_almost_done,
      hp_data := value_d v (field_d n (hp_data q)), hp_header_state := h_general\<rparr>"
    using q'(3) fr(2) by (cases q, cases q') simp
  show ?thesis
    unfolding n
  proof (rule runs_header_line [OF assms(1,2) _ assms(4) q'(1) fr(1)])
    fix p'
    assume p': "p' = p + length (c # cs) + 2" and d: "drop p' (input e) = v @ CR # LF # r"
    have "runs e r (Suc (Suc (p' + length v))) s_header_value_lws None
        (?q1\<lparr>hp_index := 0, hp_state := s_header_almost_done, hp_data := value_d v (hp_data ?q1),
             hp_header_state := h_general\<rparr>) oc"
      using assms(5) q2 n p' by (simp add: add.assoc)
    then show "runs e (v @ CR # LF # r) p' s_header_value_discard_ws None
        (q'\<lparr>hp_state := s_header_value_discard_ws, hp_data := field_d (c # cs) (hp_data q')\<rparr>) oc"
      unfolding v n [symmetric]
      by (intro runs_value [OF assms(1,2) d [unfolded v]])
        (use assms(3) v q'(2) fr(1) in \<open>auto simp: value_char_def\<close>)
  qed (use assms(3) n in simp)
qed

text \<open>What a parser object looks like after a request without a body.\<close>

definition finished :: "header list \<Rightarrow> 'u http_parser \<Rightarrow> 'u http_parser \<Rightarrow> bool" where
  "finished hs q q' \<longleftrightarrow>
     hp_data q' = complete_d (headers_d (fold (\<lambda>(n, v) d. value_d v (field_d n d)) hs (hp_data q))) \<and>
     hp_method q' = hp_method q \<and> hp_http_major q' = hp_http_major q \<and>
     hp_http_minor q' = hp_http_minor q \<and> hp_http_errno q' = HPE_OK \<and>
     hp_upgrade q' = (hp_method q = HTTP_CONNECT) \<and> hp_nread q' = 0 \<and> hp_state q' = NEW_MESSAGE q"

lemma runs_headers:
  assumes "settings e = st" and "fits_limit e" and "\<forall>h \<in> set hs. plain_header h"
    and "hp_flags q = 0" "hp_http_errno q = HPE_OK" "hp_content_length q = ULLONG_MAX" "hp_type q = HTTP_REQUEST"
    and "x = s_header_field_start \<or> x = s_header_value_lws \<and> hp_header_state q = h_general"
  shows "\<exists>q'. runs e (concat (map header_line hs) @ [CR, LF]) p x None q
      (Return (p + length (concat (map header_line hs)) + 2) q') \<and> finished hs q q'"
  using assms(3-8)
proof (induction hs arbitrary: p x q)
  case Nil
  let ?q' = "q\<lparr>hp_upgrade := hp_method q = HTTP_CONNECT, hp_nread := 0, hp_state := NEW_MESSAGE q,
       hp_data := complete_d (headers_d (hp_data q))\<rparr>"
  have "runs e [CR, LF] p s_header_field_start None q (Return (Suc (Suc p)) ?q')"
    by (rule runs_end [OF assms(1,2) Nil.prems(2,3,4,5)])
  moreover have "finished [] q ?q'" using Nil.prems by (simp add: finished_def)
  moreover have "runs e [CR, LF] p x None q oc" if "runs e [CR, LF] p s_header_field_start None q oc" for oc
    using that runs_lws [OF assms(2) _ _ _ that] Nil.prems(6) by auto
  ultimately show ?case by auto
next
  case (Cons h hs)
  obtain n v where h: "h = (n, v)" by (cases h)
  let ?q = "q\<lparr>hp_index := 0, hp_state := s_header_almost_done, hp_data := value_d v (field_d n (hp_data q)),
         hp_header_state := h_general\<rparr>"
  let ?p = "p + length (header_line h)" and ?r = "concat (map header_line hs) @ [CR, LF]"
  have "\<exists>q'. runs e ?r ?p s_header_value_lws None ?q
      (Return (?p + length (concat (map header_line hs)) + 2) q') \<and> finished hs ?q q'"
    by (rule Cons.IH) (use Cons.prems in simp_all)
  then obtain q' where q': "runs e ?r ?p s_header_value_lws None ?q
      (Return (?p + length (concat (map header_line hs)) + 2) q')" "finished hs ?q q'" by blast
  have start: "runs e (header_line h @ ?r) p s_header_field_start None q
      (Return (?p + length (concat (map header_line hs)) + 2) q')"
    unfolding h by (rule runs_header [OF assms(1,2)]) (use Cons.prems q'(1) h in simp_all)
  obtain c cs where n: "n = c # cs" "token_char c" using Cons.prems(1) h by (cases n) auto
  have "runs e (header_line h @ ?r) p x None q oc"
    if "runs e (header_line h @ ?r) p s_header_field_start None q oc" for oc
    using that runs_lws [OF assms(2), of c q _ p oc] Cons.prems(6) token_char_simps [OF n(2)] h n(1) by auto
  moreover have "finished (h # hs) q q'"
    using q'(2) h by (simp add: finished_def NEW_MESSAGE_def http_should_keep_alive_def
        http_message_needs_eof_def start_state_def)
  ultimately show ?case using start by (intro exI [of _ q']) (simp add: add.assoc)
qed

end

section \<open>Whole requests\<close>

text \<open>The first call on a new parser for requests.\<close>

lemma execute_request_runs:
  assumes "runs (mk_env mx st (http_parser_init q HTTP_REQUEST) t) t 0 s_start_req None
      (http_parser_init q HTTP_REQUEST) oc" and "t \<noteq> []"
  shows "http_parser_execute mx st (http_parser_init q HTTP_REQUEST) t = Some oc"
proof -
  let ?q = "http_parser_init q HTTP_REQUEST"
  have "input (mk_env mx st ?q t) = t" by (simp add: mk_env_def)
  then have "execute_loop (mk_env mx st ?q t) (loc NUL 0 0 s_start_req None ?q) = Some oc"
    using assms(1) by (simp add: runs_def)
  moreover have "start_locals ?q = loc NUL 0 0 s_start_req None ?q"
    by (simp add: start_locals_def http_parser_init_def loc.simps url_mark_states_def)
  moreover have "hp_http_errno ?q = HPE_OK" by (simp add: http_parser_init_def)
  ultimately show ?thesis using assms(2) by (simp add: http_parser_execute_def Let_def)
qed

definition request_text :: "http_method \<Rightarrow> string \<Rightarrow> nat \<Rightarrow> nat \<Rightarrow> header list \<Rightarrow> string" where
  "request_text m u major minor hs =
     method_string m @ SP # u @ SP # version_text major minor @ concat (map header_line hs) @ [CR, LF]"

text \<open>The parser goes on after a request of version 1.1 or more, otherwise it is dead.\<close>

lemma version_word: "n < 10 \<Longrightarrow> (0 < (of_nat n :: 16 word)) = (0 < n)"
  by (simp add: word_less_nat_alt unat_of_nat take_bit_eq_mod)

lemma NEW_MESSAGE_plain:
  assumes "hp_flags q = 0" and "hp_type q = HTTP_REQUEST" and "hp_http_major q = of_nat major"
    and "hp_http_minor q = of_nat minor" and "major < 10" and "minor < 10"
  shows "NEW_MESSAGE q = (if 0 < major \<and> 0 < minor then s_start_req else s_dead)"
  using assms version_word
  by (simp add: NEW_MESSAGE_def http_should_keep_alive_def http_message_needs_eof_def start_state_def)

text \<open>The parser object where the URL of a new request starts, with the user's data \<open>d\<close>.\<close>

definition request_parser :: "'u http_parser \<Rightarrow> http_method \<Rightarrow> 'u \<Rightarrow> 'u http_parser" where
  "request_parser q m d = (http_parser_init q HTTP_REQUEST)
     \<lparr>hp_flags := 0, hp_content_length := ULLONG_MAX, hp_index := of_nat (Suc (length (method_string m))),
      hp_method := m, hp_state := s_req_method, hp_data := d\<rparr>"

lemma request_parser_simps [simp]:
  "hp_method (request_parser q m d) = m" "hp_data (request_parser q m d) = d"
  "hp_flags (request_parser q m d) = 0" "hp_http_errno (request_parser q m d) = HPE_OK"
  "hp_content_length (request_parser q m d) = ULLONG_MAX" "hp_type (request_parser q m d) = HTTP_REQUEST"
  by (simp_all add: request_parser_def http_parser_init_def)

context data_transformers begin

lemma runs_request_start:
  assumes "settings e = st" and "fits_limit e" and "url_accepted m u"
    and "runs e r (Suc (length (method_string m)) + length u) (foldl parse_url_char (url_start m) u)
      (Some (M_url, Suc (length (method_string m)))) (request_parser q m (begin_d (hp_data q))) oc"
  shows "runs e (method_string m @ SP # u @ r) 0 s_start_req None (http_parser_init q HTTP_REQUEST) oc"
proof -
  obtain c cs where m: "method_string m = c # cs" by (cases m) simp_all
  obtain m0 where m0: "first_method c = Some m0" "method_run m0 1 cs = Some m"
    using method_recognised [of m] m by auto
  have cs: "length cs < 20" using m by (cases m) auto
  let ?q0 = "http_parser_init q HTTP_REQUEST" and ?q2 = "request_parser q m (begin_d (hp_data q))"
  let ?q1 = "?q0\<lparr>hp_flags := 0, hp_content_length := ULLONG_MAX, hp_index := 1, hp_method := m0,
         hp_state := s_req_method, hp_data := begin_d (hp_data q)\<rparr>"
  have q2: "?q1\<lparr>hp_method := m, hp_index := hp_index ?q1 + of_nat (length cs + 1)\<rparr> = ?q2"
    using m by (simp add: request_parser_def http_parser_init_def algebra_simps)
  have "runs e (u @ r) (Suc (length (c # cs))) s_req_spaces_before_url None ?q2 oc"
    by (rule runs_url [OF assms(2)]) (use assms(3,4) m in simp_all)
  then have "runs e (cs @ SP # u @ r) (Suc 0) s_req_method None ?q1 oc"
    by (intro runs_method [OF assms(2) m0(2)]) (use cs q2 in simp_all)
  then have "runs e (c # cs @ SP # u @ r) 0 s_start_req None ?q0 oc"
    by (intro runs_message_begin [OF assms(1,2) m0(1)]) (simp_all add: http_parser_init_def)
  then show ?thesis using m by simp
qed

lemma parse_request:
  assumes "url_accepted m u" and "major < 10" and "minor < 10" and "\<forall>h \<in> set hs. plain_header h"
    and "length (request_text m u major minor hs) \<le> unat mx"
    and "url_d m u (begin_d (hp_data q)) = Inr d"
  shows "\<exists>q'. http_parser_execute mx st (http_parser_init q HTTP_REQUEST) (request_text m u major minor hs) =
      Some (Return (length (request_text m u major minor hs)) q') \<and>
    hp_data q' = complete_d (headers_d (fold (\<lambda>(n, v) d. value_d v (field_d n d)) hs d)) \<and>
    hp_method q' = m \<and> hp_http_major q' = of_nat major \<and> hp_http_minor q' = of_nat minor \<and>
    hp_http_errno q' = HPE_OK \<and> hp_upgrade q' = (m = HTTP_CONNECT) \<and>
    hp_state q' = (if 0 < major \<and> 0 < minor then s_start_req else s_dead)"
proof -
  let ?q0 = "http_parser_init q HTTP_REQUEST" and ?t = "request_text m u major minor hs"
  let ?e = "mk_env mx st ?q0 ?t" and ?hs = "concat (map header_line hs)"
  have e: "settings ?e = st" "fits_limit ?e" "input ?e = ?t"
    using assms(5) by (simp_all add: mk_env_def fits_limit_def)
  let ?q2 = "request_parser q m (begin_d (hp_data q))"
  let ?q3 = "?q2\<lparr>hp_state := s_req_http_start, hp_data := d\<rparr>"
  let ?q4 = "?q3\<lparr>hp_http_major := of_nat major, hp_http_minor := of_nat minor\<rparr>"
  let ?a = "Suc (length (method_string m))" and ?r3 = "version_text major minor @ ?hs @ [CR, LF]"
  have t: "?t = method_string m @ SP # u @ SP # ?r3" by (simp add: request_text_def)
  have len: "length (version_text major minor) = 10" by (simp add: version_text_def)
  have n: "Suc (?a + length u) + 10 + length ?hs + 2 = length ?t" using t len by simp
  have "\<exists>q'. runs ?e (?hs @ [CR, LF]) (Suc (?a + length u) + 10) s_header_field_start None ?q4
      (Return (length ?t) q') \<and> finished hs ?q4 q'"
    unfolding n [symmetric] by (rule runs_headers [OF e(1,2) assms(4)]) simp_all
  then obtain q' where q': "runs ?e (?hs @ [CR, LF]) (Suc (?a + length u) + 10) s_header_field_start None ?q4
      (Return (length ?t) q')" "finished hs ?q4 q'" by blast
  have "runs ?e ?r3 (Suc (?a + length u)) s_req_http_start None ?q3 (Return (length ?t) q')"
    by (rule runs_version [OF e(2) assms(2,3) q'(1)])
  moreover have "drop ?a ?t = u @ SP # ?r3" unfolding t by simp
  with e(3) have "drop ?a (input ?e) = u @ SP # ?r3" by (simp only:)
  ultimately have "runs ?e (SP # ?r3) (?a + length u) (foldl parse_url_char (url_start m) u)
      (Some (M_url, ?a)) ?q2 (Return (length ?t) q')"
    using assms(1,6) by (intro runs_url_end [OF e(1,2)]) (simp_all add: url_accepted_def)
  from runs_request_start [OF e(1,2) assms(1) this]
  have "runs ?e ?t 0 s_start_req None ?q0 (Return (length ?t) q')" by (simp only: t)
  then have "http_parser_execute mx st ?q0 ?t = Some (Return (length ?t) q')"
    by (rule execute_request_runs) (simp add: t)
  moreover have "NEW_MESSAGE ?q4 = (if 0 < major \<and> 0 < minor then s_start_req else s_dead)"
    using assms(2,3) by (intro NEW_MESSAGE_plain) simp_all
  ultimately show ?thesis
    using q'(2) by (simp add: finished_def)
qed

text \<open>A URL that its callback refuses.\<close>

lemma runs_url_abort:
  assumes "settings e = st" and "fits_limit e" and "x \<in> url_end_states" and "hp_http_errno q = HPE_OK"
    and "drop a (input e) = u @ SP # r" and "url_d (hp_method q) u (hp_data q) = Inl z"
  shows "runs e (SP # r) (a + length u) x (Some (M_url, a)) q (Abort z)"
  unfolding runs_def
proof (intro impI allI)
  fix d
  assume "drop (a + length u) (input e) = SP # r"
  note p = drop_ConsD [OF this]
  have "exec_switch e (loc SP (a + length u) (Suc (a + length u)) x (Some (M_url, a)) q) = Abort z"
    using assms(1,3-6) p url_cb
    by (auto simp: url_end_states_def exec_switch_def exec_req_url_def CALLBACK_DATA_def CALLBACK_DATA_AT_def
        UPDATE_STATE_def)
  then have "dispatch e (loc SP (a + length u) (Suc (a + length u)) x (Some (M_url, a)) q) = Some (Abort z)"
    by (subst dispatch.simps) simp
  moreover have "PARSING_HEADER x" using assms(3) by (auto simp: url_end_states_def PARSING_HEADER_num)
  ultimately show "execute_loop e (loc d (a + length u) (a + length u) x (Some (M_url, a)) q) = Some (Abort z)"
    using p execute_loop_byte [OF assms(2), of "a + length u" x d "Some (M_url, a)" q] by simp
qed

lemma refused_request:
  assumes "url_accepted m u" and "length (method_string m @ SP # u @ SP # r) \<le> unat mx"
    and "url_d m u (begin_d (hp_data q)) = Inl z"
  shows "http_parser_execute mx st (http_parser_init q HTTP_REQUEST) (method_string m @ SP # u @ SP # r) =
    Some (Abort z)"
proof (rule execute_request_runs)
  let ?t = "method_string m @ SP # u @ SP # r"
  let ?e = "mk_env mx st (http_parser_init q HTTP_REQUEST) ?t"
  have e: "settings ?e = st" "fits_limit ?e" "input ?e = ?t"
    using assms(2) by (simp_all add: mk_env_def fits_limit_def)
  have "drop (Suc (length (method_string m))) ?t = u @ SP # r" by simp
  with e(3) have "drop (Suc (length (method_string m))) (input ?e) = u @ SP # r" by (simp only:)
  from runs_url_abort [OF e(1,2) _ _ this] assms(1,3)
  show "runs ?e ?t 0 s_start_req None (http_parser_init q HTTP_REQUEST) (Abort z)"
    by (intro runs_request_start [OF e(1,2) assms(1)]) (simp add: url_accepted_def)
qed simp

end

end
