(* ===== verification/Http_Parse_Props.thy ===== *)
theory Http_Parse_Props
  imports Http_Requests
begin

text \<open>
  What the parser recognises: request methods, header names and whole requests, each against
  a reference that does not mention the automaton.
\<close>

section \<open>Ends of a run\<close>

lemma runs_return:
  assumes "fits_limit e" and "PARSING_HEADER x"
    and "exec_switch e (loc c p (Suc p) x mk q) = Return n q'"
  shows "runs e (c # r) p x mk q (Return n q')"
  unfolding runs_def
proof (intro impI allI)
  fix d
  assume "drop p (input e) = c # r"
  from drop_ConsD [OF this] show "execute_loop e (loc d p p x mk q) = Some (Return n q')"
    using execute_loop_byte [OF assms(1) _ assms(2), of p d mk q] dispatch_Return [OF assms(3)] by simp
qed

lemma runs_finish:
  assumes "hp_http_errno q = HPE_OK"
  shows "runs e [] p x None q (Return p (q\<lparr>hp_nread := of_nat p, hp_state := x\<rparr>))"
  unfolding runs_def
proof (intro impI allI)
  fix d
  assume "drop p (input e) = []" and "p \<le> length (input e)"
  then have "p = length (input e)" by simp
  then show "execute_loop e (loc d p p x None q) = Some (Return p (q\<lparr>hp_nread := of_nat p, hp_state := x\<rparr>))"
    using assms
    by (subst execute_loop.simps)
      (simp add: finish_execute_def assert_that_def marks_set_def CALLBACK_DATA_NOADVANCE_def
        CALLBACK_DATA_AT_def RETURN_def)
qed

lemma fail_loc:
  "fail x (loc c p n s mk q) = Return p (q\<lparr>hp_nread := of_nat n, hp_http_errno := x, hp_state := s\<rparr>)"
  if "x \<noteq> HPE_OK"
  using that by (cases q) (simp add: fail_def goto_error_def SET_ERRNO_def RETURN_def)

lemma runs_refused:
  assumes "fits_limit e" and "PARSING_HEADER x" and "x' \<noteq> HPE_OK"
    and "exec_switch e (loc c p (Suc p) x mk q) = fail x' (loc c' p' n' s mk' q1)"
  shows "\<exists>n q'. runs e (c # r) p x mk q (Return n q') \<and> hp_http_errno q' = x'"
proof (intro exI conjI)
  show "runs e (c # r) p x mk q (Return p' (q1\<lparr>hp_nread := of_nat n', hp_http_errno := x', hp_state := s\<rparr>))"
    by (rule runs_return [OF assms(1,2)]) (use assms(3,4) fail_loc in simp)
qed simp

section \<open>Methods that are refused\<close>

lemma method_string_chars: "i < length (method_string m) \<Longrightarrow> is_method_char (method_string m ! i)"
proof -
  have "list_all is_method_char (method_string m)"
    by (cases m) (simp_all add: is_method_char_def)
  then show "i < length (method_string m) \<Longrightarrow> is_method_char (method_string m ! i)"
    by (simp add: list_all_length)
qed

lemma exec_switch_method_fail:
  assumes "hp_method q = m" and "unat (hp_index q) = i" and "i \<le> length (method_string m)"
    and "c = SP \<and> i \<noteq> length (method_string m) \<or> c \<noteq> SP \<and> \<not> is_method_char c \<or>
      is_method_char c \<and> (i < length (method_string m) \<longrightarrow> method_string m ! i \<noteq> c) \<and> method_switch m i c = None"
  shows "exec_switch e (loc c p n s_req_method mk q) = fail HPE_INVALID_METHOD (loc c p n s_req_method mk q)"
proof -
  have sw: "exec_switch e (loc c p n s_req_method mk q) = exec_req_method e (loc c p n s_req_method mk q)"
    by (simp add: exec_switch_def)
  show ?thesis
  proof (cases "c = NUL")
    case True
    then show ?thesis unfolding sw by (simp add: exec_req_method_def)
  next
    case nul: False
    show ?thesis
    proof (cases "i < length (method_string m)")
      case True
      then have "is_method_char (method_string m ! i)" by (rule method_string_chars)
      then have m: "method_string m ! i \<noteq> NUL" "method_string m ! i \<noteq> SP" by auto
      with True have "c_str_at (method_string m) i = Inr (method_string m ! i)" by (simp add: c_str_at_def)
      with m \<open>is_method_char (method_string m ! i)\<close> True nul assms show ?thesis
        unfolding sw by (auto simp: exec_req_method_def Let_def)
    next
      case False
      then have "c_str_at (method_string m) i = Inr NUL" using assms(3) by (simp add: c_str_at_def)
      with False nul assms show ?thesis unfolding sw by (auto simp: exec_req_method_def Let_def)
    qed
  qed
qed

lemma runs_method_none:
  assumes "fits_limit e" and "method_run m i cs = None" and "hp_method q = m" and "unat (hp_index q) = i"
    and "i \<le> length (method_string m)" and "SP \<notin> set cs"
  shows "\<exists>n q'. runs e (cs @ SP # r) p s_req_method None q (Return n q') \<and> hp_http_errno q' = HPE_INVALID_METHOD"
proof -
  have refuse: "\<exists>n q'. runs e (c # r') p s_req_method None q (Return n q') \<and> hp_http_errno q' = HPE_INVALID_METHOD"
    if "exec_switch e (loc c p (Suc p) s_req_method None q) = fail HPE_INVALID_METHOD (loc c p (Suc p) s_req_method None q)"
    for c r' p and q :: "'a http_parser"
    by (rule runs_refused [OF assms(1) _ _ that]) (simp_all add: PARSING_HEADER_num)
  from assms(2-6) show ?thesis
  proof (induction cs arbitrary: m i p q)
    case Nil
    then have "exec_switch e (loc SP p (Suc p) s_req_method None q) =
        fail HPE_INVALID_METHOD (loc SP p (Suc p) s_req_method None q)"
      by (intro exec_switch_method_fail) (auto split: if_splits)
    from refuse [OF this] show ?case by simp
  next
    case (Cons c cs)
    consider (bad) "\<not> is_method_char c" | (mismatch) "is_method_char c"
        "i < length (method_string m) \<longrightarrow> method_string m ! i \<noteq> c" "method_switch m i c = None"
      | (go) m1 where "is_method_char c" "method_run m1 (Suc i) cs = None"
        "m1 = m \<and> i < length (method_string m) \<and> method_string m ! i = c \<or>
         (i < length (method_string m) \<longrightarrow> method_string m ! i \<noteq> c) \<and> method_switch m i c = Some m1"
      using Cons.prems(1,4) by (auto split: if_splits option.splits)
    then show ?case
    proof cases
      case bad
      with Cons.prems show ?thesis
        by (auto intro!: refuse exec_switch_method_fail)
    next
      case mismatch
      with Cons.prems show ?thesis
        by (auto intro!: refuse exec_switch_method_fail)
    next
      case go
      let ?q = "q\<lparr>hp_method := m1, hp_index := hp_index q + 1\<rparr>"
      note sw = exec_switch_method [OF Cons.prems(2,3,4) go(1,3), of e p "Suc p" None]
      have len: "Suc i \<le> length (method_string m1)"
        using go(3) method_switch_prefix [of m i c m1] by auto
      moreover have "length (method_string m1) < 20" by (cases m1) simp_all
      ultimately have "unat (hp_index q + 1) = Suc i" using Cons.prems(3) by (simp add: unat_word_ariths)
      with Cons.IH [of m1 "Suc i" ?q "Suc p"] go(2) len Cons.prems(5) obtain n q' where
        "runs e (cs @ SP # r) (Suc p) s_req_method None ?q (Return n q')" "hp_http_errno q' = HPE_INVALID_METHOD"
        by auto
      with runs_step [OF assms(1) _ sw this(1)] show ?thesis by (auto simp: PARSING_HEADER_num)
    qed
  qed
qed

lemma method_run_iff:
  assumes "first_method c = Some m0"
  shows "method_run m0 1 cs = Some m \<longleftrightarrow> c # cs = method_string m"
proof
  have m0: "take 1 (method_string m0) = [c] \<and> 1 \<le> length (method_string m0)"
    using assms by (auto simp: first_method_def map_of_Cons_code split: if_splits)
  assume "method_run m0 1 cs = Some m"
  from method_run_sound [OF this] m0 show "c # cs = method_string m" by simp
next
  assume "c # cs = method_string m"
  with method_recognised [of m] assms show "method_run m0 1 cs = Some m"
    by (metis list.sel(1,3) option.inject)
qed

lemma method_string_inj: "method_string m = method_string m' \<longleftrightarrow> m = m'"
  using method_run_iff method_recognised
  by (metis hd_Cons_tl method_recognised method_run_iff list.sel(1) option.inject)

section \<open>The table of callbacks that collects events\<close>

interpretation log_data: data_transformers logging "\<lambda>d. d @ [Begin]" "\<lambda>m b d. Inr (d @ [Url b])"
  "\<lambda>b d. d @ [Field b]" "\<lambda>b d. d @ [Value b]" "\<lambda>d. d @ [Headers]" "\<lambda>d. d @ [Complete]"
  by unfold_locales (simp_all add: logging_def log_event_def fun_eq_iff)

section \<open>Properties\<close>

text \<open>
  C12. The switch on method, index and character recognises exactly the methods of the table
  \<^verbatim>\<open>method_strings\<close>: given a word, not empty and not an empty line, and the space that ends
  it, a new request parser reports the method of that name and waits for the URL, if there is
  one, and otherwise stops with \<open>HPE_INVALID_METHOD\<close>; there is no third outcome.
\<close>

theorem methods_recognised:
  assumes "w \<noteq> []" and "hd w \<noteq> CR" and "hd w \<noteq> LF" and "SP \<notin> set w" and "length w < unat mx"
  shows "\<exists>n q'. http_parser_execute mx logging (http_parser_init q HTTP_REQUEST) (w @ [SP]) = Some (Return n q') \<and>
    (\<forall>m. w = method_string m \<longrightarrow>
       hp_http_errno q' = HPE_OK \<and> hp_method q' = m \<and> hp_state q' = s_req_spaces_before_url) \<and>
    (w \<notin> range method_string \<longrightarrow> hp_http_errno q' = HPE_INVALID_METHOD)"
proof -
  let ?q0 = "http_parser_init q HTTP_REQUEST" and ?e = "mk_env mx logging (http_parser_init q HTTP_REQUEST) (w @ [SP])"
  obtain c cs where w: "w = c # cs" using assms(1) by (cases w) auto
  have e: "settings ?e = logging" "fits_limit ?e" "input ?e = w @ [SP]"
    using assms(5) by (simp_all add: mk_env_def fits_limit_def)
  have exec: "http_parser_execute mx logging ?q0 (w @ [SP]) = Some oc"
    if "runs ?e (c # cs @ [SP]) 0 s_start_req None ?q0 oc" for oc
    by (rule execute_request_runs) (use that w in simp_all)
  show ?thesis
  proof (cases "first_method c")
    case None
    then have "exec_switch ?e (loc c 0 (Suc 0) s_start_req None ?q0) =
        fail HPE_INVALID_METHOD (loc c 0 (Suc 0) s_start_req None
          (if IS_ALPHA c then ?q0\<lparr>hp_flags := 0, hp_content_length := ULLONG_MAX, hp_method := HTTP_DELETE, hp_index := 1\<rparr>
           else ?q0\<lparr>hp_flags := 0, hp_content_length := ULLONG_MAX\<rparr>))"
      using assms(2,3) w by (simp add: exec_switch_def exec_start_req_def Let_def)
    from runs_refused [OF e(2) _ _ this, of "cs @ [SP]"]
    have "\<exists>n q'. runs ?e (c # cs @ [SP]) 0 s_start_req None ?q0 (Return n q') \<and>
        hp_http_errno q' = HPE_INVALID_METHOD"
      by (simp add: PARSING_HEADER_num)
    moreover have "w \<noteq> method_string m" for m using method_recognised [of m] None w by (metis list.sel(1) option.distinct(1))
    ultimately show ?thesis using exec by blast
  next
    case (Some m0)
    let ?q1 = "?q0\<lparr>hp_flags := 0, hp_content_length := ULLONG_MAX, hp_index := 1, hp_method := m0,
         hp_state := s_req_method, hp_data := hp_data q @ [Begin]\<rparr>"
    have begun: "runs ?e (c # cs @ [SP]) 0 s_start_req None ?q0 oc"
      if "runs ?e (cs @ [SP]) (Suc 0) s_req_method None ?q1 oc" for oc
      using that by (intro log_data.runs_message_begin [OF e(1,2) Some])
        (simp_all add: http_parser_init_def)
    show ?thesis
    proof (cases "method_run m0 1 cs")
      case None
      have "1 \<le> length (method_string m0)" by (cases m0) simp_all
      with runs_method_none [OF e(2) None, where q = ?q1 and r = "[]" and p = "Suc 0"] assms(4) w obtain n q' where
        "runs ?e (cs @ [SP]) (Suc 0) s_req_method None ?q1 (Return n q')" "hp_http_errno q' = HPE_INVALID_METHOD"
        by auto
      moreover have "w \<noteq> method_string m" for m
        using method_run_iff [OF Some, of cs m] None w by simp
      ultimately show ?thesis using exec [OF begun] by blast
    next
      case run: (Some m)
      then have m: "w = method_string m" using method_run_iff [OF Some] w by simp
      let ?q2 = "?q1\<lparr>hp_method := m, hp_index := hp_index ?q1 + of_nat (length cs + 1)\<rparr>"
      have cs: "length cs < 20" using m w by (cases m) auto
      have "runs ?e [] (Suc 0 + length cs + 1) s_req_spaces_before_url None ?q2
          (Return (Suc 0 + length cs + 1)
            (?q2\<lparr>hp_nread := of_nat (Suc 0 + length cs + 1), hp_state := s_req_spaces_before_url\<rparr>))"
        by (rule runs_finish) (simp add: http_parser_init_def)
      from runs_method [OF e(2) run _ _ _ this] cs
      have "runs ?e (cs @ [SP]) (Suc 0) s_req_method None ?q1
          (Return (Suc 0 + length cs + 1)
            (?q2\<lparr>hp_nread := of_nat (Suc 0 + length cs + 1), hp_state := s_req_spaces_before_url\<rparr>))"
        by simp
      from exec [OF begun [OF this]] show ?thesis
        using m by (auto simp: http_parser_init_def method_string_inj)
    qed
  qed
qed

theorem methods_recognised_witness:
  "\<exists>n q'. http_parser_execute 100 logging (http_parser_init (example_parser []) HTTP_REQUEST) ''GOT '' =
     Some (Return n q') \<and> hp_http_errno q' = HPE_INVALID_METHOD"
proof -
  have "''GOT'' \<notin> range method_string"
  proof
    assume "''GOT'' \<in> range method_string"
    then obtain m where "method_string m = ''GOT''" by auto
    then show False by (cases m) simp_all
  qed
  then show ?thesis
    using methods_recognised [of "''GOT''" 100 "example_parser []"] by auto
qed

text \<open>
  C7. Round trip: a request with any method and a URL the parser admits for it, any version of
  one-digit numbers and any number of headers without a meaning for the parser, written out as
  text, is parsed completely, and the callbacks deliver exactly its parts in their order; the
  parser object carries the method and the version, and it is ready for another request
  exactly if the version is at least 1.1 in both digits.
\<close>

theorem parse_rendered_request:
  assumes "url_accepted m u" and "major < 10" and "minor < 10" and "\<forall>h \<in> set hs. plain_header h"
    and "length (request_text m u major minor hs) \<le> unat mx"
  shows "\<exists>q'. http_parser_execute mx logging (http_parser_init q HTTP_REQUEST) (request_text m u major minor hs) =
      Some (Return (length (request_text m u major minor hs)) q') \<and>
    hp_data q' = hp_data q @ [Begin, Url u] @ concat (map (\<lambda>(n, v). [Field n, Value v]) hs) @ [Headers, Complete] \<and>
    hp_method q' = m \<and> hp_http_major q' = of_nat major \<and> hp_http_minor q' = of_nat minor \<and>
    hp_http_errno q' = HPE_OK \<and> hp_upgrade q' = (m = HTTP_CONNECT) \<and>
    hp_state q' = (if 0 < major \<and> 0 < minor then s_start_req else s_dead)"
proof -
  have "fold (\<lambda>(n, v) d. (d @ [Field n]) @ [Value v]) hs d =
      d @ concat (map (\<lambda>(n, v). [Field n, Value v]) hs)" for d
    by (induction hs arbitrary: d) auto
  with log_data.parse_request [OF assms refl, of q] show ?thesis by simp
qed

lemma url_char_stays: "IS_URL_CHAR c \<Longrightarrow> parse_url_char s_req_path c = s_req_path"
  by (auto simp: parse_url_char_def spec_simps url_char_spec_def)

text \<open>Paths are admitted for every method but \<^verbatim>\<open>CONNECT\<close>.\<close>

lemma path_accepted:
  assumes "m \<noteq> HTTP_CONNECT" and "\<forall>c \<in> set path. IS_URL_CHAR c"
  shows "url_accepted m (CHR ''/'' # path)"
proof -
  have "foldl parse_url_char s_req_path path = s_req_path"
    using assms(2) by (induction path) (simp_all add: url_char_stays)
  then show ?thesis
    using assms(1) by (simp add: url_accepted_def url_start_def url_end_states_def parse_url_char_def)
qed

theorem parse_rendered_request_witness:
  "\<exists>q'. http_parser_execute 1000 logging (http_parser_init (example_parser []) HTTP_REQUEST)
      (request_text HTTP_MSEARCH ''/a'' 1 0 [(''Host'', ''h:1''), (''X'', ''y z'')]) =
      Some (Return 43 q') \<and>
    hp_data q' = [Begin, Url ''/a'', Field ''Host'', Value ''h:1'', Field ''X'', Value ''y z'', Headers, Complete]"
proof -
  have "plain_header h" if "h \<in> set [(''Host'', ''h:1''), (''X'', ''y z'')]" for h
    using that
    by (auto simp: special_names_def te_prefix_def token_char_def value_char_def IS_HEADER_CHAR_def TOKEN_def spec_simps
        token_spec_def char_class_defs)
  moreover have "url_accepted HTTP_MSEARCH ''/a''"
    by (rule path_accepted) (simp_all add: spec_simps url_char_spec_def)
  moreover have "length (request_text HTTP_MSEARCH ''/a'' 1 0 [(''Host'', ''h:1''), (''X'', ''y z'')]) = 43"
    by (simp add: request_text_def version_text_def)
  ultimately show ?thesis
    using parse_rendered_request [of HTTP_MSEARCH "''/a''" 1 0 "[(''Host'', ''h:1''), (''X'', ''y z'')]" 1000 "example_parser []"]
    by (auto simp: example_parser_def)
qed

section \<open>Header names\<close>

definition lower_case :: "char \<Rightarrow> char" where
  "lower_case c = (if uchar c \<ge> uchar CHR ''A'' \<and> uchar c \<le> uchar CHR ''Z'' then char_of (uchar c + 32) else c)"

lemma TOKEN_lower_case: "token_char c \<Longrightarrow> TOKEN c = lower_case c"
proof -
  assume "token_char c"
  then have c: "token_spec c \<noteq> NUL" by (simp add: token_char_def TOKEN_def spec_simps)
  obtain b0 b1 b2 b3 b4 b5 b6 b7 where b: "c = Char b0 b1 b2 b3 b4 b5 b6 b7" by (cases c)
  have "token_spec c = lower_case c"
    using c by (cases b0; cases b1; cases b2; cases b3; cases b4; cases b5; cases b6; cases b7)
      (simp_all add: b token_spec_def lower_case_def char_class_defs char_of_def bit_0)
  then show ?thesis by (simp add: TOKEN_def spec_simps)
qed

lemma map_TOKEN_lower_case: "\<forall>c \<in> set xs. token_char c \<Longrightarrow> map TOKEN xs = map lower_case xs"
  by (simp add: TOKEN_lower_case)

text \<open>
  C13. The automaton over header names is equivalent to comparing the whole name, letters of
  either case, with five words: at a name that is a token and ends with a colon, the case that
  starts a name and the inner loop consume exactly the name, the header state afterwards is
  that of a word exactly if the name is the word, and nothing else of the parser object changes
  but the index and one flag. The flag \<^verbatim>\<open>F_TRANSFER_ENCODING\<close>, however, is set as soon as the
  name begins with the word, even if it goes on.
\<close>

theorem header_name_recognised:
  assumes "fits_limit e" and "drop p (input e) = name @ CHR '':'' # r" and "name \<noteq> []"
    and "\<forall>c \<in> set name. token_char c"
  shows "\<exists>s q'. exec_switch e (loc (hd name) p (Suc p) s_header_field_start None q) = Break s \<and>
    p_state s = s_header_field \<and>
    header_field_loop e (Suc p) (hd name) (parser s) = Inr (p + length name, CHR '':'', q') \<and>
    (hp_header_state q' = h_connection \<longleftrightarrow>
       map lower_case name = ''connection'' \<or> map lower_case name = ''proxy-connection'') \<and>
    (hp_header_state q' = h_content_length \<longleftrightarrow> map lower_case name = ''content-length'') \<and>
    (hp_header_state q' = h_transfer_encoding \<longleftrightarrow> map lower_case name = ''transfer-encoding'') \<and>
    (hp_header_state q' = h_upgrade \<longleftrightarrow> map lower_case name = ''upgrade'') \<and>
    hp_flags q' = (if take 17 (map lower_case name) = ''transfer-encoding''
      then add_flag (hp_flags q) F_TRANSFER_ENCODING else hp_flags q) \<and>
    q' = q\<lparr>hp_index := hp_index q', hp_header_state := hp_header_state q', hp_flags := hp_flags q'\<rparr>"
proof -
  obtain c cs where name: "name = c # cs" using assms(3) by (cases name) auto
  let ?q = "q\<lparr>hp_index := 0, hp_header_state := name_start c\<rparr>"
  let ?s = "loc c p (Suc p) s_header_field (Some (M_header_field, p)) ?q"
  have c: "c \<noteq> CR" "c \<noteq> LF" "TOKEN c \<noteq> NUL" using assms(4) name token_char_simps by auto
  have start: "exec_switch e (loc c p (Suc p) s_header_field_start None q) = Break ?s"
    using c by (simp add: exec_switch_def exec_header_field_start_def Let_def UPDATE_STATE_def name_start_def)
  have "name_inv [TOKEN c] (hp_header_state ?q) (unat (hp_index ?q))" by (simp add: name_inv_start)
  moreover have "\<forall>c \<in> set cs. token_char c" using assms(4) name by simp
  ultimately obtain q' where q': "field_run cs ?q = Inr q'"
    "name_inv ([TOKEN c] @ map TOKEN cs) (hp_header_state q') (unat (hp_index q'))"
    "q' = ?q\<lparr>hp_index := hp_index q', hp_header_state := hp_header_state q', hp_flags := hp_flags q'\<rparr>"
    "hp_flags q' = (if te_prefix ([TOKEN c] @ map TOKEN cs) \<and> \<not> te_prefix [TOKEN c]
      then add_flag (hp_flags ?q) F_TRANSFER_ENCODING else hp_flags ?q)"
    using field_run_name by blast
  have d: "drop (Suc p) (input e) = cs @ CHR '':'' # r"
    using drop_ConsD [OF assms(2) [unfolded name append_Cons]] by blast
  have "header_field_loop e (Suc p) c ?q = Inr (p + length name, CHR '':'', q')"
    using header_field_loop_run [OF assms(1) d _ _ q'(1), of c] assms(4) name by simp
  moreover have low: "[TOKEN c] @ map TOKEN cs = map lower_case name"
    using map_TOKEN_lower_case [OF assms(4)] name by simp
  have "\<not> te_prefix [TOKEN c]" using te_prefix_long [of "[TOKEN c]"] by auto
  with q'(4) low have "hp_flags q' = (if te_prefix (map lower_case name)
      then add_flag (hp_flags q) F_TRANSFER_ENCODING else hp_flags q)" by simp
  moreover have "q' = q\<lparr>hp_index := hp_index q', hp_header_state := hp_header_state q', hp_flags := hp_flags q'\<rparr>"
    using q'(3) by (cases q, cases q') simp
  moreover have "hd name = c" using name by simp
  ultimately show ?thesis
    using start name_inv_special [OF q'(2) [unfolded low]]
    by (intro exI [of _ ?s] exI [of _ q'] conjI) (simp_all add: te_prefix_def)
qed

theorem header_name_recognised_witness:
  "\<exists>s q'. exec_switch (mk_env 100 logging (example_parser []) ''Transfer-Encodings: x'')
      (loc CHR ''T'' 0 1 s_header_field_start None (example_parser [])) = Break s \<and>
    header_field_loop (mk_env 100 logging (example_parser []) ''Transfer-Encodings: x'') 1 CHR ''T''
      (parser s) = Inr (18, CHR '':'', q') \<and>
    hp_header_state q' \<noteq> h_transfer_encoding \<and> hp_flags q' = add_flag 0 F_TRANSFER_ENCODING"
proof -
  let ?n = "''Transfer-Encodings''" and ?e = "mk_env 100 logging (example_parser []) ''Transfer-Encodings: x''"
  have "\<forall>c \<in> set ?n. token_char c"
    by (simp add: token_char_def TOKEN_def spec_simps token_spec_def char_class_defs)
  moreover have "fits_limit ?e" "drop 0 (input ?e) = ?n @ CHR '':'' # '' x''"
    by (simp_all add: mk_env_def fits_limit_def)
  moreover have "map lower_case ?n = ''transfer-encodings''"
    by (simp add: lower_case_def char_of_def bit_0)
  ultimately show ?thesis
    using header_name_recognised [of ?e 0 ?n "'' x''" "example_parser []"]
    by (auto simp: example_parser_def)
qed

end
