(* ===== verification/Http_Server_Props.thy ===== *)
theory Http_Server_Props
  imports Http_Server Http_Parse_Props
begin

text \<open>
  The HTTP layer of the server over the parser: what a request does to the request object of a
  connection, which answer it gets, and in which states a connection can be.
\<close>

section \<open>The callbacks as functions on the request\<close>

definition put_url :: "http_parser_url \<Rightarrow> http_method \<Rightarrow> string \<Rightarrow> HTTPRequest \<Rightarrow> HTTPRequest checked" where
  "put_url g m buf r =
     (let r = r\<lparr>request_url := request_url r @ buf\<rparr>
      in checked_bind (http_parser_parse_url (request_url r) False g) (\<lambda>(res, u).
           if res \<noteq> 0 then Inl Process_abort
           else
             checked_bind (fillURLSubStr (r\<lparr>req_method := m\<rparr>) u UF_QUERY) (\<lambda>r.
             checked_bind (fillURLSubStr r u UF_FRAGMENT) (\<lambda>r. fillURLSubStr r u UF_PATH))))"

definition put_field :: "string \<Rightarrow> HTTPRequest \<Rightarrow> HTTPRequest" where
  "put_field buf r =
     (if last_header_element r = FIELD
      then r\<lparr>last_filed_value := (fst (last_filed_value r) @ buf, snd (last_filed_value r))\<rparr>
      else (if fst (last_filed_value r) \<noteq> []
            then r\<lparr>req_headers := emplace (fst (last_filed_value r)) (snd (last_filed_value r)) (req_headers r)\<rparr>
            else r)\<lparr>last_filed_value := (buf, []), last_header_element := FIELD\<rparr>)"

definition put_value :: "string \<Rightarrow> HTTPRequest \<Rightarrow> HTTPRequest" where
  "put_value buf r =
     r\<lparr>last_filed_value := (fst (last_filed_value r), snd (last_filed_value r) @ buf), last_header_element := VALUE\<rparr>"

definition put_complete :: "HTTPRequest \<Rightarrow> HTTPRequest" where
  "put_complete r = (flush_header r)\<lparr>message_is_end := True\<rparr>"

lemma checked_bind_assoc [simp]:
  "checked_bind (checked_bind x f) g = checked_bind x (\<lambda>y. checked_bind (f y) g)"
  by (cases x) simp_all

lemma urlCallBack_eq:
  "urlCallBack g buf q = checked_bind (put_url g (hp_method q) buf (hp_data q)) (\<lambda>r. Inr (0, q\<lparr>hp_data := r\<rparr>))"
  by (auto simp: urlCallBack_def put_url_def getRequest_def put_request_def Let_def checked_bind_def
      split: sum.splits)

lemma headerFieldCallBack_eq: "headerFieldCallBack buf q = Inr (0, q\<lparr>hp_data := put_field buf (hp_data q)\<rparr>)"
  by (cases "last_header_element (hp_data q)")
    (auto simp: headerFieldCallBack_def put_field_def getRequest_def put_request_def Let_def)

lemma headerValueCallBack_eq: "headerValueCallBack buf q = Inr (0, q\<lparr>hp_data := put_value buf (hp_data q)\<rparr>)"
  by (simp add: headerValueCallBack_def put_value_def getRequest_def put_request_def Let_def)

interpretation qg_data: data_transformers "defaultParserSettig g" "\<lambda>r. r" "put_url g" put_field put_value
    flush_header put_complete for g
  by unfold_locales
    (simp_all add: defaultParserSettig_def defaultTriggerCallBack_def urlCallBack_eq headerFieldCallBack_eq
      headerValueCallBack_eq headerCompleteCallBack_def messageCompleteCallBack_def put_complete_def
      getRequest_def put_request_def fun_eq_iff)

section \<open>Headers\<close>

text \<open>A sequence of calls of one callback, and of the callbacks for whole headers in pieces.\<close>

primrec call_all :: "HTTPRequest http_data_cb \<Rightarrow> string list \<Rightarrow> req_parser \<Rightarrow> req_parser checked" where
  "call_all f [] q = Inr q"
| "call_all f (b # bs) q = checked_bind (f b q) (\<lambda>(_, q). call_all f bs q)"

primrec deliver :: "(string list \<times> string list) list \<Rightarrow> req_parser \<Rightarrow> req_parser checked" where
  "deliver [] q = Inr q"
| "deliver (h # hs) q =
     checked_bind (call_all headerFieldCallBack (fst h) q) (\<lambda>q.
     checked_bind (call_all headerValueCallBack (snd h) q) (deliver hs))"

definition in_one :: "string list \<times> string list \<Rightarrow> header" where
  "in_one h = (concat (fst h), concat (snd h))"

text \<open>
  What a request holds after the headers \<open>hs\<close>: all but the last in the map, the last one apart.
\<close>

definition holds_headers :: "header list \<Rightarrow> HTTPRequest \<Rightarrow> bool" where
  "holds_headers hs r \<longleftrightarrow>
     req_headers r = map_of (butlast hs) \<and>
     (if hs = [] then last_filed_value r = ([], [])
      else last_filed_value r = last hs \<and> last_header_element r = VALUE \<and> fst (last hs) \<noteq> [])"

lemma emplace_map_of: "emplace k v (map_of hs) = map_of (hs @ [(k, v)])"
  by (auto simp: emplace_def map_add_def fun_eq_iff split: option.split)

lemma holds_headers_last: "hs \<noteq> [] \<Longrightarrow> butlast hs @ [(fst (last hs), snd (last hs))] = hs"
  by simp

lemma flush_holds:
  assumes "holds_headers hs r"
  shows "req_headers (flush_header r) =
    map_of (if hs \<noteq> [] \<and> snd (last hs) = [] then butlast hs else hs)"
  using assms
  by (cases "hs = []")
    (auto simp: holds_headers_def flush_header_def emplace_map_of holds_headers_last split: if_splits)

lemma emplace_idem [simp]: "emplace k v (emplace k v m) = emplace k v m"
  by (simp add: emplace_def)

lemma flush_flush [simp]: "flush_header (flush_header r) = flush_header r"
  by (simp add: flush_header_def)

lemma put_complete_headers [simp]: "req_headers (put_complete r) = req_headers (flush_header r)"
  by (simp add: put_complete_def)

lemma put_field_start:
  assumes "holds_headers hs r"
  shows "req_headers (put_field n r) = map_of hs \<and> last_filed_value (put_field n r) = (n, []) \<and>
    last_header_element (put_field n r) = FIELD"
  using assms
  by (cases "hs = []")
    (auto simp: holds_headers_def put_field_def emplace_map_of holds_headers_last split: if_splits)

lemma holds_headers_step:
  assumes "holds_headers hs r" and "n \<noteq> []"
  shows "holds_headers (hs @ [(n, v)]) (put_value v (put_field n r))"
  using put_field_start [OF assms(1), of n] assms(2) by (simp add: holds_headers_def put_value_def)

lemma holds_headers_fold:
  assumes "holds_headers hs0 r" and "\<forall>h \<in> set hs. fst h \<noteq> []"
  shows "holds_headers (hs0 @ hs) (fold (\<lambda>(n, v) d. put_value v (put_field n d)) hs r)"
  using assms
proof (induction hs arbitrary: hs0 r)
  case (Cons h hs)
  then show ?case using holds_headers_step [OF Cons.prems(1), of "fst h" "snd h"]
      Cons.IH [of "hs0 @ [h]"] by (cases h) simp
qed simp

lemma call_field:
  "last_header_element (hp_data q) = FIELD \<Longrightarrow>
     call_all headerFieldCallBack bs q =
       Inr (q\<lparr>hp_data := (hp_data q)\<lparr>last_filed_value :=
         (fst (last_filed_value (hp_data q)) @ concat bs, snd (last_filed_value (hp_data q)))\<rparr>\<rparr>)"
  by (induction bs arbitrary: q) (simp_all add: headerFieldCallBack_eq put_field_def)

lemma call_value:
  "bs \<noteq> [] \<Longrightarrow> call_all headerValueCallBack bs q =
     Inr (q\<lparr>hp_data := put_value (concat bs) (hp_data q)\<rparr>)"
proof (induction bs arbitrary: q)
  case (Cons b bs)
  then show ?case
    by (cases "bs = []") (simp_all add: headerValueCallBack_eq put_value_def)
qed simp

lemma deliver_holds:
  assumes "\<forall>h \<in> set hs. concat (fst h) \<noteq> [] \<and> snd h \<noteq> []" and "holds_headers hs0 (hp_data q)"
  shows "\<exists>q'. deliver hs q = Inr q' \<and> holds_headers (hs0 @ map in_one hs) (hp_data q')"
  using assms
proof (induction hs arbitrary: hs0 q)
  case Nil
  then show ?case by simp
next
  case (Cons h hs)
  obtain b bs where n: "fst h = b # bs" using Cons.prems(1) by (cases "fst h") auto
  have v: "snd h \<noteq> []" "concat (fst h) \<noteq> []" using Cons.prems(1) by auto
  note start = put_field_start [OF Cons.prems(2), of b]
  let ?q1 = "q\<lparr>hp_data := put_field b (hp_data q)\<rparr>"
  let ?q2 = "?q1\<lparr>hp_data := (hp_data ?q1)\<lparr>last_filed_value := (b @ concat bs, [])\<rparr>\<rparr>"
  let ?q3 = "?q2\<lparr>hp_data := put_value (concat (snd h)) (hp_data ?q2)\<rparr>"
  have "call_all headerFieldCallBack (fst h) q = Inr ?q2"
    using start call_field [of ?q1 bs] n by (simp add: headerFieldCallBack_eq)
  moreover have "call_all headerValueCallBack (snd h) ?q2 = Inr ?q3" by (rule call_value [OF v(1)])
  moreover have "holds_headers (hs0 @ [in_one h]) (hp_data ?q3)"
    using start n v by (simp add: holds_headers_def in_one_def put_value_def)
  ultimately show ?case
    using Cons.IH [of "hs0 @ [in_one h]" ?q3] Cons.prems(1) by simp
qed

section \<open>The URL\<close>

lemma fillURLSubStr_part:
  assumes "fields_in (length (request_url r)) u"
  shows "fillURLSubStr r u UF_QUERY = Inr (r\<lparr>query_string := query_string r @
      (if has_field u UF_QUERY then field_text (request_url r) u UF_QUERY else [])\<rparr>)"
    and "fillURLSubStr r u UF_FRAGMENT = Inr (r\<lparr>fragment := fragment r @
      (if has_field u UF_FRAGMENT then field_text (request_url r) u UF_FRAGMENT else [])\<rparr>)"
    and "fillURLSubStr r u UF_PATH = Inr (r\<lparr>request_path := request_path r @
      (if has_field u UF_PATH then field_text (request_url r) u UF_PATH else [])\<rparr>)"
proof -
  have "unat (uf_off u f) \<le> length (request_url r)" if "has_field u f" for f
    using assms that by (fastforce simp: fields_in_def field_end_def)
  then have "\<not> (length (request_url r) < unat (uf_off u f) \<and> has_field u f)" for f
    using leD by blast
  then show "fillURLSubStr r u UF_QUERY = Inr (r\<lparr>query_string := query_string r @
      (if has_field u UF_QUERY then field_text (request_url r) u UF_QUERY else [])\<rparr>)"
    "fillURLSubStr r u UF_FRAGMENT = Inr (r\<lparr>fragment := fragment r @
      (if has_field u UF_FRAGMENT then field_text (request_url r) u UF_FRAGMENT else [])\<rparr>)"
    "fillURLSubStr r u UF_PATH = Inr (r\<lparr>request_path := request_path r @
      (if has_field u UF_PATH then field_text (request_url r) u UF_PATH else [])\<rparr>)"
    by (simp_all add: fillURLSubStr_def append_substr_def field_text_def Let_def)
qed

lemma put_url_parsed:
  assumes "http_parser_parse_url (request_url r @ buf) False g = Inr (0, u)"
  shows "put_url g m buf r = (let U = request_url r @ buf in
    Inr (r\<lparr>request_url := U, req_method := m,
      query_string := query_string r @ (if has_field u UF_QUERY then field_text U u UF_QUERY else []),
      fragment := fragment r @ (if has_field u UF_FRAGMENT then field_text U u UF_FRAGMENT else []),
      request_path := request_path r @ (if has_field u UF_PATH then field_text U u UF_PATH else [])\<rparr>))"
proof -
  have "fields_in (length (request_url r @ buf)) u"
    using http_parser_parse_url_ok [of "request_url r @ buf" False g] assms by auto
  then show ?thesis using assms by (simp add: put_url_def Let_def fillURLSubStr_part)
qed

text \<open>The request line's URL, \<open>/path?query#fragment\<close>, and the parts a request keeps of it.\<close>

lemma put_good_url:
  assumes "good_url path q f" and "request_url r = []"
  shows "put_url g m (origin_url path q f) r =
    Inr (r\<lparr>request_url := origin_url path q f, req_method := m, query_string := query_string r @ q,
           fragment := fragment r @ f, request_path := request_path r @ CHR ''/'' # path\<rparr>)"
proof -
  let ?U = "origin_url path q f"
  obtain u where u: "http_parser_parse_url ?U False g = Inr (0, u)"
    "has_field u UF_PATH" "has_field u UF_QUERY \<longleftrightarrow> q \<noteq> []" "has_field u UF_FRAGMENT \<longleftrightarrow> f \<noteq> []"
    "field_text ?U u UF_PATH = CHR ''/'' # path" "q \<noteq> [] \<longrightarrow> field_text ?U u UF_QUERY = q"
    "f \<noteq> [] \<longrightarrow> field_text ?U u UF_FRAGMENT = f"
    using parse_good_url [OF assms(1), of g] by auto
  then show ?thesis
    using put_url_parsed [of r ?U g u m] assms(2) by (auto simp: Let_def)
qed

lemma origin_accepted:
  assumes "m \<noteq> HTTP_CONNECT" and "good_url path q f"
  shows "url_accepted m (origin_url path q f)"
proof -
  have stay: "foldl parse_url_char s cs = s" if "\<forall>c \<in> set cs. parse_url_char s c = s" for s cs
    using that by (induction cs) simp_all
  have p: "foldl parse_url_char s_req_path path = s_req_path"
    using assms(2) by (intro stay) (simp add: good_url_def parse_url_char_steps)
  obtain s where s: "s \<in> {s_req_path, s_req_query_string}"
    "foldl parse_url_char s_req_path (if q = [] then [] else CHR ''?'' # q) = s"
  proof (cases q)
    case (Cons c cs)
    then have "foldl parse_url_char s_req_query_string cs = s_req_query_string"
      using assms(2) by (intro stay) (simp add: good_url_def parse_url_char_steps)
    then show ?thesis
      using that Cons assms(2) by (simp add: good_url_def parse_url_char_steps delimiter_steps)
  qed simp
  have f: "foldl parse_url_char s (if f = [] then [] else CHR ''#'' # f) \<in> url_end_states"
  proof (cases f)
    case Nil
    with s(1) show ?thesis by (auto simp: url_end_states_def)
  next
    case (Cons c cs)
    then have "foldl parse_url_char s_req_fragment cs = s_req_fragment"
      using assms(2) by (intro stay) (simp add: good_url_def parse_url_char_steps)
    then show ?thesis
      using s(1) Cons assms(2)
      by (auto simp: good_url_def parse_url_char_steps delimiter_steps url_end_states_def)
  qed
  show ?thesis
    using assms(1) p s f
    by (simp add: url_accepted_def url_start_def origin_url_def delimiter_steps)
qed

section \<open>Answers\<close>

text \<open>A context before its first request, or after an answer.\<close>

definition fresh_context :: "server_env \<Rightarrow> HTTPContext \<Rightarrow> bool" where
  "fresh_context w c \<longleftrightarrow> (\<exists>q. ctx_parser c = http_parser_init q HTTP_REQUEST \<and>
     hp_data q = new_HTTPRequest (se_request w))"

lemma fresh_come: "fresh_context w (handleConnectionCome w m)"
proof -
  have "ctx_parser (handleConnectionCome w m) =
      http_parser_init (m\<lparr>hp_data := new_HTTPRequest (se_request w)\<rparr>) HTTP_REQUEST"
    by (simp add: handleConnectionCome_def new_HTTPContext_def bindParser_def ctx_request_def
        http_parser_init_def)
  then show ?thesis unfolding fresh_context_def
    by (intro exI [of _ "m\<lparr>hp_data := new_HTTPRequest (se_request w)\<rparr>"]) simp
qed

lemma fresh_reset: "fresh_context w (ctx_reset (se_request w) c)"
  unfolding fresh_context_def
  by (intro exI [of _ "bindParser (new_HTTPRequest (se_request w)) (ctx_parser c)"])
    (simp add: ctx_reset_def bindParser_def)

text \<open>What the file system gives for a path; \<open>None\<close> if the process ends.\<close>

definition answer :: "file_system \<Rightarrow> string \<Rightarrow> HTTPResponse option" where
  "answer fs path =
     (let name = CHR ''.'' # path;
          found = (\<lambda>status content. \<lparr>res_status = status, res_headers = ''FilePath: '' @ name @ CRLF,
            res_file_name = [], res_content = content\<rparr>)
      in case fs_size fs name of
           None \<Rightarrow> Some (found ''404 Not Found'' [])
         | Some sz \<Rightarrow>
             if sz > 100 * 1024 * 1024 then Some (found ''500 Internal Server Error'' ''file size up to server bound'')
             else map_option (found ''200 OK'') (fs_read fs name))"

lemma defaultHandleRequest_answer:
  "defaultHandleRequest fs r new_HTTPResponse =
     (case answer fs (request_path r) of None \<Rightarrow> Inl Process_abort | Some a \<Rightarrow> Inr a)"
  by (auto simp: defaultHandleRequest_def answer_def Let_def setHeader_def setStatus_def setContent_def
      new_HTTPResponse_def kMaxFileSize_def readFile_def split: option.splits)

definition plain_request :: "http_method \<Rightarrow> nat \<Rightarrow> nat \<Rightarrow> header list \<Rightarrow> bool" where
  "plain_request m major minor hs \<longleftrightarrow>
     m \<noteq> HTTP_CONNECT \<and> major < 10 \<and> minor < 10 \<and> (\<forall>h \<in> set hs. plain_header h)"

lemma put_frames [simp]:
  "request_path (put_field b r) = request_path r" "request_path (put_value b r) = request_path r"
  "request_path (flush_header r) = request_path r" "request_path (put_complete r) = request_path r"
  "message_is_end (put_complete r)"
  by (simp_all add: put_field_def put_value_def flush_header_def put_complete_def)

lemma request_path_fold [simp]:
  "request_path (fold (\<lambda>(n, v) d. put_value v (put_field n d)) hs r) = request_path r"
  by (induction hs arbitrary: r) auto

lemma parse_get:
  assumes "fresh_context w c" and "plain_request m major minor hs"
    and "good_url path q f"
    and "length (request_text m (origin_url path q f) major minor hs) \<le> unat (se_max_header w)"
  shows "\<exists>c' n. ctx_parse (se_max_header w) (se_url w) c (request_text m (origin_url path q f) major minor hs) =
      Some (Inr (int n, c')) \<and> request_path (ctx_request c') = CHR ''/'' # path \<and> message_is_end (ctx_request c') \<and>
      req_headers (ctx_request c') = map_of hs"
proof -
  let ?U = "origin_url path q f" and ?g = "se_url w"
  let ?t = "request_text m ?U major minor hs"
  obtain p where p: "ctx_parser c = http_parser_init p HTTP_REQUEST" "hp_data p = new_HTTPRequest (se_request w)"
    using assms(1) by (auto simp: fresh_context_def)
  let ?r = "(hp_data p)\<lparr>request_url := ?U, req_method := m, query_string := query_string (hp_data p) @ q,
           fragment := fragment (hp_data p) @ f, request_path := request_path (hp_data p) @ CHR ''/'' # path\<rparr>"
  have put: "put_url ?g m ?U (hp_data p) = Inr ?r"
    using p(2) by (intro put_good_url [OF assms(3)]) (simp add: new_HTTPRequest_def)
  have acc: "url_accepted m ?U"
    using assms(2) origin_accepted [OF _ assms(3)] by (simp add: plain_request_def)
  obtain q' where q': "http_parser_execute (se_max_header w) (defaultParserSettig ?g) (ctx_parser c) ?t =
      Some (Return (length ?t) q')" "hp_http_errno q' = HPE_OK"
    "hp_data q' = put_complete (flush_header (fold (\<lambda>(n, v) d. put_value v (put_field n d)) hs ?r))"
    using qg_data.parse_request [OF acc _ _ _ assms(4), where q = p and g = ?g and d = ?r]
      assms(2) put p(1) by (auto simp: plain_request_def)
  have "fst h \<noteq> [] \<and> snd h \<noteq> []" if "h \<in> set hs" for h
    using assms(2) that by (cases h) (auto simp: plain_request_def)
  then have hs: "\<forall>h \<in> set hs. fst h \<noteq> []" "hs \<noteq> [] \<Longrightarrow> snd (last hs) \<noteq> []" by auto
  have "holds_headers [] ?r" using p(2) by (simp add: holds_headers_def new_HTTPRequest_def)
  from holds_headers_fold [OF this hs(1)]
  have "req_headers (hp_data q') = map_of hs"
    using hs(2) q'(3) flush_holds by fastforce
  moreover have "request_path (hp_data q') = CHR ''/'' # path"
    using q'(3) p(2) by (simp add: new_HTTPRequest_def)
  ultimately show ?thesis
    using q' by (intro exI [of _ "c\<lparr>ctx_parser := q'\<rparr>"] exI [of _ "length ?t"])
      (simp add: ctx_parse_def ctx_request_def)
qed

section \<open>Contexts a connection can be in\<close>







section \<open>Reading a response\<close>

text \<open>What a client does first: the lines up to the first empty one, and the rest.\<close>

fun cut_line :: "string \<Rightarrow> (string \<times> string) option" where
  "cut_line (a # b # cs) =
     (if a = CR \<and> b = LF then Some ([], cs) else map_option (\<lambda>(l, rest). (a # l, rest)) (cut_line (b # cs)))"
| "cut_line _ = None"

lemma cut_line_length: "cut_line t = Some (l, rest) \<Longrightarrow> length rest < length t"
  by (induction t arbitrary: l rest rule: cut_line.induct) (auto split: if_splits)

function message_lines :: "string \<Rightarrow> string list \<times> string" where
  "message_lines t =
     (case cut_line t of
        None \<Rightarrow> ([], t)
      | Some (l, rest) \<Rightarrow>
          if l = [] then ([], rest) else let (ls, body) = message_lines rest in (l # ls, body))"
  by auto
termination by (relation "measure length") (auto simp: cut_line_length)

declare message_lines.simps [simp del]

lemma cut_line_CRLF: "CR \<notin> set l \<Longrightarrow> cut_line (l @ CRLF @ rest) = Some (l, rest)"
proof (induction l)
  case (Cons a l)
  obtain b cs where "l @ CRLF @ rest = b # cs" by (cases "l @ CRLF @ rest") (auto simp: CRLF_def)
  with Cons show ?case by auto
qed (simp add: CRLF_def)

lemma message_lines_line:
  "CR \<notin> set l \<Longrightarrow> message_lines (l @ CRLF @ rest) =
     (if l = [] then ([], rest) else (l # fst (message_lines rest), snd (message_lines rest)))"
  by (subst message_lines.simps) (simp add: cut_line_CRLF split_beta)

definition header_text :: "header \<Rightarrow> string" where
  "header_text h = fst h @ '': '' @ snd h"

lemma message_lines_headers:
  assumes "\<forall>h \<in> set hs. CR \<notin> set (fst h) \<and> CR \<notin> set (snd h)"
  shows "message_lines (concat (map (\<lambda>h. header_text h @ CRLF) hs) @ rest) =
    (map header_text hs @ fst (message_lines rest), snd (message_lines rest))"
  using assms
proof (induction hs)
  case (Cons h hs)
  then have "CR \<notin> set (header_text h)" "header_text h \<noteq> []" by (auto simp: header_text_def)
  with Cons show ?case by (simp add: message_lines_line)
qed simp

lemma to_dec_no_CR: "CR \<notin> set (to_dec n)"
  using to_dec_digits [of CR n] by auto

lemma setStatus_no_CR: "CR \<notin> set (res_status (setStatus code r))"
  by (simp add: setStatus_def)



lemma fold_setHeader: "fold (\<lambda>h. setHeader (fst h) (snd h)) hs r =
    r\<lparr>res_headers := res_headers r @ concat (map (\<lambda>h. header_text h @ CRLF) hs)\<rparr>"
  by (induction hs arbitrary: r) (simp_all add: setHeader_def header_text_def)

section \<open>Properties\<close>

text \<open>
  C5. What a client gets: on a connection that has just been made or has just been answered, a
  request of any method but \<^verbatim>\<open>CONNECT\<close>, with a URL \<open>/path?query#fragment\<close>, any version and any
  headers without a meaning for the parser, that arrives in one piece and fits the header
  limit, is answered by exactly one response, which depends on the path alone: 404 if the file
  system does not know \<open>./path\<close>, an error for files above 100 MiB, otherwise 200 with the
  content. If the file exists but cannot be read, the process ends. The connection is then
  ready for the next request. Nothing stands between the path and the file system: the path of
  a client may go up with \<open>..\<close>, as in the witness.
\<close>

theorem server_answers_request:
  assumes "fresh_context w c" and "plain_request m major minor hs"
    and "good_url path q f"
    and "length (request_text m (origin_url path q f) major minor hs) \<le> unat (se_max_header w)"
  shows "case answer (se_fs w) (CHR ''/'' # path) of
      None \<Rightarrow> handleMessageCome w c (request_text m (origin_url path q f) major minor hs) = Some (Inl Process_abort)
    | Some response \<Rightarrow> \<exists>c'. handleMessageCome w c (request_text m (origin_url path q f) major minor hs) =
          Some (Inr ([Write (toString (se_date w) response)], c')) \<and> fresh_context w c'"
  using parse_get [OF assms] fresh_reset
  by (auto simp: handleMessageCome_def defaultHandleRequest_answer Let_def split: option.split)

text \<open>An example server: one file above its root.\<close>

definition example_request :: HTTPRequest where
  "example_request = \<lparr>req_name = [], req_raw = [], req_type = HTTP_REQUEST, req_method = HTTP_DELETE,
     req_status_code = 0, request_path = [], request_url = [], fragment = [], query_string = [], req_body = [],
     last_header_element = NONE, req_headers = Map.empty, last_filed_value = ([], []),
     req_should_keep_alive = False, body_is_final = False, message_is_end = False\<rparr>"

definition example_fs :: file_system where
  "example_fs = \<lparr>
     fs_size = (\<lambda>p. if p = ''./../secret'' then Some 6 else None),
     fs_read = (\<lambda>p. if p = ''./../secret'' then Some ''hidden'' else None)\<rparr>"

definition example_server :: server_env where
  "example_server = \<lparr>se_max_header = 81920, se_url = http_parser_url_init, se_request = example_request,
     se_date = ''now'', se_fs = example_fs\<rparr>"

theorem server_answers_request_witness:
  "\<exists>c'. handleMessageCome example_server
      (handleConnectionCome example_server (example_parser example_request))
      (request_text HTTP_GET (origin_url ''../secret'' [] []) 1 1 [(''Host'', ''h'')]) =
    Some (Inr ([Write (toString ''now'' \<lparr>res_status = ''200 OK'', res_headers = ''FilePath: ./../secret'' @ CRLF,
      res_file_name = [], res_content = ''hidden''\<rparr>)], c')) \<and> fresh_context example_server c'"
proof -
  have "plain_header (''Host'', ''h'')"
    by (simp add: special_names_def te_prefix_def token_char_def value_char_def IS_HEADER_CHAR_def TOKEN_def
        spec_simps token_spec_def char_class_defs)
  then have "plain_request HTTP_GET 1 1 [(''Host'', ''h'')]"
    by (simp add: plain_request_def del: plain_header.simps)
  moreover have "good_url ''../secret'' [] []"
    by (simp add: good_url_def spec_simps url_char_spec_def origin_url_def)
  moreover have "length (request_text HTTP_GET (origin_url ''../secret'' [] []) 1 1 [(''Host'', ''h'')]) \<le>
      unat (se_max_header example_server)"
    by (simp add: request_text_def version_text_def origin_url_def example_server_def)
  moreover have "answer (se_fs example_server) (CHR ''/'' # ''../secret'') = Some \<lparr>res_status = ''200 OK'',
      res_headers = ''FilePath: ./../secret'' @ CRLF, res_file_name = [], res_content = ''hidden''\<rparr>"
    by (simp add: answer_def example_server_def example_fs_def Let_def)
  moreover have "se_date example_server = ''now''" by (simp add: example_server_def)
  ultimately show ?thesis
    using server_answers_request [OF fresh_come [of example_server "example_parser example_request"],
      where m = HTTP_GET and path = "''../secret''" and q = "[]" and f = "[]" and major = 1 and minor = 1
        and hs = "[(''Host'', ''h'')]"] by simp
qed



text \<open>
  C14. The headers of a request do not depend on how the parser cuts names and values into
  pieces: fed with any headers, every name and value in any number of pieces (an empty value in
  at least one), the callbacks build the map from names to values, of equal names the first,
  with one exception: a last header with an empty value is forgotten.
\<close>

theorem headers_assembled:
  assumes "hp_data q = new_HTTPRequest g" and "\<forall>h \<in> set hs. concat (fst h) \<noteq> [] \<and> snd h \<noteq> []"
  shows "\<exists>q1 q2. deliver hs q = Inr q1 \<and> headerCompleteCallBack q1 = Inr (0, q2) \<and>
    req_headers (hp_data q2) = map_of (map in_one
      (if hs \<noteq> [] \<and> concat (snd (last hs)) = [] then butlast hs else hs))"
proof -
  have "holds_headers [] (hp_data q)" using assms(1) by (simp add: holds_headers_def new_HTTPRequest_def)
  from deliver_holds [OF assms(2) this] obtain q1 where q1: "deliver hs q = Inr q1"
    "holds_headers (map in_one hs) (hp_data q1)" by auto
  have "snd (last (map in_one hs)) = concat (snd (last hs))" if "hs \<noteq> []"
    using that by (simp add: last_map in_one_def)
  with flush_holds [OF q1(2)] have "req_headers (flush_header (hp_data q1)) = map_of (map in_one
      (if hs \<noteq> [] \<and> concat (snd (last hs)) = [] then butlast hs else hs))"
    by (auto simp: map_butlast split: if_splits)
  with q1(1) show ?thesis by (simp add: headerCompleteCallBack_def getRequest_def put_request_def)
qed

theorem headers_assembled_witness:
  "\<exists>q1 q2. deliver [([''Ho'', ''st''], [''h'', '':1'']), ([''X''], [[]])]
      (example_parser (new_HTTPRequest example_request)) = Inr q1 \<and>
    headerCompleteCallBack q1 = Inr (0, q2) \<and> req_headers (hp_data q2) = [''Host'' \<mapsto> ''h:1'']"
  using headers_assembled [of "example_parser (new_HTTPRequest example_request)" example_request
      "[([''Ho'', ''st''], [''h'', '':1'']), ([''X''], [[]])]"]
  by (simp add: example_parser_def in_one_def)

text \<open>
  C36. A request can end the process: if a URL passes the parser's automaton but
  \<^verbatim>\<open>http_parser_parse_url\<close> refuses it, as it refuses a port above 65535, the callback aborts as
  soon as the space behind the URL arrives, whatever follows.
\<close>

theorem refused_url_ends_process:
  assumes "fresh_context w c" and "url_accepted m u" and "http_parser_parse_url u False (se_url w) = Inr (r, u')"
    and "r \<noteq> 0" and "length (method_string m @ SP # u @ SP # rest) \<le> unat (se_max_header w)"
  shows "handleMessageCome w c (method_string m @ SP # u @ SP # rest) = Some (Inl Process_abort)"
proof -
  obtain p where p: "ctx_parser c = http_parser_init p HTTP_REQUEST" "hp_data p = new_HTTPRequest (se_request w)"
    using assms(1) by (auto simp: fresh_context_def)
  have "put_url (se_url w) m u (hp_data p) = Inl Process_abort"
    using p(2) assms(3,4) by (simp add: put_url_def new_HTTPRequest_def)
  from qg_data.refused_request [OF assms(2,5) this] show ?thesis
    by (simp add: handleMessageCome_def ctx_parse_def p(1))
qed

theorem refused_url_ends_process_witness:
  "handleMessageCome example_server (handleConnectionCome example_server (example_parser example_request))
     (method_string HTTP_GET @ SP # ''http://h:65536/'' @ SP # []) = Some (Inl Process_abort)"
proof -
  have "url_accepted HTTP_GET ''http://h:65536/''" by code_simp
  moreover have "case http_parser_parse_url ''http://h:65536/'' False (se_url example_server) of
      Inr (r, u) \<Rightarrow> r \<noteq> 0 | _ \<Rightarrow> False" by code_simp
  moreover have "length (method_string HTTP_GET @ SP # ''http://h:65536/'' @ SP # []) \<le>
      unat (se_max_header example_server)" by (simp add: example_server_def)
  ultimately show ?thesis
    using refused_url_ends_process [OF fresh_come [of example_server "example_parser example_request"],
      of HTTP_GET "''http://h:65536/''"]
    by (auto split: sum.splits prod.splits)
qed



text \<open>
  C37. A URL that arrives in two pieces, cut in the path, gives a wrong path: the second call
  of the callback parses the whole URL again and appends its path to what the first call found.
\<close>

theorem split_url_repeats_path:
  assumes "request_url (hp_data psr) = []" and "request_path (hp_data psr) = []"
    and "good_url (p1 @ p2) q f" and "origin_url (p1 @ p2) q f = origin_url p1 [] [] @ rest"
  shows "\<exists>psr1 psr2. urlCallBack g (origin_url p1 [] []) psr = Inr (0, psr1) \<and>
    urlCallBack g rest psr1 = Inr (0, psr2) \<and>
    request_url (hp_data psr2) = origin_url (p1 @ p2) q f \<and>
    request_path (hp_data psr2) = (CHR ''/'' # p1) @ (CHR ''/'' # p1 @ p2)"
proof -
  have good: "good_url p1 [] []" using assms(3,4) by (auto simp: good_url_def origin_url_def)
  note put1 = put_good_url [OF good assms(1), of g "hp_method psr"]
  let ?r1 = "(hp_data psr)\<lparr>request_url := origin_url p1 [] [], req_method := hp_method psr,
    query_string := query_string (hp_data psr) @ [], fragment := fragment (hp_data psr) @ [],
    request_path := request_path (hp_data psr) @ CHR ''/'' # p1\<rparr>"
  obtain u where u: "http_parser_parse_url (request_url ?r1 @ rest) False g = Inr (0, u)" "has_field u UF_PATH"
    "field_text (request_url ?r1 @ rest) u UF_PATH = CHR ''/'' # p1 @ p2"
    using parse_good_url [OF assms(3), of g] assms(4) by auto
  from put_url_parsed [OF u(1), of "hp_method psr"] u(2,3)
  obtain r2 where "put_url g (hp_method psr) rest ?r1 = Inr r2"
    "request_path r2 = request_path ?r1 @ CHR ''/'' # p1 @ p2" "request_url r2 = request_url ?r1 @ rest"
    by (auto simp: Let_def)
  then show ?thesis
    using put1 assms(2,4) by (simp add: urlCallBack_eq)
qed

theorem split_url_repeats_path_witness:
  "\<exists>psr1 psr2. urlCallBack http_parser_url_init ''/a'' (example_parser (new_HTTPRequest example_request)) = Inr (0, psr1) \<and>
    urlCallBack http_parser_url_init ''b?q'' psr1 = Inr (0, psr2) \<and>
    request_url (hp_data psr2) = ''/ab?q'' \<and> request_path (hp_data psr2) = ''/a/ab''"
proof -
  have "good_url (''a'' @ ''b'') ''q'' []"
    by (simp add: good_url_def spec_simps url_char_spec_def query_char_def origin_url_def)
  then show ?thesis
    using split_url_repeats_path [of "example_parser (new_HTTPRequest example_request)" "''a''" "''b''" "''q''" "[]" "''b?q''"
        http_parser_url_init]
    by (simp add: example_parser_def new_HTTPRequest_def origin_url_def)
qed

text \<open>
  C17. Round trip of responses: a response built with a status code, headers and a content from
  parts without a carriage return, written out and read by a client that takes the lines up to
  the first empty one, gives the status line, the five fixed headers, the given headers in their
  order, and the body, which is the content, or the status text if there is none. The number in
  the line \<^verbatim>\<open>Content-Length\<close> is the number of bytes of this body.
\<close>

theorem response_round_trip:
  assumes "CR \<notin> set date" and "\<forall>h \<in> set hs. CR \<notin> set (fst h) \<and> CR \<notin> set (snd h)"
  shows "let r = setContent content (fold (\<lambda>h. setHeader (fst h) (snd h)) hs (setStatus code new_HTTPResponse));
      body = (if content = [] then res_status r else content)
    in message_lines (toString date r) =
      ([''HTTP/1.1 '' @ res_status r, ''Server: QG Server (MacOs)'', ''Date: '' @ date, ''Content-Type: text/html'',
        ''Connection: keep-alive'', ''Content-Length: '' @ to_dec (length body)] @ map header_text hs, body) \<and>
      from_dec 0 (to_dec (length body)) = length body"
proof -
  have status: "CR \<notin> set (''HTTP/1.1 '' @ res_status (setStatus code new_HTTPResponse))"
    using setStatus_no_CR by simp
  have len: "CR \<notin> set (''Content-Length: '' @ to_dec n)" for n using to_dec_no_CR by simp
  have end_line: "message_lines (CRLF @ body) = ([], body)" for body
    using message_lines_line [of "[]"] by simp
  note line = message_lines_line [of "''HTTP/1.1 '' @ res_status (setStatus code new_HTTPResponse)", OF status, simplified]
    message_lines_line [of "''Server: QG Server (MacOs)''", simplified]
    message_lines_line [of "''Date: '' @ date", simplified] message_lines_line [of "''Content-Type: text/html''", simplified]
    message_lines_line [of "''Connection: keep-alive''", simplified]
    message_lines_line [OF len, simplified]
  show ?thesis
    using assms(1) line message_lines_headers [OF assms(2)] end_line
    by (simp add: toString_def Let_def fold_setHeader setContent_def new_HTTPResponse_def setStatus_def from_dec_to_dec)
qed

theorem response_round_trip_witness:
  "message_lines (toString ''now'' (setHeader ''A'' ''b'' (setStatus 401 new_HTTPResponse))) =
    ([''HTTP/1.1 500 Internal Server Error'', ''Server: QG Server (MacOs)'', ''Date: now'', ''Content-Type: text/html'',
      ''Connection: keep-alive'', ''Content-Length: 25'', ''A: b''], ''500 Internal Server Error'')"
proof -
  have "setContent [] (setHeader ''A'' ''b'' (setStatus 401 new_HTTPResponse)) =
      setHeader ''A'' ''b'' (setStatus 401 new_HTTPResponse)"
    by (simp add: setContent_def setHeader_def setStatus_def new_HTTPResponse_def)
  moreover have "to_dec (length ''500 Internal Server Error'') = ''25''"
    by (simp add: to_dec.simps char_of_def bit_0)
  moreover have "res_status (setHeader ''A'' ''b'' (setStatus 401 new_HTTPResponse)) = ''500 Internal Server Error''"
    by (simp add: setHeader_def setStatus_def)
  ultimately show ?thesis
    using response_round_trip [of "''now''" "[(''A'', ''b'')]" "[]" 401] by (simp add: header_text_def Let_def)
qed

end
