(* ===== verification/Http_Reads.thy ===== *)
theory Http_Reads
  imports Http_Parse_Props
begin

text \<open>
  Reads of any size: a call of \<^verbatim>\<open>http_parser_execute\<close> on some input does what calls on its
  bytes, one after the other, do. This theory holds the relation between the locals of the call
  on the whole input and those of the call on its byte, and shows that the cases of the switch
  keep it.
\<close>

section \<open>What a caller sees of a parser object\<close>

text \<open>
  The same object, or the same error: with an error, the data given to callbacks, the header
  state and the counter may differ.
\<close>

definition same_result :: "'u http_parser \<Rightarrow> 'u http_parser \<Rightarrow> bool" where
  "same_result q q' \<longleftrightarrow>
     q' = q\<lparr>hp_data := hp_data q', hp_header_state := hp_header_state q', hp_nread := hp_nread q'\<rparr> \<and>
     (hp_http_errno q = HPE_OK \<longrightarrow> q' = q)"

lemma same_result_refl [simp]: "same_result q q"
  by (simp add: same_result_def)

lemma same_result_sym: "same_result q q' \<Longrightarrow> same_result q' q"
  by (cases q, cases q') (auto simp: same_result_def)

lemma same_result_trans: "same_result q q' \<Longrightarrow> same_result q' q'' \<Longrightarrow> same_result q q''"
  by (cases q, cases q', cases q'') (auto simp: same_result_def)

lemma same_result_OK: "same_result q q' \<Longrightarrow> hp_http_errno q = HPE_OK \<Longrightarrow> q' = q"
  by (simp add: same_result_def)

text \<open>
  During a call the state and the counter stored in the object are out of date; the data of
  the call on a byte is ahead by what has been delivered of the current token.
\<close>

definition psim :: "'u \<Rightarrow> 'u http_parser \<Rightarrow> 'u http_parser \<Rightarrow> bool" where
  "psim D q q' \<longleftrightarrow> q' = q\<lparr>hp_data := D, hp_state := hp_state q', hp_nread := hp_nread q'\<rparr>"

lemma psim_sel:
  assumes "psim D q q'"
  shows "hp_type q' = hp_type q" "hp_header_state q' = hp_header_state q" "hp_index q' = hp_index q"
    "hp_flags q' = hp_flags q" "hp_content_length q' = hp_content_length q"
    "hp_http_major q' = hp_http_major q" "hp_http_minor q' = hp_http_minor q"
    "hp_status_code q' = hp_status_code q" "hp_method q' = hp_method q"
    "hp_http_errno q' = hp_http_errno q" "hp_upgrade q' = hp_upgrade q" "hp_data q' = D"
    "hp_lenient_http_headers q' = hp_lenient_http_headers q"
  by (subst assms [unfolded psim_def], simp)+

lemma psim_ignored [simp]:
  "psim D (q\<lparr>hp_state := v\<rparr>) q' = psim D q q'" "psim D q (q'\<lparr>hp_state := v\<rparr>) = psim D q q'"
  "psim D (q\<lparr>hp_nread := w\<rparr>) q' = psim D q q'" "psim D q (q'\<lparr>hp_nread := w\<rparr>) = psim D q q'"
  by (cases q, cases q', simp add: psim_def)+

lemma psim_same [simp]:
  assumes "psim D q q'"
  shows "psim D (q\<lparr>hp_type := t\<rparr>) (q'\<lparr>hp_type := t\<rparr>)"
    "psim D (q\<lparr>hp_header_state := h\<rparr>) (q'\<lparr>hp_header_state := h\<rparr>)"
    "psim D (q\<lparr>hp_index := i\<rparr>) (q'\<lparr>hp_index := i\<rparr>)"
    "psim D (q\<lparr>hp_flags := f\<rparr>) (q'\<lparr>hp_flags := f\<rparr>)"
    "psim D (q\<lparr>hp_content_length := l\<rparr>) (q'\<lparr>hp_content_length := l\<rparr>)"
    "psim D (q\<lparr>hp_http_major := a\<rparr>) (q'\<lparr>hp_http_major := a\<rparr>)"
    "psim D (q\<lparr>hp_http_minor := b\<rparr>) (q'\<lparr>hp_http_minor := b\<rparr>)"
    "psim D (q\<lparr>hp_status_code := c\<rparr>) (q'\<lparr>hp_status_code := c\<rparr>)"
    "psim D (q\<lparr>hp_method := m\<rparr>) (q'\<lparr>hp_method := m\<rparr>)"
    "psim D (q\<lparr>hp_http_errno := e\<rparr>) (q'\<lparr>hp_http_errno := e\<rparr>)"
    "psim D (q\<lparr>hp_upgrade := u\<rparr>) (q'\<lparr>hp_upgrade := u\<rparr>)"
    "psim D' (q\<lparr>hp_data := d\<rparr>) (q'\<lparr>hp_data := D'\<rparr>)"
    "psim D' q (q'\<lparr>hp_data := D'\<rparr>)"
  using assms by (cases q, cases q', simp add: psim_def)+

lemma psim_data: "psim D q q' \<Longrightarrow> psim D' (q\<lparr>hp_state := x, hp_data := d\<rparr>) (q'\<lparr>hp_state := x', hp_data := D'\<rparr>)"
  by (cases q, cases q') (simp add: psim_def)

lemma psim_refl: "psim (hp_data q) q q"
  by (simp add: psim_def)

lemma psim_error:
  "psim D q q' \<Longrightarrow> er \<noteq> HPE_OK \<Longrightarrow>
     same_result (q'\<lparr>hp_nread := n', hp_http_errno := er, hp_state := x\<rparr>)
       (q\<lparr>hp_nread := n, hp_http_errno := er, hp_state := x\<rparr>)"
  by (cases q, cases q') (simp add: same_result_def psim_def)

lemma psim_result:
  "psim (hp_data q) q q' \<Longrightarrow> q'\<lparr>hp_nread := n, hp_state := x\<rparr> = q\<lparr>hp_nread := n, hp_state := x\<rparr>"
  by (cases q, cases q') (simp add: psim_def)

section \<open>The call on one byte\<close>

definition at_one :: "nat \<Rightarrow> 'u env \<Rightarrow> 'u env" where
  "at_one k e = e\<lparr>input := [input e ! k]\<rparr>"

lemma at_one_simps [simp]:
  "settings (at_one k e) = settings e" "lenient (at_one k e) = lenient e"
  "max_header_size (at_one k e) = max_header_size e" "input (at_one k e) = [input e ! k]"
  by (simp_all add: at_one_def)

text \<open>
  States that are entered only between two bytes, with loops or a mark that is not set again;
  they are treated apart.
\<close>

definition boundary_states :: "pstate set" where
  "boundary_states = {s_header_field, s_header_value, s_body_identity, s_body_identity_eof, s_chunk_data,
     s_chunk_data_almost_done}"

text \<open>A mark is set when and only when the state is one of its token; the mark of a body may be missing.\<close>

definition mark_ok :: "pstate \<Rightarrow> (mark \<times> nat) option \<Rightarrow> bool" where
  "mark_ok x mk \<longleftrightarrow>
     (case mk of None \<Rightarrow> \<forall>m. m \<noteq> M_body \<longrightarrow> x \<notin> mark_states m | Some (m, A) \<Rightarrow> x \<in> mark_states m)"

lemma mark_ok_Some [simp]: "mark_ok x (Some (m, A)) \<longleftrightarrow> x \<in> mark_states m"
  by (simp add: mark_ok_def)

lemma mark_ok_None: "mark_ok x None \<longleftrightarrow> x \<notin> url_mark_states \<union> {s_header_field, s_header_value, s_res_status}"
  unfolding mark_ok_def by (auto simp: mark_states_def split: mark.split)

lemma mark_ok_None_simps [simp]:
  "x \<notin> url_mark_states \<Longrightarrow> x \<noteq> s_header_field \<Longrightarrow> x \<noteq> s_header_value \<Longrightarrow> x \<noteq> s_res_status \<Longrightarrow> mark_ok x None"
  by (simp add: mark_ok_None)

lemma NEW_MESSAGE_unmarked [simp]: "mark_ok (NEW_MESSAGE q) None" "NEW_MESSAGE q \<notin> boundary_states"
  using NEW_MESSAGE_cases [of q] by (auto simp: mark_ok_None url_mark_states_def boundary_states_def)

section \<open>Callbacks that can be given a token in pieces\<close>

text \<open>
  \<open>piece m b d\<close> is what the callback for \<open>m\<close> makes of the user's data \<open>d\<close>, given the bytes
  \<open>b\<close>; two calls with the parts of a token do the same as one call with the token.
\<close>

locale streaming_callbacks =
  fixes st :: "'u http_parser_settings" and piece :: "mark \<Rightarrow> string \<Rightarrow> 'u \<Rightarrow> 'u"
  assumes data_cb: "mark_cb m st = Some f \<Longrightarrow> f b q = Inr (0, q\<lparr>hp_data := piece m b (hp_data q)\<rparr>)"
    and no_data_cb: "mark_cb m st = None \<Longrightarrow> piece m b d = d"
    and piece_append: "piece m (u @ v) d = piece m v (piece m u d)"
    and notify_cb: "Some h \<in> set (notify_cbs st) \<Longrightarrow>
      \<exists>g. h = (\<lambda>q. Inr (0, q\<lparr>hp_data := g (hp_data q)\<rparr>))"

sublocale streaming_callbacks \<subseteq> parser_callbacks st
proof unfold_locales
  fix f q
  assume "Some f \<in> set (notify_cbs st)"
  then obtain g where "f = (\<lambda>q. Inr (0, q\<lparr>hp_data := g (hp_data q)\<rparr>))" using notify_cb by blast
  then show "callback_ok f q" by (simp add: callback_ok_def callback_frame_def)
next
  fix f bytes q
  assume "Some f \<in> set (data_cbs st)"
  then obtain m where "mark_cb m st = Some f"
    unfolding data_cbs_def by (auto) (metis mark_cb.simps)+
  then show "callback_ok (f bytes) q" by (simp add: data_cb callback_ok_def callback_frame_def)
qed

section \<open>The relation between the locals\<close>

context streaming_callbacks begin

definition delivered :: "mark \<Rightarrow> string \<Rightarrow> 'u \<Rightarrow> 'u" where
  "delivered m u d = (if u = [] then d else piece m u d)"

text \<open>
  \<open>k\<close> is the offset of the byte; a token the call on the whole input has marked at \<open>A\<close> is
  marked at the byte in the other call, and what lies before has been delivered.
\<close>

definition ahead :: "'u env \<Rightarrow> nat \<Rightarrow> (mark \<times> nat) option \<Rightarrow> 'u \<Rightarrow> 'u" where
  "ahead e k mk d =
     (case mk of None \<Rightarrow> d | Some (m, A) \<Rightarrow> delivered m (take (k - A) (drop A (input e))) d)"

definition tsim ::
  "'u env \<Rightarrow> nat \<Rightarrow> (mark \<times> nat) option \<Rightarrow> 'u http_parser \<Rightarrow> (mark \<times> nat) option \<Rightarrow> 'u http_parser \<Rightarrow> bool" where
  "tsim e k mk q mk' q' \<longleftrightarrow>
     hp_http_errno q = HPE_OK \<and> hp_lenient_http_headers q = lenient e \<and> mk' = map_option (\<lambda>(m, A). (m, 0)) mk \<and> (\<forall>m A. mk = Some (m, A) \<longrightarrow> A \<le> k) \<and>
     psim (ahead e k mk (hp_data q)) q q'"

definition lsim :: "'u env \<Rightarrow> nat \<Rightarrow> 'u locals \<Rightarrow> 'u locals \<Rightarrow> bool" where
  "lsim e k s s' \<longleftrightarrow> (\<exists>c c' n x mk q mk' q'. s = loc c k n x mk q \<and> s' = loc c' 0 n x mk' q' \<and>
     n + (length (input e) - Suc k) \<le> unat (max_header_size e) \<and> mark_ok x mk \<and> tsim e k mk q mk' q')"

definition osim :: "'u env \<Rightarrow> nat \<Rightarrow> 'u outcome \<Rightarrow> 'u outcome \<Rightarrow> bool" where
  "osim e k oc oc' \<longleftrightarrow>
     (case oc' of
        Break s' \<Rightarrow> \<exists>s. oc = Break s \<and> lsim e k s s'
      | Reexecute s' \<Rightarrow> \<exists>s. oc = Reexecute s \<and> lsim e k s s' \<and> p_state s' \<notin> boundary_states \<and> ex_ch s = ex_ch s'
      | Return n' q' \<Rightarrow> \<exists>q. oc = Return (k + n') q \<and> same_result q' q \<and> n' \<le> 1 \<and> (hp_http_errno q' \<noteq> HPE_OK \<or> hp_upgrade q')
      | Abort a \<Rightarrow> oc = Abort a)"

lemma osim_simps [simp]:
  "osim e k (Break s) (Break s') = lsim e k s s'"
  "osim e k (Reexecute s) (Reexecute s') = (lsim e k s s' \<and> p_state s' \<notin> boundary_states \<and> ex_ch s = ex_ch s')"
  "osim e k (Return k q) (Return 0 q') = (same_result q' q \<and> (hp_http_errno q' \<noteq> HPE_OK \<or> hp_upgrade q'))"
  "osim e k (Return (Suc k) q) (Return (Suc 0) q') = (same_result q' q \<and> (hp_http_errno q' \<noteq> HPE_OK \<or> hp_upgrade q'))"
  "osim e k (Abort a) (Abort a') = (a = a')"
  by (simp_all add: osim_def)

lemma osim_if:
  "(b \<Longrightarrow> osim e k x x') \<Longrightarrow> (\<not> b \<Longrightarrow> osim e k y y') \<Longrightarrow> osim e k (if b then x else y) (if b then x' else y')"
  by simp

lemma tsim_None: "tsim e k None q mk' q' \<longleftrightarrow>
     hp_http_errno q = HPE_OK \<and> hp_lenient_http_headers q = lenient e \<and> mk' = None \<and> psim (hp_data q) q q'"
  by (auto simp: tsim_def ahead_def)

lemma tsim_psim: "tsim e k mk q mk' q' \<Longrightarrow> psim (ahead e k mk (hp_data q)) q q'"
  by (simp add: tsim_def)

lemmas tsim_sel = psim_sel [OF tsim_psim]

lemma tsim_errno: "tsim e k mk q mk' q' \<Longrightarrow> hp_http_errno q = HPE_OK"
  by (simp add: tsim_def)

lemma tsim_lenient: "tsim e k mk q mk' q' \<Longrightarrow> hp_lenient_http_headers q = lenient e"
  by (simp add: tsim_def)

lemma tsim_ignored [simp]:
  "tsim e k mk (q\<lparr>hp_state := v\<rparr>) mk' q' = tsim e k mk q mk' q'"
  "tsim e k mk q mk' (q'\<lparr>hp_state := v\<rparr>) = tsim e k mk q mk' q'"
  "tsim e k mk (q\<lparr>hp_nread := w\<rparr>) mk' q' = tsim e k mk q mk' q'"
  "tsim e k mk q mk' (q'\<lparr>hp_nread := w\<rparr>) = tsim e k mk q mk' q'"
  by (simp_all add: tsim_def ahead_def)

lemma tsim_upd [simp]:
  assumes "tsim e k mk q mk' q'"
  shows "tsim e k mk (q\<lparr>hp_type := t\<rparr>) mk' (q'\<lparr>hp_type := t\<rparr>)"
    "tsim e k mk (q\<lparr>hp_header_state := h\<rparr>) mk' (q'\<lparr>hp_header_state := h\<rparr>)"
    "tsim e k mk (q\<lparr>hp_index := i\<rparr>) mk' (q'\<lparr>hp_index := i\<rparr>)"
    "tsim e k mk (q\<lparr>hp_flags := f\<rparr>) mk' (q'\<lparr>hp_flags := f\<rparr>)"
    "tsim e k mk (q\<lparr>hp_content_length := l\<rparr>) mk' (q'\<lparr>hp_content_length := l\<rparr>)"
    "tsim e k mk (q\<lparr>hp_http_major := a\<rparr>) mk' (q'\<lparr>hp_http_major := a\<rparr>)"
    "tsim e k mk (q\<lparr>hp_http_minor := b\<rparr>) mk' (q'\<lparr>hp_http_minor := b\<rparr>)"
    "tsim e k mk (q\<lparr>hp_status_code := c\<rparr>) mk' (q'\<lparr>hp_status_code := c\<rparr>)"
    "tsim e k mk (q\<lparr>hp_method := m\<rparr>) mk' (q'\<lparr>hp_method := m\<rparr>)"
    "tsim e k mk (q\<lparr>hp_upgrade := u\<rparr>) mk' (q'\<lparr>hp_upgrade := u\<rparr>)"
  using assms by (simp_all add: tsim_def)

lemma lsim_loc [simp]:
  "n + (length (input e) - Suc k) \<le> unat (max_header_size e) \<Longrightarrow> mark_ok x mk \<Longrightarrow> tsim e k mk q mk' q' \<Longrightarrow>
     lsim e k (loc c k n x mk q) (loc c' 0 n x mk' q')"
  unfolding lsim_def by blast

lemma tsim_mark: "tsim e k None q mk' q' \<Longrightarrow> tsim e k (Some (m, k)) q (Some (m, 0)) q'"
  by (simp add: tsim_def ahead_def delivered_def)

section \<open>The macros\<close>

lemma osim_fail [simp]:
  assumes "psim D q q'" and "er \<noteq> HPE_OK"
  shows "osim e k (fail er (loc c k n x mk q)) (fail er (loc c' 0 n' x mk' q'))"
  using psim_error [OF assms] by (simp add: fail_loc assms(2))

lemma osim_return [simp]:
  assumes "psim (hp_data q) q q'" and "hp_upgrade q"
  shows "osim e k (RETURN (Suc k) (loc c k n x mk q)) (RETURN (Suc 0) (loc c' 0 n x mk' q'))"
  using psim_result [OF assms(1)] psim_sel(11) [OF assms(1)] assms(2) by (simp add: RETURN_def)

text \<open>What the callbacks leave behind.\<close>

definition notified :: "('u http_parser_settings \<Rightarrow> 'u http_cb option) \<Rightarrow> pstate \<Rightarrow> 'u http_parser \<Rightarrow> 'u http_parser" where
  "notified cb x q = (case cb st of None \<Rightarrow> q | Some f \<Rightarrow> snd (projr (f (q\<lparr>hp_state := x\<rparr>))))"

definition flushed :: "mark \<Rightarrow> string \<Rightarrow> pstate \<Rightarrow> 'u http_parser \<Rightarrow> 'u http_parser" where
  "flushed m b x q =
     (if mark_cb m st = None then q else q\<lparr>hp_state := x, hp_data := piece m b (hp_data q)\<rparr>)"

lemma notify_form:
  assumes "cb st \<in> set (notify_cbs st)" and "cb st = Some f"
  obtains g where "f = (\<lambda>q. Inr (0, q\<lparr>hp_data := g (hp_data q)\<rparr>))"
proof -
  have "Some f \<in> set (notify_cbs st)" using assms by simp
  from notify_cb [OF this] that show ?thesis by blast
qed

lemma notify_macro:
  assumes "settings e = st" and "cb st \<in> set (notify_cbs st)" and "hp_http_errno q = HPE_OK"
  shows "CALLBACK_NOTIFY_AT cb er R e (loc c p n x mk q) K = K (loc c p n x mk (notified cb x q))"
proof (cases "cb st")
  case None
  with assms show ?thesis by (simp add: CALLBACK_NOTIFY_AT_def notified_def)
next
  case (Some f)
  obtain g where f: "f = (\<lambda>q. Inr (0, q\<lparr>hp_data := g (hp_data q)\<rparr>))"
    using assms(2) Some by (rule notify_form)
  show ?thesis
    using assms(1,3) Some unfolding f
    by (simp add: CALLBACK_NOTIFY_AT_def after_callback_ok notified_def)
qed

lemma notified_cases:
  assumes "cb st \<in> set (notify_cbs st)"
  obtains "\<And>x q. notified cb x q = q" | g where "\<And>x q. notified cb x q = q\<lparr>hp_state := x, hp_data := g (hp_data q)\<rparr>"
proof (cases "cb st")
  case None
  then show ?thesis using that(1) by (simp add: notified_def)
next
  case (Some f)
  obtain g where f: "f = (\<lambda>q. Inr (0, q\<lparr>hp_data := g (hp_data q)\<rparr>))"
    using assms Some by (rule notify_form)
  have "notified cb x q = q\<lparr>hp_state := x, hp_data := g (hp_data q)\<rparr>" for x q
    using Some by (simp add: notified_def f)
  then show ?thesis by (rule that(2))
qed

lemma notified_sim:
  assumes "tsim e k None q mk' q'" and "cb st \<in> set (notify_cbs st)"
  shows "tsim e k None (notified cb x q) mk' (notified cb x' q')"
  using assms(2)
proof (rule notified_cases)
  fix g
  assume g: "\<And>x q. notified cb x q = q\<lparr>hp_state := x, hp_data := g (hp_data q)\<rparr>"
  have "hp_data q' = hp_data q" using tsim_sel(12) [OF assms(1)] by (simp add: ahead_def)
  then show ?thesis using assms(1) by (auto simp: g tsim_None intro: psim_data)
qed (use assms(1) in simp)

lemma data_macro:
  assumes "settings e = st" and "hp_http_errno q = HPE_OK"
    and "\<And>a. mk = Some (m, a) \<Longrightarrow> a \<le> stop" and "stop \<le> length (input e)" and "mk = None \<or> (\<exists>a. mk = Some (m, a))"
  shows "CALLBACK_DATA_AT m stop er e (loc c p n x mk q) K =
    K (loc c p n x None (case mk of None \<Rightarrow> q
      | Some (m, a) \<Rightarrow> flushed m (take (stop - a) (drop a (input e))) x q))"
proof (cases mk)
  case None
  with assms(2) show ?thesis by (simp add: CALLBACK_DATA_AT_def)
next
  case (Some ma)
  with assms(3,5) obtain a where a: "mk = Some (m, a)" "a \<le> stop" by auto
  show ?thesis
  proof (cases "mark_cb m st")
    case None
    with assms(1,2) a show ?thesis by (simp add: CALLBACK_DATA_AT_def flushed_def)
  next
    case (Some f)
    with assms(1,2,4) a show ?thesis
      by (simp add: CALLBACK_DATA_AT_def flushed_def data_cb [OF Some] after_callback_ok)
  qed
qed

lemma delivered_append:
  "piece m v (delivered m u d) = piece m (u @ v) d"
  by (cases "u = []") (simp_all add: delivered_def piece_append)

text \<open>A token that ends before the byte or with the byte.\<close>

lemma flushed_sim:
  assumes "tsim e k (Some (m, A)) q mk' q'" and "k < length (input e)" and "j \<le> 1"
  shows "tsim e k None (flushed m (take (k + j - A) (drop A (input e))) x q) None
    (flushed m (take j [input e ! k]) x' q')"
proof -
  let ?u = "take (k - A) (drop A (input e))"
  have A: "A \<le> k" using assms(1) by (simp add: tsim_def)
  have data: "hp_data q' = delivered m ?u (hp_data q)"
    using tsim_sel(12) [OF assms(1)] by (simp add: ahead_def)
  have "take (k + j - A) (drop A (input e)) = ?u @ take j [input e ! k]"
  proof (cases j)
    case (Suc i)
    with assms(3) have j: "j = 1" by simp
    have "k + j - A = Suc (k - A)" using A j by simp
    moreover have "drop A (input e) ! (k - A) = input e ! k" using A assms(2) by simp
    ultimately show ?thesis using A assms(2) j by (simp add: take_Suc_conv_app_nth)
  qed simp
  then have "piece m (take (k + j - A) (drop A (input e))) (hp_data q) = piece m (take j [input e ! k]) (hp_data q')"
    unfolding data delivered_append by simp
  moreover have "delivered m ?u (hp_data q) = hp_data q" if "mark_cb m st = None"
    using no_data_cb [OF that] by (simp add: delivered_def)
  ultimately show ?thesis
    using tsim_psim [OF assms(1)] tsim_errno [OF assms(1)] tsim_lenient [OF assms(1)]
    by (auto simp: flushed_def tsim_None ahead_def)
qed

definition ready :: "'u env \<Rightarrow> nat \<Rightarrow> nat \<Rightarrow> bool" where
  "ready e k n \<longleftrightarrow> settings e = st \<and> k < length (input e) \<and>
     n + (length (input e) - Suc k) \<le> unat (max_header_size e)"

lemma readyD:
  assumes "ready e k n"
  shows "settings e = st" "k < length (input e)" "n + (length (input e) - Suc k) \<le> unat (max_header_size e)"
    "n + length (input e) - Suc k \<le> unat (max_header_size e)"
  using assms by (auto simp: ready_def)

lemma ready_0: "ready e k n \<Longrightarrow> ready e k 0"
  by (simp add: ready_def)

lemma osim_data:
  assumes "ready e k n" and "j \<le> 1" and T: "tsim e k mk q mk' q'"
    and mk: "mk = None \<or> (\<exists>a. mk = Some (m, a))"
    and cont: "\<And>q1 q1'. tsim e k None q1 None q1' \<Longrightarrow> osim e k (K (loc c k n x None q1)) (K' (loc c' 0 n x None q1'))"
  shows "osim e k (CALLBACK_DATA_AT m (k + j) er e (loc c k n x mk q) K)
    (CALLBACK_DATA_AT m j er' (at_one k e) (loc c' 0 n x mk' q') K')"
proof -
  have OK: "hp_http_errno q = HPE_OK" "hp_http_errno q' = HPE_OK"
    using tsim_errno [OF T] tsim_sel(10) [OF T] by simp_all
  note e = readyD(1,2) [OF assms(1)]
  show ?thesis
  proof (cases mk)
    case None
    with T have T: "tsim e k None q None q'" and mk': "mk' = None" by (simp_all add: tsim_None)
    from cont [OF T] OK None mk' show ?thesis by (simp add: CALLBACK_DATA_AT_def)
  next
    case (Some mA)
    with T mk obtain A where mk: "mk = Some (m, A)" "mk' = Some (m, 0)" "A \<le> k"
      by (auto simp: tsim_def)
    note T = T [unfolded mk(1,2)]
    have big: "CALLBACK_DATA_AT m (k + j) er e (loc c k n x mk q) K =
        K (loc c k n x None (flushed m (take (k + j - A) (drop A (input e))) x q))"
      by (subst data_macro) (use e assms(2) OK mk in auto)
    have small: "CALLBACK_DATA_AT m j er' (at_one k e) (loc c' 0 n x mk' q') K' =
        K' (loc c' 0 n x None (flushed m (take j [input e ! k]) x q'))"
      by (subst data_macro) (use e assms(2) OK mk in auto)
    show ?thesis unfolding big small
      by (rule cont [OF flushed_sim [OF T e(2) assms(2)]])
  qed
qed

lemmas osim_data0 = osim_data [where j = 0, simplified]
lemmas osim_data1 = osim_data [where j = "Suc 0", simplified]

lemma osim_notify:
  assumes "ready e k n" and "cb st \<in> set (notify_cbs st)" and T: "tsim e k None q mk' q'"
    and cont: "\<And>q1 q1'. tsim e k None q1 None q1' \<Longrightarrow> hp_upgrade q1 = hp_upgrade q \<Longrightarrow> osim e k (K (loc c k n x None q1)) (K' (loc c' 0 n x None q1'))"
  shows "osim e k (CALLBACK_NOTIFY_AT cb er R e (loc c k n x None q) K)
    (CALLBACK_NOTIFY_AT cb er R' (at_one k e) (loc c' 0 n x mk' q') K')"
proof -
  from T have mk': "mk' = None" by (simp add: tsim_None)
  have OK: "hp_http_errno q = HPE_OK" "hp_http_errno q' = HPE_OK"
    using tsim_errno [OF T] tsim_sel(10) [OF T] by simp_all
  have big: "CALLBACK_NOTIFY_AT cb er R e (loc c k n x None q) K = K (loc c k n x None (notified cb x q))"
    by (rule notify_macro) (use readyD(1) [OF assms(1)] assms(2) OK in simp_all)
  have small: "CALLBACK_NOTIFY_AT cb er R' (at_one k e) (loc c' 0 n x mk' q') K' =
      K' (loc c' 0 n x None (notified cb x q'))"
    unfolding mk' by (rule notify_macro) (use readyD(1) [OF assms(1)] assms(2) OK in simp_all)
  have "hp_upgrade (notified cb x q) = hp_upgrade q"
    using assms(2) by (rule notified_cases [where cb = cb]) simp_all
  then show ?thesis unfolding big small
    by (intro cont) (use notified_sim [where cb = cb, OF T assms(2)] mk' in simp)
qed

lemma osim_assert:
  "(b \<Longrightarrow> osim e k x x') \<Longrightarrow> b' = b \<Longrightarrow> osim e k (assert_that b x) (assert_that b' x')"
  by (simp add: assert_that_def)

section \<open>The cases of the switch\<close>

lemma tsim_fail [simp]:
  assumes "tsim e k mk q mk' q'" and "er \<noteq> HPE_OK"
  shows "osim e k (fail er (loc c k n x mk q)) (fail er (loc c' 0 n' x mk' q'))"
  using osim_fail [OF tsim_psim [OF assms(1)] assms(2)] .

lemmas sim_defs = UPDATE_STATE_def Let_def CALLBACK_NOTIFY_def CALLBACK_NOTIFY_NOADVANCE_def CALLBACK_DATA_def
  CALLBACK_DATA_NOADVANCE_def STRICT_CHECK_def boundary_states_def url_mark_states_def mark_states_def

lemma lsim_ready [simp]:
  "ready e k n \<Longrightarrow> mark_ok x mk \<Longrightarrow> tsim e k mk q mk' q' \<Longrightarrow> lsim e k (loc c k n x mk q) (loc c' 0 n x mk' q')"
  using lsim_loc readyD(3) by blast

lemma sim_plain:
  assumes "ready e k n" and T: "tsim e k None q mk' q'"
  shows "osim e k (exec_dead e (loc c k n s_dead None q)) (exec_dead (at_one k e) (loc c 0 n s_dead mk' q'))"
    and "osim e k (exec_res_or_resp_H e (loc c k n x None q)) (exec_res_or_resp_H (at_one k e) (loc c 0 n x mk' q'))"
    and "y \<notin> url_mark_states \<union> {s_header_field, s_header_value, s_res_status} \<Longrightarrow>
      osim e k (expect d y (loc c k n x None q)) (expect d y (loc c 0 n x mk' q'))"
  using assms tsim_sel [OF T]
  by (simp_all add: step_defs sim_defs mark_ok_None)

lemma sim_digits:
  assumes "ready e k n" and T: "tsim e k None q mk' q'"
    and "y \<in> {s_res_http_dot, s_res_http_minor, s_res_http_end, s_req_http_dot, s_req_http_minor, s_req_http_end}"
  shows "osim e k (exec_http_major y (loc c k n x None q)) (exec_http_major y (loc c 0 n x mk' q'))"
    and "osim e k (exec_http_minor y (loc c k n x None q)) (exec_http_minor y (loc c 0 n x mk' q'))"
    and "osim e k (exec_http_dot y (loc c k n x None q)) (exec_http_dot y (loc c 0 n x mk' q'))"
  using assms tsim_sel [OF T]
  by (auto simp: step_defs sim_defs mark_ok_None)

lemma sim_res_http_end:
  assumes "ready e k n" and T: "tsim e k None q mk' q'"
  shows "osim e k (exec_res_http_end e (loc c k n s_res_http_end None q)) (exec_res_http_end (at_one k e) (loc c 0 n s_res_http_end mk' q'))"
  using assms tsim_sel [OF T]
  by (simp add: step_defs sim_defs mark_ok_None)

lemma sim_res_first_status_code:
  assumes "ready e k n" and T: "tsim e k None q mk' q'"
  shows "osim e k (exec_res_first_status_code e (loc c k n s_res_first_status_code None q)) (exec_res_first_status_code (at_one k e) (loc c 0 n s_res_first_status_code mk' q'))"
  using assms tsim_sel [OF T]
  by (simp add: step_defs sim_defs mark_ok_None)

lemma sim_req_http_start:
  assumes "ready e k n" and T: "tsim e k None q mk' q'"
  shows "osim e k (exec_req_http_start e (loc c k n s_req_http_start None q)) (exec_req_http_start (at_one k e) (loc c 0 n s_req_http_start mk' q'))"
  using assms tsim_sel [OF T]
  by (simp add: step_defs sim_defs mark_ok_None)

lemma sim_req_http_end:
  assumes "ready e k n" and T: "tsim e k None q mk' q'"
  shows "osim e k (exec_req_http_end e (loc c k n s_req_http_end None q)) (exec_req_http_end (at_one k e) (loc c 0 n s_req_http_end mk' q'))"
  using assms tsim_sel [OF T]
  by (simp add: step_defs sim_defs mark_ok_None)

lemma sim_req_line_almost_done:
  assumes "ready e k n" and T: "tsim e k None q mk' q'"
  shows "osim e k (exec_req_line_almost_done e (loc c k n s_req_line_almost_done None q)) (exec_req_line_almost_done (at_one k e) (loc c 0 n s_req_line_almost_done mk' q'))"
  using assms tsim_sel [OF T]
  by (simp add: step_defs sim_defs mark_ok_None)

lemma sim_header_almost_done:
  assumes "ready e k n" and T: "tsim e k None q mk' q'"
  shows "osim e k (exec_header_almost_done e (loc c k n s_header_almost_done None q)) (exec_header_almost_done (at_one k e) (loc c 0 n s_header_almost_done mk' q'))"
  using assms tsim_sel [OF T]
  by (simp add: step_defs sim_defs mark_ok_None)

lemma sim_res_status_code:
  assumes "ready e k n" and T: "tsim e k None q mk' q'"
  shows "osim e k (exec_res_status_code e (loc c k n s_res_status_code None q)) (exec_res_status_code (at_one k e) (loc c 0 n s_res_status_code mk' q'))"
  using assms tsim_sel [OF T]
  by (simp add: step_defs sim_defs mark_ok_None)

lemma sim_res_status_start:
  assumes "ready e k n" and T: "tsim e k None q mk' q'"
  shows "osim e k (exec_res_status_start e (loc c k n s_res_status_start None q)) (exec_res_status_start (at_one k e) (loc c 0 n s_res_status_start mk' q'))"
  using assms tsim_mark [OF T] tsim_sel [OF T]
  by (simp add: tsim_None step_defs sim_defs)

lemma sim_res_status:
  assumes "ready e k n" and T: "tsim e k (Some (M_status, A)) q mk' q'"
  shows "osim e k (exec_res_status e (loc c k n s_res_status (Some (M_status, A)) q)) (exec_res_status (at_one k e) (loc c 0 n s_res_status mk' q'))"
  using assms tsim_sel [OF T]
  by (auto simp: step_defs sim_defs intro!: osim_data1 osim_data0)

lemma sim_start_req_or_res:
  assumes "ready e k n" and T: "tsim e k None q mk' q'"
  shows "osim e k (exec_start_req_or_res e (loc c k n s_start_req_or_res None q)) (exec_start_req_or_res (at_one k e) (loc c 0 n s_start_req_or_res mk' q'))"
  using assms tsim_sel [OF T]
  by (auto simp: step_defs sim_defs notify_cbs_def intro!: osim_notify)

lemma sim_start_res:
  assumes "ready e k n" and T: "tsim e k None q mk' q'"
  shows "osim e k (exec_start_res e (loc c k n s_start_res None q)) (exec_start_res (at_one k e) (loc c 0 n s_start_res mk' q'))"
  using assms tsim_sel [OF T]
  by (auto simp: step_defs sim_defs notify_cbs_def intro!: osim_notify)

lemma sim_start_req:
  assumes "ready e k n" and T: "tsim e k None q mk' q'"
  shows "osim e k (exec_start_req e (loc c k n s_start_req None q)) (exec_start_req (at_one k e) (loc c 0 n s_start_req mk' q'))"
  using assms tsim_sel [OF T]
  by (auto simp: step_defs sim_defs notify_cbs_def split: option.split intro!: osim_notify)

lemma sim_req_method:
  assumes "ready e k n" and T: "tsim e k None q mk' q'"
  shows "osim e k (exec_req_method e (loc c k n s_req_method None q)) (exec_req_method (at_one k e) (loc c 0 n s_req_method mk' q'))"
  using assms tsim_sel [OF T]
  by (auto simp: exec_req_method_def sim_defs mark_ok_None split: sum.split option.split)

lemma url_states_plain:
  "parse_url_char x ch \<noteq> s_dead \<Longrightarrow> parse_url_char x ch \<in> url_mark_states"
  using parse_url_char_states [of x ch] by simp

lemma sim_url_step:
  assumes "ready e k n" and T: "tsim e k (Some (M_url, A)) q mk' q'"
  shows "osim e k (url_step (loc c k n x (Some (M_url, A)) q)) (url_step (loc c 0 n x mk' q'))"
  using assms url_states_plain [of x c]
  by (simp add: url_step_def UPDATE_STATE_def Let_def mark_states_def)

lemma sim_req_spaces_before_url:
  assumes "ready e k n" and T: "tsim e k None q mk' q'"
  shows "osim e k (exec_req_spaces_before_url e (loc c k n s_req_spaces_before_url None q)) (exec_req_spaces_before_url (at_one k e) (loc c 0 n s_req_spaces_before_url mk' q'))"
  using assms tsim_mark [OF T] tsim_sel [OF T]
  by (simp add: tsim_None exec_req_spaces_before_url_def UPDATE_STATE_def Let_def sim_url_step mark_ok_None url_mark_states_def)

lemma sim_req_schema:
  assumes "ready e k n" and T: "tsim e k (Some (M_url, A)) q mk' q'"
  shows "osim e k (exec_req_schema e (loc c k n x (Some (M_url, A)) q)) (exec_req_schema (at_one k e) (loc c 0 n x mk' q'))"
  using assms by (simp add: exec_req_schema_def sim_url_step)

lemma sim_req_url:
  assumes "ready e k n" and T: "tsim e k (Some (M_url, A)) q mk' q'"
  shows "osim e k (exec_req_url e (loc c k n x (Some (M_url, A)) q)) (exec_req_url (at_one k e) (loc c 0 n x mk' q'))"
  using assms
  by (auto simp: exec_req_url_def UPDATE_STATE_def CALLBACK_DATA_def mark_ok_None url_mark_states_def
      intro!: osim_data1 osim_data0 sim_url_step)

lemma sim_header_field_start:
  assumes "ready e k n" and T: "tsim e k None q mk' q'"
  shows "osim e k (exec_header_field_start e (loc c k n s_header_field_start None q)) (exec_header_field_start (at_one k e) (loc c 0 n s_header_field_start mk' q'))"
  using assms tsim_mark [OF T]
  by (simp add: tsim_None exec_header_field_start_def sim_defs mark_ok_None)

lemma sim_header_value_start:
  assumes "ready e k n" and T: "tsim e k None q mk' q'"
  shows "osim e k (exec_header_value_start e (loc c k n x None q)) (exec_header_value_start (at_one k e) (loc c 0 n x mk' q'))"
  using assms tsim_mark [OF T] tsim_sel [OF T]
  by (cases "hp_header_state q")
    (simp_all add: tsim_None exec_header_value_start_def sim_defs set_flag_def set_header_state_def)

lemma sim_header_value_discard_ws:
  assumes "ready e k n" and T: "tsim e k None q mk' q'"
  shows "osim e k (exec_header_value_discard_ws e (loc c k n s_header_value_discard_ws None q)) (exec_header_value_discard_ws (at_one k e) (loc c 0 n s_header_value_discard_ws mk' q'))"
  using assms sim_header_value_start [OF assms]
  by (simp add: exec_header_value_discard_ws_def UPDATE_STATE_def mark_ok_None url_mark_states_def)

definition finished :: "'u http_parser \<Rightarrow> 'u http_parser" where
  "finished q = parser (finish_header (loc NUL 0 0 s_dead None q))"

lemma finish_header_loc: "finish_header (loc c p n x mk q) = loc c p n x mk (finished q)"
  by (simp add: finished_def finish_header_def set_flag_def split: header_states.split)

lemma finished_sim:
  assumes T: "tsim e k None q mk' q'"
  shows "tsim e k None (finished q) mk' (finished q')"
  using assms tsim_sel [OF T]
  by (simp add: finished_def finish_header_def set_flag_def split: header_states.split)

lemma sim_header_value_lws:
  assumes "ready e k n" and T: "tsim e k None q mk' q'"
  shows "osim e k (exec_header_value_lws e (loc c k n s_header_value_lws None q)) (exec_header_value_lws (at_one k e) (loc c 0 n s_header_value_lws mk' q'))"
  using assms tsim_sel [OF T] finished_sim [OF T]
  by (simp add: exec_header_value_lws_def sim_defs set_header_state_def finish_header_loc mark_ok_None)

lemma sim_header_value_discard_lws:
  assumes "ready e k n" and T: "tsim e k None q mk' q'"
  shows "osim e k (exec_header_value_discard_lws e (loc c k n s_header_value_discard_lws None q)) (exec_header_value_discard_lws (at_one k e) (loc c 0 n s_header_value_discard_lws mk' q'))"
proof -
  have mk': "mk' = None" using T by (simp add: tsim_None)
  note F = finished_sim [OF T, unfolded mk']
  show ?thesis
    using assms(1) T [unfolded mk'] tsim_sel [OF T] tsim_mark [OF F, of M_header_value] unfolding mk'
    by (auto simp: exec_header_value_discard_lws_def sim_defs finish_header_loc mark_ok_None
        intro!: osim_data0)
qed

lemma NEW_MESSAGE_psim: "psim D q q' \<Longrightarrow> NEW_MESSAGE q' = NEW_MESSAGE q"
  using psim_sel [of D q q']
  by (simp add: NEW_MESSAGE_def http_should_keep_alive_def http_message_needs_eof_def start_state_def)

lemma needs_eof_psim: "psim D q q' \<Longrightarrow> http_message_needs_eof q' = http_message_needs_eof q"
  using psim_sel [of D q q'] by (simp add: http_message_needs_eof_def)

lemma sim_new_message:
  assumes "ready e k n" and T: "tsim e k None q mk' q'"
    and "\<And>x q1 q1'. tsim e k None q1 None q1' \<Longrightarrow> mark_ok x None \<Longrightarrow> hp_upgrade q1 = hp_upgrade q \<Longrightarrow>
      osim e k (K (loc c k n x None q1)) (K' (loc c 0 n x None q1'))"
  shows "osim e k (new_message e (loc c k n x None q) K) (new_message (at_one k e) (loc c 0 n x mk' q') K')"
  using assms NEW_MESSAGE_psim [OF tsim_psim [OF T]]
  by (simp add: new_message_def UPDATE_STATE_def CALLBACK_NOTIFY_def osim_notify notify_cbs_def)

lemma sim_message_done:
  assumes "ready e k n" and T: "tsim e k None q mk' q'"
  shows "osim e k (exec_message_done e (loc c k n x None q)) (exec_message_done (at_one k e) (loc c 0 n x mk' q'))"
  unfolding exec_message_done_def using assms
proof (rule sim_new_message)
  fix x q1 q1'
  assume T: "tsim e k None q1 None q1'" and "mark_ok x None"
  then show "osim e k (if hp_upgrade (parser (loc c k n x None q1))
      then RETURN (ex_p (loc c k n x None q1) + 1) (loc c k n x None q1) else Break (loc c k n x None q1))
    (if hp_upgrade (parser (loc c 0 n x None q1'))
      then RETURN (ex_p (loc c 0 n x None q1') + 1) (loc c 0 n x None q1') else Break (loc c 0 n x None q1'))"
    using assms(1) tsim_sel(11) [OF T] by (simp add: tsim_None)
qed

lemma sim_headers_complete:
  assumes "ready e k n" and T: "tsim e k None q mk' q'"
  shows "osim e k (headers_complete e (loc c k n s_headers_done None q))
    (headers_complete (at_one k e) (loc c 0 n s_headers_done mk' q'))"
proof (cases "on_headers_complete st")
  case None
  then show ?thesis using assms tsim_errno [OF T] tsim_sel [OF T] readyD(1) [OF assms(1)]
    by (simp add: headers_complete_def boundary_states_def mark_ok_None url_mark_states_def)
next
  case (Some f)
  have "on_headers_complete st \<in> set (notify_cbs st)" by (simp add: notify_cbs_def)
  from this Some obtain g where f: "f = (\<lambda>q. Inr (0, q\<lparr>hp_data := g (hp_data q)\<rparr>))"
    by (rule notify_form)
  have data: "hp_data q' = hp_data q" using tsim_sel(12) [OF T] by (simp add: ahead_def)
  then have "tsim e k None (q\<lparr>hp_data := g (hp_data q)\<rparr>) mk' (q'\<lparr>hp_data := g (hp_data q')\<rparr>)"
    using T psim_same(12) [of "hp_data q" q q' "g (hp_data q)" "g (hp_data q)"]
    by (simp add: tsim_None)
  then show ?thesis using assms(1) Some tsim_errno [OF T] tsim_sel [OF T] readyD(1) [OF assms(1)]
    by (simp add: headers_complete_def f boundary_states_def mark_ok_None url_mark_states_def)
qed

lemma sim_headers_almost_done:
  assumes "ready e k n" and T: "tsim e k None q mk' q'"
  shows "osim e k (exec_headers_almost_done e (loc c k n s_headers_almost_done None q)) (exec_headers_almost_done (at_one k e) (loc c 0 n s_headers_almost_done mk' q'))"
  using assms tsim_sel [OF T]
  by (auto simp: exec_headers_almost_done_def sim_defs sim_headers_complete notify_cbs_def mark_ok_None
    intro!: osim_notify)

lemma reset_nread_loc: "reset_nread (loc c p n x mk q) = loc c p 0 x mk (q\<lparr>hp_nread := 0\<rparr>)"
proof -
  have "(loc c p n x mk q)\<lparr>l_nread := 0\<rparr> = loc c p 0 x mk q"
    using loc_updates(4) [where n' = 0] by simp
  then show ?thesis by (simp add: reset_nread_def)
qed

lemma osim_return_errno:
  assumes "psim D q q'" and "er \<noteq> HPE_OK"
  shows "osim e k (RETURN k (SET_ERRNO er (loc c k n x mk q))) (RETURN 0 (SET_ERRNO er (loc c' 0 n x mk' q')))"
  using assms by (cases q, cases q') (simp add: RETURN_def SET_ERRNO_def same_result_def psim_def)

lemma sim_new_message_Break:
  assumes "ready e k n" and "tsim e k None q mk' q'"
  shows "osim e k (new_message e (loc c k n x None q) Break) (new_message (at_one k e) (loc c 0 n x mk' q') Break)"
  using assms by (rule sim_new_message) (use assms(1) in simp)

lemma sim_new_message_RETURN:
  assumes "ready e k n" and "tsim e k None q mk' q'" and "hp_upgrade q"
  shows "osim e k (new_message e (loc c k n x None q) (\<lambda>s. RETURN (ex_p s + 1) s))
    (new_message (at_one k e) (loc c 0 n x mk' q') (\<lambda>s. RETURN (ex_p s + 1) s))"
  using assms(1,2) by (rule sim_new_message) (use assms in \<open>simp add: tsim_None\<close>)

lemma sim_headers_done:
  assumes "ready e k n" and T: "tsim e k None q mk' q'"
  shows "osim e k (exec_headers_done e (loc c k n s_headers_done None q)) (exec_headers_done (at_one k e) (loc c 0 n s_headers_done mk' q'))"
proof -
  have T0: "tsim e k None (q\<lparr>hp_nread := 0\<rparr>) mk' (q'\<lparr>hp_nread := 0\<rparr>)" using T by simp
  note R = ready_0 [OF assms(1)] and sel = tsim_sel [OF T] needs_eof_psim [OF tsim_psim [OF T0]]
  note new = sim_new_message_Break [OF R T0] sim_new_message_RETURN [OF R T0]
  have break: "osim e k (Break (UPDATE_STATE x (loc c k 0 y None (q\<lparr>hp_nread := 0\<rparr>))))
      (Break (UPDATE_STATE x (loc c 0 0 y mk' (q'\<lparr>hp_nread := 0\<rparr>))))" if "mark_ok x None" for x y
    using T0 R that by (simp add: UPDATE_STATE_def)
  show ?thesis
    unfolding exec_headers_done_def STRICT_CHECK_def Let_def reset_nread_loc
    by (simp only: loc_simps at_one_simps http_parser.select_convs http_parser.update_convs,
        simp add: sel cong: if_cong split del: if_split, intro osim_if)
      (use new break T osim_return_errno [OF tsim_psim [OF T0]] in \<open>simp_all add: url_mark_states_def\<close>)
qed

lemma is_chunked_loc: "is_chunked (loc c p n x mk q) = has_flag (hp_flags q) F_CHUNKED"
  by (simp add: is_chunked_def)

lemma sim_chunk_size_start:
  assumes "ready e k n" and T: "tsim e k None q mk' q'"
  shows "osim e k (exec_chunk_size_start e (loc c k n s_chunk_size_start None q)) (exec_chunk_size_start (at_one k e) (loc c 0 n s_chunk_size_start mk' q'))"
  by (simp add: exec_chunk_size_start_def is_chunked_loc UPDATE_STATE_def Let_def tsim_sel [OF T] cong: if_cong split del: if_split,
      intro osim_assert osim_if)
    (use assms in \<open>simp_all add: mark_ok_None url_mark_states_def\<close>)

lemma sim_chunk_size:
  assumes "ready e k n" and T: "tsim e k None q mk' q'"
  shows "osim e k (exec_chunk_size e (loc c k n s_chunk_size None q)) (exec_chunk_size (at_one k e) (loc c 0 n s_chunk_size mk' q'))"
  by (simp add: exec_chunk_size_def is_chunked_loc UPDATE_STATE_def Let_def tsim_sel [OF T] cong: if_cong split del: if_split,
      intro osim_assert osim_if)
    (use assms in \<open>simp_all add: mark_ok_None url_mark_states_def\<close>)

lemma sim_chunk_parameters:
  assumes "ready e k n" and T: "tsim e k None q mk' q'"
  shows "osim e k (exec_chunk_parameters e (loc c k n s_chunk_parameters None q)) (exec_chunk_parameters (at_one k e) (loc c 0 n s_chunk_parameters mk' q'))"
  using assms tsim_sel [OF T]
  by (auto simp: exec_chunk_parameters_def is_chunked_loc UPDATE_STATE_def mark_ok_None url_mark_states_def
      intro!: osim_assert)

lemma sim_chunk_size_almost_done:
  assumes "ready e k n" and T: "tsim e k None q mk' q'"
  shows "osim e k (exec_chunk_size_almost_done e (loc c k n s_chunk_size_almost_done None q)) (exec_chunk_size_almost_done (at_one k e) (loc c 0 n s_chunk_size_almost_done mk' q'))"
  using assms tsim_sel [OF T] ready_0 [OF assms(1)]
  by (auto simp: exec_chunk_size_almost_done_def is_chunked_loc UPDATE_STATE_def STRICT_CHECK_def Let_def
      CALLBACK_NOTIFY_def reset_nread_loc set_flag_def notify_cbs_def mark_ok_None url_mark_states_def
      intro!: osim_assert osim_notify)

lemma sim_chunk_data_done:
  assumes "ready e k n" and T: "tsim e k None q mk' q'"
  shows "osim e k (exec_chunk_data_done e (loc c k n s_chunk_data_done None q)) (exec_chunk_data_done (at_one k e) (loc c 0 n s_chunk_data_done mk' q'))"
  using assms tsim_sel [OF T] ready_0 [OF assms(1)]
  by (auto simp: exec_chunk_data_done_def is_chunked_loc UPDATE_STATE_def STRICT_CHECK_def
      CALLBACK_NOTIFY_def reset_nread_loc notify_cbs_def mark_ok_None url_mark_states_def
      intro!: osim_assert osim_notify)

section \<open>The switch and its repetition\<close>

lemmas sim_cases = sim_plain sim_digits sim_res_http_end sim_res_first_status_code sim_req_http_start
  sim_req_http_end sim_req_line_almost_done sim_header_almost_done sim_res_status_code
  sim_res_status_start sim_res_status sim_start_req_or_res sim_start_res sim_start_req sim_req_method
  sim_req_spaces_before_url sim_req_schema sim_req_url sim_header_field_start
  sim_header_value_discard_ws sim_header_value_start sim_header_value_lws sim_header_value_discard_lws
  sim_headers_almost_done sim_headers_done sim_message_done sim_chunk_size_start sim_chunk_size
  sim_chunk_parameters sim_chunk_size_almost_done sim_chunk_data_done

lemma mark_ok_cases:
  assumes "mark_ok x mk" and "x \<notin> boundary_states"
  obtains "mk = None" "x \<notin> url_mark_states" "x \<noteq> s_res_status"
  | A where "mk = Some (M_url, A)" "x \<in> url_mark_states" | A where "mk = Some (M_status, A)" "x = s_res_status"
proof (cases mk)
  case None
  then show ?thesis using assms(1) that(1) by (simp add: mark_ok_None)
next
  case (Some a)
  obtain m A where a: "a = (m, A)" by (cases a)
  then have x: "x \<in> mark_states m" using assms(1) Some by simp
  show ?thesis
    by (cases m) (use x Some a assms(2) that in \<open>auto simp: mark_states_def boundary_states_def\<close>)
qed

lemma switch_sim:
  assumes "ready e k n" and T: "tsim e k mk q mk' q'" and "mark_ok x mk" and "x \<notin> boundary_states"
  shows "osim e k (exec_switch e (loc c k n x mk q)) (exec_switch (at_one k e) (loc c 0 n x mk' q'))"
  using assms(3,4)
proof (cases rule: mark_ok_cases)
  case 1
  with assms show ?thesis
    by (cases x) (simp_all add: exec_switch_def sim_cases expect_defs url_mark_states_def boundary_states_def)
next
  case (2 A)
  with assms show ?thesis
    by (auto simp: exec_switch_def sim_cases url_mark_states_def)
next
  case (3 A)
  with assms show ?thesis by (simp add: exec_switch_def sim_cases)
qed

lemma lsim_switch:
  assumes "lsim e k s s'" and "settings e = st" and "k < length (input e)" and "p_state s' \<notin> boundary_states"
    and "ex_ch s = ex_ch s'"
  shows "osim e k (exec_switch e s) (exec_switch (at_one k e) s')"
proof -
  from assms(1) obtain c c' n x mk q mk' q' where s: "s = loc c k n x mk q" "s' = loc c' 0 n x mk' q'"
    and *: "n + (length (input e) - Suc k) \<le> unat (max_header_size e)" "mark_ok x mk" "tsim e k mk q mk' q'"
    unfolding lsim_def by blast
  have "ready e k n" using assms(2,3) *(1) by (simp add: ready_def)
  moreover have "c = c'" "x \<notin> boundary_states" using assms(4,5) s by simp_all
  ultimately show ?thesis using switch_sim [OF _ *(3,2)] s by simp
qed

text \<open>The exits of the repeated switch correspond, when those of the first pass do.\<close>

lemma dispatch_sim:
  assumes "settings e = st" and "k < length (input e)"
    and "osim e k (exec_switch e s) (exec_switch (at_one k e) s')" and "dispatch (at_one k e) s' = Some oc'"
  shows "\<exists>oc. dispatch e s = Some oc \<and> osim e k oc oc'"
proof -
  have "e' = at_one k e \<longrightarrow> (\<forall>s. osim e k (exec_switch e s) (exec_switch e' s') \<longrightarrow>
      (\<exists>oc. dispatch e s = Some oc \<and> osim e k oc oc'))" if "dispatch e' s' = Some oc'" for e' s' oc'
    using _ that
  proof (rule dispatch.raw_induct)
    fix d e' s' oc'
    assume IH: "\<And>e' s' oc'. d e' s' = Some oc' \<Longrightarrow>
        e' = at_one k e \<longrightarrow> (\<forall>s. osim e k (exec_switch e s) (exec_switch e' s') \<longrightarrow>
          (\<exists>oc. dispatch e s = Some oc \<and> osim e k oc oc'))"
      and body: "(case exec_switch e' s' of Break s' \<Rightarrow> Some (Break s') | Reexecute s' \<Rightarrow> d e' s'
         | Return n q \<Rightarrow> Some (Return n q) | Abort r \<Rightarrow> Some (Abort r)) = Some oc'"
    show "e' = at_one k e \<longrightarrow> (\<forall>s. osim e k (exec_switch e s) (exec_switch e' s') \<longrightarrow>
        (\<exists>oc. dispatch e s = Some oc \<and> osim e k oc oc'))"
    proof (intro impI allI)
      fix s
      assume e': "e' = at_one k e" and sim: "osim e k (exec_switch e s) (exec_switch e' s')"
      show "\<exists>oc. dispatch e s = Some oc \<and> osim e k oc oc'"
      proof (cases "exec_switch e' s'")
        case (Reexecute t')
        with sim obtain t where t: "exec_switch e s = Reexecute t" "lsim e k t t'"
          "p_state t' \<notin> boundary_states" "ex_ch t = ex_ch t'" by (auto simp: osim_def)
        have "osim e k (exec_switch e t) (exec_switch e' t')"
          unfolding e' using t(2) assms(1,2) t(3,4) by (rule lsim_switch)
        moreover have "d e' t' = Some oc'" using body Reexecute by simp
        ultimately have "\<exists>oc. dispatch e t = Some oc \<and> osim e k oc oc'" using IH e' by blast
        then show ?thesis using dispatch_Reexecute [OF t(1)] by simp
      next
        case (Break t')
        with sim obtain t where "exec_switch e s = Break t" "lsim e k t t'" by (auto simp: osim_def)
        then show ?thesis using body Break dispatch_Break by fastforce
      next
        case (Return n q')
        with sim obtain q where q: "exec_switch e s = Return (k + n) q" "osim e k (Return (k + n) q) (Return n q')"
          by (auto simp: osim_def)
        then show ?thesis using body Return dispatch_Return [OF q(1)] by auto
      next
        case (Abort a)
        with sim have "exec_switch e s = Abort a" by (simp add: osim_def)
        then have "dispatch e s = Some (Abort a)" by (subst dispatch.simps) simp
        then show ?thesis using body Abort by fastforce
      qed
    qed
  qed
  with assms show ?thesis by blast
qed

end

end
