(* ===== verification/Http_Read_Steps.thy ===== *)
theory Http_Read_Steps
  imports Http_Reads
begin

text \<open>
  The loops inside a byte, over header names and values and over bodies, consume many bytes in
  one pass of the switch; here each is shown to do what passes over the single bytes do.
\<close>

section \<open>One turn of the loop\<close>

definition counted :: "pstate \<Rightarrow> nat \<Rightarrow> nat" where
  "counted x n = (if PARSING_HEADER x then Suc n else n)"

lemma execute_loop_turn:
  assumes "p < length (input e)" and "n + (length (input e) - p) \<le> unat (max_header_size e)"
  shows "execute_loop e (loc c p n x mk q) =
    (case dispatch e (loc (input e ! p) p (counted x n) x mk q) of
       None \<Rightarrow> None
     | Some (Break s) \<Rightarrow> execute_loop e (next_byte s)
     | Some (Reexecute s) \<Rightarrow> None
     | Some (Return n q) \<Rightarrow> Some (Return n q)
     | Some (Abort a) \<Rightarrow> Some (Abort a))"
proof -
  have "begin_byte e (loc c p n x mk q) = Reexecute (loc (input e ! p) p (counted x n) x mk q)"
    using assms count_loc [of n 1 e] by (simp add: begin_byte_def counted_def)
  with assms(1) show ?thesis
    by (subst execute_loop.simps) (simp split: option.split outcome.split)
qed

text \<open>Outside the headers no byte is counted, so no limit is needed.\<close>

lemma execute_loop_turn_uncounted:
  assumes "p < length (input e)" and "\<not> PARSING_HEADER x"
  shows "execute_loop e (loc c p n x mk q) =
    (case dispatch e (loc (input e ! p) p n x mk q) of
       None \<Rightarrow> None
     | Some (Break s) \<Rightarrow> execute_loop e (next_byte s)
     | Some (Reexecute s) \<Rightarrow> None
     | Some (Return n q) \<Rightarrow> Some (Return n q)
     | Some (Abort a) \<Rightarrow> Some (Abort a))"
proof -
  have "begin_byte e (loc c p n x mk q) = Reexecute (loc (input e ! p) p n x mk q)"
    using assms(2) by (simp add: begin_byte_def)
  with assms(1) show ?thesis
    by (subst execute_loop.simps) (simp split: option.split outcome.split)
qed

lemma execute_loop_Break:
  assumes "p < length (input e)" and "n + (length (input e) - p) \<le> unat (max_header_size e)"
    and "exec_switch e (loc (input e ! p) p (counted x n) x mk q) = Break s"
  shows "execute_loop e (loc c p n x mk q) = execute_loop e (next_byte s)"
  using execute_loop_turn [OF assms(1,2), of c x mk q] dispatch_Break [OF assms(3)] by simp

lemma next_byte_loc [simp]: "next_byte (loc c p n x mk q) = loc c (Suc p) n x mk q"
  by (simp add: next_byte_def)

text \<open>The last character read is not looked at between two bytes.\<close>

definition ch_free :: "('u locals \<Rightarrow> 'u outcome) \<Rightarrow> bool" where
  "ch_free K \<longleftrightarrow> (\<forall>s c. K (s\<lparr>ex_ch := c\<rparr>) = K s)"

lemma ch_free_RETURN: "ch_free (RETURN n)"
  by (simp add: ch_free_def RETURN_def)

lemma put_mark_ch: "put_mark m v (s\<lparr>ex_ch := c\<rparr>) = (put_mark m v s)\<lparr>ex_ch := c\<rparr>"
  by (cases m) simp_all

lemma ch_free_after_callback:
  assumes "ch_free K"
  shows "after_callback r q err er (s\<lparr>ex_ch := c\<rparr>) K = after_callback r q err er s K"
proof -
  let ?t = "\<lambda>s. UPDATE_STATE (hp_state q) (if r \<noteq> 0 then SET_ERRNO err (s\<lparr>parser := q\<rparr>) else s\<lparr>parser := q\<rparr>)"
  have t: "?t (s\<lparr>ex_ch := c\<rparr>) = (?t s)\<lparr>ex_ch := c\<rparr>"
    by (cases s) (simp add: UPDATE_STATE_def SET_ERRNO_def)
  have st: "hp_state (parser (if r \<noteq> 0 then SET_ERRNO err (s\<lparr>parser := q\<rparr>) else s\<lparr>parser := q\<rparr>)) = hp_state q" for s :: "'a locals"
    by (simp add: SET_ERRNO_def)
  show ?thesis using assms unfolding after_callback_def Let_def st t by (simp add: ch_free_def)
qed

lemma ch_free_data:
  assumes "ch_free K"
  shows "ch_free (\<lambda>s. CALLBACK_DATA_NOADVANCE m e s K)"
proof -
  have "ch_free (\<lambda>s. K (put_mark m None s))"
    using assms by (simp add: ch_free_def put_mark_ch)
  note after = ch_free_after_callback [OF this]
  show ?thesis unfolding ch_free_def
  proof (intro allI)
    fix s c
    show "CALLBACK_DATA_NOADVANCE m e (s\<lparr>ex_ch := c\<rparr>) K = CALLBACK_DATA_NOADVANCE m e s K"
      using assms
      by (simp add: CALLBACK_DATA_NOADVANCE_def CALLBACK_DATA_AT_def after put_mark_ch ch_free_def
          split: option.split sum.split)
  qed
qed

lemma finish_execute_ch: "finish_execute e (s\<lparr>ex_ch := c\<rparr>) = finish_execute e s"
proof -
  have "ch_free (\<lambda>s. CALLBACK_DATA_NOADVANCE M_header_field e s (\<lambda>s.
        CALLBACK_DATA_NOADVANCE M_header_value e s (\<lambda>s.
        CALLBACK_DATA_NOADVANCE M_url e s (\<lambda>s.
        CALLBACK_DATA_NOADVANCE M_body e s (\<lambda>s.
        CALLBACK_DATA_NOADVANCE M_status e s (RETURN (length (input e))))))))"
    by (intro ch_free_data ch_free_RETURN)
  then show ?thesis by (simp add: finish_execute_def ch_free_def marks_set_def)
qed

lemma execute_loop_ch:
  assumes "p \<le> length (input e)" and "n + (length (input e) - p) \<le> unat (max_header_size e)"
  shows "execute_loop e (loc c p n x mk q) = execute_loop e (loc c' p n x mk q)"
proof (cases "p = length (input e)")
  case True
  have "finish_execute e (loc c p n x mk q) = finish_execute e (loc c' p n x mk q)"
    using finish_execute_ch [where s = "loc c p n x mk q" and c = c' and e = e] by simp
  with True show ?thesis by (subst (1 2) execute_loop.simps) simp
next
  case False
  with assms(1) have "p < length (input e)" by simp
  then show ?thesis by (simp only: execute_loop_turn [OF _ assms(2)])
qed

section \<open>Header names\<close>

lemma scan_limit_all: "length (input e) - p \<le> unat (max_header_size e) \<Longrightarrow> p \<le> length (input e) \<Longrightarrow>
    scan_limit e p = length (input e)"
  by (simp add: scan_limit_def)

lemma header_field_loop_ch: "p < length (input e) \<Longrightarrow> header_field_loop e p c q = header_field_loop e p c' q"
  by (subst (1 2) header_field_loop.simps) simp

text \<open>In \<open>h_general\<close> the scan only saves passes.\<close>

definition upto_ch ::
  "'u env \<Rightarrow> (nat \<times> char \<times> 'u http_parser) checked \<Rightarrow> (nat \<times> char \<times> 'u http_parser) checked \<Rightarrow> bool" where
  "upto_ch e r r' \<longleftrightarrow> r = r' \<or> (\<exists>c c' q. r = Inr (length (input e), c, q) \<and> r' = Inr (length (input e), c', q))"

lemma header_field_char_general [simp]: "hp_header_state q = h_general \<Longrightarrow> header_field_char c ch q = Inr q"
  by (simp add: header_field_char_def)

lemma header_field_loop_end [simp]:
  "header_field_loop e (length (input e)) c q = Inr (length (input e), c, q)"
  by (subst header_field_loop.simps) simp

lemma header_field_loop_step:
  assumes "p < length (input e)" and "length (input e) - p \<le> unat (max_header_size e)"
    and "TOKEN (input e ! p) \<noteq> NUL" and "header_field_char (TOKEN (input e ! p)) (input e ! p) q = Inr q1"
  shows "upto_ch e (header_field_loop e p c q) (header_field_loop e (Suc p) (input e ! p) q1)"
proof (cases "hp_header_state q = h_general \<and> Suc p < length (input e) \<and> TOKEN (input e ! Suc p) \<noteq> NUL")
  case True
  let ?j = "field_scan (input e) (length (input e)) (Suc p)"
  have q1: "q1 = q" using assms(4) True by simp
  have lim: "scan_limit e p = length (input e)" "scan_limit e (Suc p) = length (input e)"
    using scan_limit_all [of e p] scan_limit_all [of e "Suc p"] assms(1,2) by simp_all
  have "field_scan (input e) (length (input e)) p = ?j"
    using True by (subst field_scan.simps) simp
  then have 1: "header_field_loop e p c q = header_field_loop e (Suc ?j) (input e ! p) q"
    using assms(1,3) True lim by (subst header_field_loop.simps) (simp add: Let_def)
  have 2: "header_field_loop e (Suc p) (input e ! p) q = header_field_loop e (Suc ?j) (input e ! Suc p) q"
    using True lim by (subst header_field_loop.simps) (simp add: Let_def)
  have "?j < length (input e)" using True by (simp add: field_scan_less)
  then have "Suc ?j = length (input e) \<or> Suc ?j < length (input e)" by auto
  then show ?thesis
    unfolding 1 2 q1 upto_ch_def using header_field_loop_ch [of "Suc ?j" e] by auto
next
  case False
  then have "field_scan (input e) (scan_limit e p) p = p" if "hp_header_state q = h_general"
    using that scan_limit_all [OF assms(2)] assms(1) by (subst field_scan.simps) auto
  then have "header_field_loop e p c q = header_field_loop e (Suc p) (input e ! p) q1"
    using assms(1,3,4) by (subst header_field_loop.simps) (simp add: Let_def)
  then show ?thesis by (simp add: upto_ch_def)
qed

lemma field_scan_bound: "p < length (input e) \<Longrightarrow> field_scan (input e) (scan_limit e p) p < length (input e)"
proof (cases "p < scan_limit e p")
  case True
  assume "p < length (input e)"
  with field_scan_less [OF True, of "input e"] scan_limit_bounds [of p e] show ?thesis by simp
next
  case False
  assume "p < length (input e)"
  with False show ?thesis by (subst field_scan.simps) simp
qed

lemma header_field_loop_range:
  "header_field_loop e p c q = Inr (p', c', q') \<Longrightarrow> p \<le> length (input e) \<Longrightarrow> p \<le> p' \<and> p' \<le> length (input e)"
proof (induction e p c q rule: header_field_loop.induct)
  case (1 e p c q)
  let ?j = "if hp_header_state q = h_general then field_scan (input e) (scan_limit e p) p else p"
  show ?case
  proof (cases "p < length (input e) \<and> TOKEN (input e ! p) \<noteq> NUL")
    case False
    with "1.prems" show ?thesis by (subst (asm) header_field_loop.simps) (auto simp: Let_def split: if_splits)
  next
    case True
    then obtain q1 where q1: "header_field_char (TOKEN (input e ! p)) (input e ! p) q = Inr q1"
      "header_field_loop e (Suc ?j) (input e ! p) q1 = Inr (p', c', q')"
      using "1.prems"(1) by (subst (asm) header_field_loop.simps) (auto simp: Let_def split: sum.splits)
    have "p \<le> ?j" "Suc ?j \<le> length (input e)"
      using True field_scan_ge field_scan_bound [of p e] by auto
    moreover from this(2) have "Suc ?j \<le> p' \<and> p' \<le> length (input e)"
      using "1.IH" [OF _ refl refl _ q1(1) q1(2)] True by simp
    ultimately show ?thesis by simp
  qed
qed

text \<open>How the case of the switch ends, when the loop has stopped.\<close>

definition field_exit ::
  "'u env \<Rightarrow> nat \<Rightarrow> nat \<Rightarrow> (mark \<times> nat) option \<Rightarrow> (nat \<times> char \<times> 'u http_parser) checked \<Rightarrow> 'u outcome" where
  "field_exit e p n mk r =
     (case r of Inl a \<Rightarrow> Abort a
      | Inr (p', c, q) \<Rightarrow>
          if p' = length (input e) then Break (loc c (p' - 1) (n + (p' - 1 - p)) s_header_field mk q)
          else if c = CHR '':''
          then CALLBACK_DATA M_header_field e (loc c p' (n + (p' - p)) s_header_value_discard_ws mk q) Break
          else fail HPE_INVALID_HEADER_TOKEN (loc c p' (n + (p' - p)) s_header_field mk q))"

lemma exec_header_field_exit:
  assumes "p < length (input e)" and "n + (length (input e) - Suc p) \<le> unat (max_header_size e)"
  shows "exec_switch e (loc c p n s_header_field mk q) = field_exit e p n mk (header_field_loop e p c q)"
proof (cases "header_field_loop e p c q")
  case (Inl a)
  then show ?thesis by (simp add: exec_switch_def exec_header_field_def field_exit_def)
next
  case (Inr r)
  obtain p' c' q' where r: "r = (p', c', q')" by (cases r)
  have "p \<le> p' \<and> p' \<le> length (input e)" using header_field_loop_range Inr r assms(1) by fastforce
  then have "n + (p' - 1 - p) \<le> unat (max_header_size e)"
    "p' \<noteq> length (input e) \<Longrightarrow> n + (p' - p) \<le> unat (max_header_size e)"
    using assms by auto
  then show ?thesis using Inr r
    by (simp add: exec_switch_def exec_header_field_def field_exit_def UPDATE_STATE_def)
qed

lemma field_exit_move:
  assumes "Suc p < length (input e)" and "\<And>p' c q. r = Inr (p', c, q) \<Longrightarrow> Suc p \<le> p'"
  shows "field_exit e (Suc p) (Suc n) mk r = field_exit e p n mk r"
proof (cases r)
  case (Inr a)
  obtain p' c q where a: "a = (p', c, q)" by (cases a)
  with Inr assms(2) have "Suc p \<le> p'" by simp
  then have "n + (p' - p) = Suc n + (p' - Suc p)" "p' = length (input e) \<Longrightarrow> n + (p' - 1 - p) = Suc n + (p' - 1 - Suc p)"
    using assms(1) by auto
  then show ?thesis using Inr a by (simp add: field_exit_def)
qed (simp add: field_exit_def)

lemma dispatch_cong: "exec_switch e s = exec_switch e s' \<Longrightarrow> dispatch e s = dispatch e s'"
  by (subst (1 2) dispatch.simps) simp

lemma execute_loop_cong:
  assumes "p < length (input e)" "n + (length (input e) - p) \<le> unat (max_header_size e)"
    and "p' < length (input e)" "n' + (length (input e) - p') \<le> unat (max_header_size e)"
    and "exec_switch e (loc (input e ! p) p (counted x n) x mk q) =
      exec_switch e (loc (input e ! p') p' (counted x' n') x' mk' q')"
  shows "execute_loop e (loc c p n x mk q) = execute_loop e (loc c' p' n' x' mk' q')"
  using execute_loop_turn [OF assms(1,2)] execute_loop_turn [OF assms(3,4)] dispatch_cong [OF assms(5)] by simp

text \<open>A byte of a name, on its own.\<close>

lemma counted_field [simp]: "counted s_header_field n = Suc n" "counted s_header_value n = Suc n"
  by (simp_all add: counted_def PARSING_HEADER_num)

lemma execute_loop_field:
  assumes "p < length (input e)" and "n + (length (input e) - p) \<le> unat (max_header_size e)"
    and "TOKEN (input e ! p) \<noteq> NUL" and "header_field_char (TOKEN (input e ! p)) (input e ! p) q = Inr q1"
  shows "execute_loop e (loc c p n s_header_field mk q) = execute_loop e (loc c' (Suc p) (Suc n) s_header_field mk q1)"
proof -
  let ?ch = "input e ! p" and ?N = "length (input e)"
  let ?r = "header_field_loop e p ?ch q" and ?r1 = "header_field_loop e (Suc p) ?ch q1"
  have left: "?N - p \<le> unat (max_header_size e)" using assms(2) by simp
  have step: "upto_ch e ?r ?r1" by (rule header_field_loop_step [OF assms(1) left assms(3,4)])
  have sw: "exec_switch e (loc ?ch p (Suc n) s_header_field mk q) = field_exit e p (Suc n) mk ?r"
    by (rule exec_header_field_exit) (use assms in auto)
  have ends: "execute_loop e (loc c p n s_header_field mk q) = execute_loop e (loc d ?N (n + (?N - p)) s_header_field mk q2)"
    if "?r = Inr (?N, d, q2)" for d q2
  proof -
    have "field_exit e p (Suc n) mk ?r = Break (loc d (?N - 1) (n + (?N - p)) s_header_field mk q2)"
      using that assms(1) Suc_diff_Suc [of p "n + ?N"] by (simp add: field_exit_def)
    moreover have "Suc (?N - 1) = ?N" using assms(1) by simp
    ultimately show ?thesis using sw execute_loop_Break [OF assms(1,2), of s_header_field mk q _ c] by simp
  qed
  show ?thesis
  proof (cases "Suc p = ?N")
    case True
    then have r1: "?r1 = Inr (?N, ?ch, q1)" by simp
    with step obtain d where "?r = Inr (?N, d, q1)" by (auto simp: upto_ch_def)
    from ends [OF this] True [symmetric] show ?thesis
      using execute_loop_ch [of ?N e "Suc n" d s_header_field mk q1 c'] assms(2) by simp
  next
    case False
    with assms(1) have p: "Suc p < ?N" by simp
    have left': "Suc n + (?N - Suc p) \<le> unat (max_header_size e)" using assms(2) p by simp
    let ?ch1 = "input e ! Suc p"
    have r1: "header_field_loop e (Suc p) ?ch1 q1 = ?r1" using p by (rule header_field_loop_ch)
    have sw1: "exec_switch e (loc ?ch1 (Suc p) (Suc (Suc n)) s_header_field mk q1) = field_exit e (Suc p) (Suc (Suc n)) mk ?r1"
      using exec_header_field_exit [OF p, of "Suc (Suc n)" ?ch1 mk q1] left' p r1 by simp
    also have "\<dots> = field_exit e p (Suc n) mk ?r1"
      by (rule field_exit_move [OF p]) (use header_field_loop_range p in fastforce)
    finally have sw1: "exec_switch e (loc ?ch1 (Suc p) (Suc (Suc n)) s_header_field mk q1) = field_exit e p (Suc n) mk ?r1" .
    from step consider "?r = ?r1" | d d' q2 where "?r = Inr (?N, d, q2)" "?r1 = Inr (?N, d', q2)"
      by (auto simp: upto_ch_def)
    then show ?thesis
    proof cases
      case 1
      then show ?thesis using sw sw1 by (intro execute_loop_cong [OF assms(1,2) p left']) simp
    next
      case 2
      have "field_exit e p (Suc n) mk ?r1 = Break (loc d' (?N - 1) (n + (?N - p)) s_header_field mk q2)"
        using 2(2) p Suc_diff_Suc [of p "n + ?N"] by (simp add: field_exit_def)
      moreover have "Suc (?N - 1) = ?N" using assms(1) by simp
      ultimately have "execute_loop e (loc c' (Suc p) (Suc n) s_header_field mk q1) = execute_loop e (loc d' ?N (n + (?N - p)) s_header_field mk q2)"
        using sw1 execute_loop_Break [OF p left', of s_header_field mk q1 _ c'] by simp
      with ends [OF 2(1)] execute_loop_ch [of ?N e "n + (?N - p)" d s_header_field mk q2 d'] assms(2)
      show ?thesis by simp
    qed
  qed
qed

section \<open>Header values\<close>

text \<open>
  The loop keeps the header state in a local variable; the field of the object is written when
  the loop ends, so that it may differ on the way and after an error.
\<close>

definition hv_upto :: "'u hv_exit \<Rightarrow> 'u hv_exit \<Rightarrow> bool" where
  "hv_upto r r' \<longleftrightarrow>
     (case r of
        HV_end p h q \<Rightarrow> \<exists>x. r' = HV_end p h (q\<lparr>hp_header_state := x\<rparr>)
      | HV_CR p h q \<Rightarrow> \<exists>x. r' = HV_CR p h (q\<lparr>hp_header_state := x\<rparr>)
      | HV_LF p h q \<Rightarrow> \<exists>x. r' = HV_LF p h (q\<lparr>hp_header_state := x\<rparr>)
      | HV_fail p er q \<Rightarrow> er \<noteq> HPE_OK \<and> (\<exists>x. r' = HV_fail p er (q\<lparr>hp_header_state := x\<rparr>))
      | HV_abort a \<Rightarrow> r' = HV_abort a)"

definition hv_step_upto :: "header_states \<Rightarrow> 'u hv_step \<Rightarrow> 'u hv_step \<Rightarrow> bool" where
  "hv_step_upto x r r' \<longleftrightarrow>
     (case r of
        HV_go h q \<Rightarrow> r' = HV_go h (q\<lparr>hp_header_state := x\<rparr>)
      | HV_bad er h \<Rightarrow> r' = r \<and> er \<noteq> HPE_OK
      | _ \<Rightarrow> r' = r)"

lemma match_value_upto: "hv_step_upto x (match_value str h t w c q) (match_value str h t w c (q\<lparr>hp_header_state := x\<rparr>))"
  by (cases "match_word str c (unat (hp_index q + 1))")
    (auto simp: match_value_def hv_step_upto_def Let_def split: word_match.split)

lemma content_length_digit_upto:
  "hv_step_upto x (content_length_digit ch q) (content_length_digit ch (q\<lparr>hp_header_state := x\<rparr>))"
  by (simp add: content_length_digit_def hv_step_upto_def Let_def)

lemma header_value_char_upto:
  "hv_step_upto x (header_value_char ch h q) (header_value_char ch h (q\<lparr>hp_header_state := x\<rparr>))"
  using match_value_upto content_length_digit_upto [of x ch q]
  by (cases h) (simp_all add: header_value_char_def Let_def hv_step_upto_def)

text \<open>The bytes a value can consist of, and the passes of the loop.\<close>

definition value_byte :: "'u env \<Rightarrow> char \<Rightarrow> bool" where
  "value_byte e ch \<longleftrightarrow> ch \<noteq> CR \<and> ch \<noteq> LF \<and> (lenient e \<or> IS_HEADER_CHAR ch)"

lemma header_value_loop_scan:
  assumes "p < length (input e)" and "value_byte e (input e ! p)"
  shows "header_value_loop e p h_general q =
    (case value_scan (lenient e) (input e) (scan_limit e p) p of
       Inl p' \<Rightarrow> HV_fail p' HPE_INVALID_HEADER_TOKEN q
     | Inr p' \<Rightarrow> header_value_loop e (Suc (if p' = length (input e) then p' - 1 else p')) h_general q)"
  using assms by (subst header_value_loop.simps) (auto simp: Let_def value_byte_def)

lemma header_value_loop_char:
  assumes "p < length (input e)" and "value_byte e (input e ! p)" and "h \<noteq> h_general"
  shows "header_value_loop e p h q =
    (case header_value_char (input e ! p) h q of
       HV_go h' q' \<Rightarrow> header_value_loop e (Suc p) h' q'
     | HV_bad err h' \<Rightarrow> HV_fail p err (q\<lparr>hp_header_state := h'\<rparr>)
     | HV_assert \<Rightarrow> HV_abort Assertion
     | HV_bounds \<Rightarrow> HV_abort Out_of_bounds)"
  using assms by (subst header_value_loop.simps) (auto simp: Let_def value_byte_def)

lemma header_value_loop_stop:
  assumes "p < length (input e)" and "\<not> value_byte e (input e ! p)"
  shows "header_value_loop e p h q =
    (if input e ! p = CR then HV_CR p h q else if input e ! p = LF then HV_LF p h q
     else HV_fail p HPE_INVALID_HEADER_TOKEN q)"
  using assms by (subst header_value_loop.simps) (auto simp: Let_def value_byte_def)

lemma header_value_loop_end [simp]:
  "header_value_loop e (length (input e)) h q = HV_end (length (input e)) h q"
  by (subst header_value_loop.simps) simp

lemma header_value_loop_beyond [simp]:
  "length (input e) < p \<Longrightarrow> header_value_loop e p h q = HV_abort Out_of_bounds"
  by (subst header_value_loop.simps) simp

text \<open>Induction over the passes of the loop.\<close>

lemma header_value_loop_cases:
  obtains (beyond) "length (input e) < p" | (fin) "p = length (input e)"
  | (stop) "p < length (input e)" "\<not> value_byte e (input e ! p)"
  | (scan) "p < length (input e)" "value_byte e (input e ! p)" "h = h_general"
  | (char) "p < length (input e)" "value_byte e (input e ! p)" "h \<noteq> h_general"
  using linorder_less_linear by blast

lemma header_value_loop_upto: "hv_upto (header_value_loop e p h q) (header_value_loop e p h (q\<lparr>hp_header_state := x\<rparr>))"
proof (induction e p h q rule: header_value_loop.induct)
  case (1 e p h q)
  show ?case
  proof (cases rule: header_value_loop_cases [where e = e and p = p and h = h])
    case beyond
    then show ?thesis by (simp add: hv_upto_def)
  next
    case fin
    then show ?thesis by (auto simp: hv_upto_def)
  next
    case stop
    then show ?thesis by (auto simp: header_value_loop_stop hv_upto_def)
  next
    case scan
    have byte: "input e ! p \<noteq> CR" "input e ! p \<noteq> LF" "\<not> (\<not> lenient e \<and> \<not> IS_HEADER_CHAR (input e ! p))"
      using scan(2) by (auto simp: value_byte_def)
    show ?thesis
    proof (cases "value_scan (lenient e) (input e) (scan_limit e p) p")
      case (Inl p')
      with scan show ?thesis by (auto simp: header_value_loop_scan hv_upto_def)
    next
      case (Inr p')
      with "1.IH"(1) [OF scan(1) refl byte scan(3) Inr] scan show ?thesis
        unfolding scan(3) header_value_loop_scan [OF scan(1,2)] by simp
    qed
  next
    case char
    have byte: "input e ! p \<noteq> CR" "input e ! p \<noteq> LF" "\<not> (\<not> lenient e \<and> \<not> IS_HEADER_CHAR (input e ! p))"
      using char(2) by (auto simp: value_byte_def)
    note U = header_value_char_upto [of x "input e ! p" h q]
    show ?thesis
    proof (cases "header_value_char (input e ! p) h q")
      case (HV_go h' q')
      with "1.IH"(2) [OF char(1) refl byte char(3) HV_go] U show ?thesis
        unfolding header_value_loop_char [OF char] by (simp add: hv_step_upto_def)
    next
      case (HV_bad er h')
      with U show ?thesis
        unfolding header_value_loop_char [OF char] by (auto simp: hv_step_upto_def hv_upto_def)
    qed (use U in \<open>auto simp: header_value_loop_char [OF char] hv_step_upto_def hv_upto_def\<close>)
  qed
qed

lemma header_value_char_general [simp]: "header_value_char ch h_general q = HV_go h_general q"
  by (simp add: header_value_char_def Let_def)

lemma value_scan_end [simp]: "value_scan l d p p = Inr p"
  by (subst value_scan.simps) simp

lemma header_value_loop_step:
  assumes "p < length (input e)" and "length (input e) - p \<le> unat (max_header_size e)"
    and "value_byte e (input e ! p)" and "header_value_char (input e ! p) h q = HV_go h' q1"
  shows "header_value_loop e p h q = header_value_loop e (Suc p) h' q1"
proof (cases "h = h_general")
  case False
  with assms show ?thesis by (simp add: header_value_loop_char)
next
  case True
  let ?N = "length (input e)"
  have q1: "h' = h_general" "q1 = q" using assms(4) True by simp_all
  have lim: "scan_limit e p = ?N" "Suc p \<le> ?N \<Longrightarrow> scan_limit e (Suc p) = ?N"
    using scan_limit_all [of e p] scan_limit_all [of e "Suc p"] assms(1,2) by simp_all
  have scan: "value_scan (lenient e) (input e) ?N p = value_scan (lenient e) (input e) ?N (Suc p)"
    using assms(1,3) by (subst value_scan.simps) (auto simp: Let_def value_byte_def)
  have big: "header_value_loop e p h q = (case value_scan (lenient e) (input e) ?N (Suc p) of
      Inl p' \<Rightarrow> HV_fail p' HPE_INVALID_HEADER_TOKEN q
    | Inr p' \<Rightarrow> header_value_loop e (Suc (if p' = ?N then p' - 1 else p')) h_general q)"
    unfolding True header_value_loop_scan [OF assms(1,3)] lim(1) scan ..
  show ?thesis
  proof (cases "Suc p = ?N")
    case True
    then have "value_scan (lenient e) (input e) ?N (Suc p) = Inr ?N" by simp
    moreover have "Suc (?N - 1) = ?N" using assms(1) by simp
    ultimately show ?thesis using big True q1 \<open>h = h_general\<close> by simp
  next
    case False
    with assms(1) have p: "Suc p < ?N" by simp
    show ?thesis
    proof (cases "value_byte e (input e ! Suc p)")
      case True
      then have "header_value_loop e (Suc p) h_general q = (case value_scan (lenient e) (input e) ?N (Suc p) of
          Inl p' \<Rightarrow> HV_fail p' HPE_INVALID_HEADER_TOKEN q
        | Inr p' \<Rightarrow> header_value_loop e (Suc (if p' = ?N then p' - 1 else p')) h_general q)"
        using header_value_loop_scan [OF p, of q] lim(2) p by simp
      with big q1 \<open>h = h_general\<close> show ?thesis by simp
    next
      case stop: False
      have "value_scan (lenient e) (input e) ?N (Suc p) =
          (if input e ! Suc p = CR \<or> input e ! Suc p = LF then Inr p else Inl (Suc p))"
        using stop p by (subst value_scan.simps) (auto simp: Let_def value_byte_def)
      then show ?thesis using big q1 \<open>h = h_general\<close> p header_value_loop_stop [OF p stop, of h_general q] by simp
    qed
  qed
qed

lemma value_scan_Inl_ge: "value_scan l d pe p = Inl p' \<Longrightarrow> p \<le> p'"
proof (induction l d pe p rule: value_scan.induct)
  case (1 l d pe p)
  from "1.prems"(1) show ?case
    by (subst (asm) value_scan.simps) (use "1.IH" in \<open>auto simp: Let_def split: if_splits\<close>)
qed

definition hv_range :: "'u env \<Rightarrow> nat \<Rightarrow> 'u hv_exit \<Rightarrow> bool" where
  "hv_range e p r \<longleftrightarrow>
     (case r of HV_end p' h q \<Rightarrow> p' = length (input e)
      | HV_CR p' h q \<Rightarrow> p \<le> p' \<and> p' < length (input e)
      | HV_LF p' h q \<Rightarrow> p \<le> p' \<and> p' < length (input e)
      | _ \<Rightarrow> True)"

lemma hv_range_mono: "hv_range e p' r \<Longrightarrow> p \<le> p' \<Longrightarrow> hv_range e p r"
  by (auto simp: hv_range_def split: hv_exit.splits)

lemma header_value_loop_range: "p \<le> length (input e) \<Longrightarrow> hv_range e p (header_value_loop e p h q)"
proof (induction e p h q rule: header_value_loop.induct)
  case (1 e p h q)
  show ?case
  proof (cases rule: header_value_loop_cases [where e = e and p = p and h = h])
    case beyond
    with "1.prems" show ?thesis by simp
  next
    case fin
    then show ?thesis by (simp add: hv_range_def)
  next
    case stop
    then show ?thesis by (auto simp: header_value_loop_stop hv_range_def)
  next
    case scan
    have byte: "input e ! p \<noteq> CR" "input e ! p \<noteq> LF" "\<not> (\<not> lenient e \<and> \<not> IS_HEADER_CHAR (input e ! p))"
      using scan(2) by (auto simp: value_byte_def)
    show ?thesis
    proof (cases "value_scan (lenient e) (input e) (scan_limit e p) p")
      case (Inl p')
      with scan show ?thesis by (simp add: header_value_loop_scan hv_range_def)
    next
      case (Inr p')
      let ?j = "Suc (if p' = length (input e) then p' - 1 else p')"
      note p' = value_scan_progress [OF Inr scan(1) byte(1,2)]
      have "?j \<le> length (input e)" "p \<le> ?j" using p' scan(1) by auto
      with "1.IH"(1) [OF scan(1) refl byte scan(3) Inr] hv_range_mono Inr show ?thesis
        unfolding scan(3) header_value_loop_scan [OF scan(1,2)] by auto
    qed
  next
    case char
    have byte: "input e ! p \<noteq> CR" "input e ! p \<noteq> LF" "\<not> (\<not> lenient e \<and> \<not> IS_HEADER_CHAR (input e ! p))"
      using char(2) by (auto simp: value_byte_def)
    show ?thesis
    proof (cases "header_value_char (input e ! p) h q")
      case (HV_go h' q')
      with "1.IH"(2) [OF char(1) refl byte char(3) HV_go] char(1) hv_range_mono [of e "Suc p" _ p] show ?thesis
        unfolding header_value_loop_char [OF char] by simp
    qed (unfold header_value_loop_char [OF char], simp_all add: hv_range_def)
  qed
qed

text \<open>Results that agree: equal, or errors a caller cannot tell apart.\<close>

definition agree :: "'u outcome option \<Rightarrow> 'u outcome option \<Rightarrow> bool" where
  "agree r r' \<longleftrightarrow> r = r' \<or> (\<exists>n q q'. r = Some (Return n q) \<and> r' = Some (Return n q') \<and> same_result q' q)"

lemma agree_refl [simp]: "agree r r"
  by (simp add: agree_def)

lemma fail_Return:
  "er \<noteq> HPE_OK \<Longrightarrow> fail er (loc c p n x mk q) = Return p (q\<lparr>hp_nread := of_nat n, hp_http_errno := er, hp_state := x\<rparr>)"
  by (rule fail_loc)

lemma execute_loop_Return:
  assumes "p < length (input e)" and "n + (length (input e) - p) \<le> unat (max_header_size e)"
    and "exec_switch e (loc (input e ! p) p (counted x n) x mk q) = Return m q'"
  shows "execute_loop e (loc c p n x mk q) = Some (Return m q')"
  using execute_loop_turn [OF assms(1,2), of c x mk q] dispatch_Return [OF assms(3)] by simp

context streaming_callbacks begin

definition value_flush :: "'u env \<Rightarrow> nat \<Rightarrow> nat \<Rightarrow> header_states \<Rightarrow> 'u http_parser \<Rightarrow> 'u http_parser" where
  "value_flush e A p h q =
     flushed M_header_value (take (p - A) (drop A (input e))) s_header_almost_done (q\<lparr>hp_header_state := h\<rparr>)"

definition value_exit :: "'u env \<Rightarrow> char \<Rightarrow> nat \<Rightarrow> nat \<Rightarrow> nat \<Rightarrow> 'u hv_exit \<Rightarrow> 'u outcome" where
  "value_exit e c p n A r =
     (case r of
        HV_abort a \<Rightarrow> Abort a
      | HV_fail p' er q \<Rightarrow> fail er (loc c p' n s_header_value (Some (M_header_value, A)) q)
      | HV_CR p' h q \<Rightarrow>
          if hp_http_errno q \<noteq> HPE_OK then Abort Assertion
          else Break (loc CR p' (n + (p' - p)) s_header_almost_done None ((value_flush e A p' h q)\<lparr>hp_header_state := h\<rparr>))
      | HV_LF p' h q \<Rightarrow>
          if hp_http_errno q \<noteq> HPE_OK then Abort Assertion
          else Reexecute (loc LF p' (n + (p' - p)) s_header_almost_done None (value_flush e A p' h q))
      | HV_end p' h q \<Rightarrow>
          Break (loc c (p' - 1) (n + (p' - 1 - p)) s_header_value (Some (M_header_value, A)) (q\<lparr>hp_header_state := h\<rparr>)))"

lemma exec_header_value_exit:
  assumes "settings e = st" and "p < length (input e)" and "n + (length (input e) - Suc p) \<le> unat (max_header_size e)"
    and "A \<le> p"
  shows "exec_switch e (loc c p n s_header_value (Some (M_header_value, A)) q) =
    value_exit e c p n A (header_value_loop e p (hp_header_state q) q)"
proof -
  let ?r = "header_value_loop e p (hp_header_state q) q"
  have range: "hv_range e p ?r" by (rule header_value_loop_range) (use assms(2) in simp)
  have sw: "exec_switch e (loc c p n s_header_value mk q) = exec_header_value e (loc c p n s_header_value mk q)" for mk
    by (simp add: exec_switch_def)
  have data: "CALLBACK_DATA_AT M_header_value p' er e (loc d p' m s_header_almost_done (Some (M_header_value, A))
        (q'\<lparr>hp_header_state := h\<rparr>)) K =
      (if hp_http_errno q' \<noteq> HPE_OK then Abort Assertion
       else K (loc d p' m s_header_almost_done None (value_flush e A p' h q')))"
    if "p \<le> p'" "p' < length (input e)" for p' er d m q' h K
  proof (cases "hp_http_errno q' = HPE_OK")
    case True
    then show ?thesis using data_macro [where q = "q'\<lparr>hp_header_state := h\<rparr>" and mk = "Some (M_header_value, A)" and stop = p' and m = M_header_value, OF assms(1)] that assms(4)
      by (simp add: value_flush_def)
  qed (simp add: CALLBACK_DATA_AT_def)
  show ?thesis
  proof (cases ?r)
    case (HV_end p' h q')
    with range have "p' = length (input e)" by (simp add: hv_range_def)
    then have "n + (p' - 1 - p) \<le> unat (max_header_size e)" using assms(3) by simp
    with HV_end show ?thesis unfolding sw exec_header_value_def
      by (simp add: value_exit_def set_header_state_def)
  next
    case (HV_CR p' h q')
    with range have p': "p \<le> p'" "p' < length (input e)" by (simp_all add: hv_range_def)
    then have "n + (p' - p) \<le> unat (max_header_size e)" using assms(3) by simp
    with HV_CR p' show ?thesis unfolding sw exec_header_value_def
      by (simp add: value_exit_def set_header_state_def CALLBACK_DATA_def UPDATE_STATE_def data)
  next
    case (HV_LF p' h q')
    with range have p': "p \<le> p'" "p' < length (input e)" by (simp_all add: hv_range_def)
    then have "n + (p' - p) \<le> unat (max_header_size e)" using assms(3) by simp
    with HV_LF p' show ?thesis unfolding sw exec_header_value_def
      by (simp add: value_exit_def set_header_state_def CALLBACK_DATA_NOADVANCE_def UPDATE_STATE_def data)
  qed (simp_all add: sw exec_header_value_def value_exit_def)
qed

text \<open>Starting one byte later makes no difference, up to the character last read and to errors.\<close>

definition exit_upto :: "'u env \<Rightarrow> 'u outcome \<Rightarrow> 'u outcome \<Rightarrow> bool" where
  "exit_upto e oc oc' \<longleftrightarrow>
     oc = oc' \<or>
     (\<exists>c c' P n x mk q. oc = Break (loc c P n x mk q) \<and> oc' = Break (loc c' P n x mk q) \<and>
       P < length (input e) \<and> n + (length (input e) - Suc P) \<le> unat (max_header_size e)) \<or>
     (\<exists>n q q'. oc = Return n q \<and> oc' = Return n q' \<and> same_result q' q)"

lemma value_exit_move:
  assumes "hv_upto r r'" and "hv_range e (Suc p) r" and "Suc p < length (input e)"
    and "n + (length (input e) - Suc p) \<le> unat (max_header_size e)"
  shows "exit_upto e (value_exit e c p n A r) (value_exit e c' (Suc p) (Suc n) A r')"
proof (cases r)
  case (HV_end p' h q)
  with assms(1,2) obtain x where r': "r' = HV_end (length (input e)) h (q\<lparr>hp_header_state := x\<rparr>)" "p' = length (input e)"
    by (auto simp: hv_upto_def hv_range_def)
  let ?N = "length (input e)"
  have n: "n + (?N - 1 - p) = Suc n + (?N - 1 - Suc p)" "?N - 1 < ?N"
    "Suc n + (?N - 1 - Suc p) + (?N - Suc (?N - 1)) \<le> unat (max_header_size e)"
    using assms(3,4) by auto
  have "value_exit e c p n A r = Break (loc c (?N - 1) (Suc n + (?N - 1 - Suc p)) s_header_value (Some (M_header_value, A))
        (q\<lparr>hp_header_state := h\<rparr>))"
    "value_exit e c' (Suc p) (Suc n) A r' = Break (loc c' (?N - 1) (Suc n + (?N - 1 - Suc p)) s_header_value
        (Some (M_header_value, A)) (q\<lparr>hp_header_state := h\<rparr>))"
    unfolding value_exit_def HV_end r' hv_exit.case n(1) by simp_all
  then show ?thesis unfolding exit_upto_def using n(2,3) by blast
next
  case (HV_CR p' h q)
  with assms(1,2) obtain x where r': "r' = HV_CR p' h (q\<lparr>hp_header_state := x\<rparr>)" "Suc p \<le> p'"
    by (auto simp: hv_upto_def hv_range_def)
  then have "n + (p' - p) = Suc n + (p' - Suc p)" by simp
  then show ?thesis unfolding exit_upto_def value_exit_def HV_CR r' by (simp add: value_flush_def)
next
  case (HV_LF p' h q)
  with assms(1,2) obtain x where r': "r' = HV_LF p' h (q\<lparr>hp_header_state := x\<rparr>)" "Suc p \<le> p'"
    by (auto simp: hv_upto_def hv_range_def)
  then have "n + (p' - p) = Suc n + (p' - Suc p)" by simp
  then show ?thesis unfolding exit_upto_def value_exit_def HV_LF r' by (simp add: value_flush_def)
next
  case (HV_fail p' er q)
  with assms(1) obtain x where r': "r' = HV_fail p' er (q\<lparr>hp_header_state := x\<rparr>)" "er \<noteq> HPE_OK"
    by (auto simp: hv_upto_def)
  then show ?thesis unfolding exit_upto_def value_exit_def HV_fail r'(1)
    by (cases q) (simp add: fail_Return same_result_def)
next
  case (HV_abort a)
  with assms(1) show ?thesis by (simp add: hv_upto_def exit_upto_def value_exit_def)
qed

lemma execute_loop_Break_cong:
  assumes "p < length (input e)" and "n + (length (input e) - p) \<le> unat (max_header_size e)"
    and "p' < length (input e)" and "n' + (length (input e) - p') \<le> unat (max_header_size e)"
    and 1: "exec_switch e (loc (input e ! p) p (counted x n) x mk q) = Break (loc d P m y mk1 q1)"
    and 2: "exec_switch e (loc (input e ! p') p' (counted x' n') x' mk' q') = Break (loc d' P m y mk1 q1)"
    and P: "P < length (input e)" "m + (length (input e) - Suc P) \<le> unat (max_header_size e)"
  shows "execute_loop e (loc c p n x mk q) = execute_loop e (loc c' p' n' x' mk' q')"
  using execute_loop_Break [OF assms(1,2) 1, of c] execute_loop_Break [OF assms(3,4) 2, of c']
    execute_loop_ch [of "Suc P" e m d y mk1 q1 d'] P by simp

lemma exit_upto_loop:
  assumes "p < length (input e)" and "n + (length (input e) - p) \<le> unat (max_header_size e)"
    and "p' < length (input e)" and "n' + (length (input e) - p') \<le> unat (max_header_size e)"
    and "exit_upto e (exec_switch e (loc (input e ! p) p (counted x n) x mk q))
      (exec_switch e (loc (input e ! p') p' (counted x' n') x' mk' q'))"
  shows "agree (execute_loop e (loc c p n x mk q)) (execute_loop e (loc c' p' n' x' mk' q'))"
  using assms(5) unfolding exit_upto_def
proof (elim disjE exE conjE)
  assume "exec_switch e (loc (input e ! p) p (counted x n) x mk q) =
    exec_switch e (loc (input e ! p') p' (counted x' n') x' mk' q')"
  then have "execute_loop e (loc c p n x mk q) = execute_loop e (loc c' p' n' x' mk' q')"
    by (rule execute_loop_cong [OF assms(1-4)])
  then show ?thesis by (simp add: agree_def)
next
  fix d d' P m y mk1 q1
  assume 1: "exec_switch e (loc (input e ! p) p (counted x n) x mk q) = Break (loc d P m y mk1 q1)"
    and 2: "exec_switch e (loc (input e ! p') p' (counted x' n') x' mk' q') = Break (loc d' P m y mk1 q1)"
    and P: "P < length (input e)" "m + (length (input e) - Suc P) \<le> unat (max_header_size e)"
  from execute_loop_Break_cong [OF assms(1-4) 1 2 P] have
    "execute_loop e (loc c p n x mk q) = execute_loop e (loc c' p' n' x' mk' q')" .
  then show ?thesis by (simp add: agree_def)
next
  fix m q1 q2
  assume "exec_switch e (loc (input e ! p) p (counted x n) x mk q) = Return m q1"
    and "exec_switch e (loc (input e ! p') p' (counted x' n') x' mk' q') = Return m q2" and "same_result q2 q1"
  with execute_loop_Return [OF assms(1,2), of x mk q m q1 c] execute_loop_Return [OF assms(3,4), of x' mk' q' m q2 c']
  show ?thesis by (auto simp: agree_def)
qed

lemma execute_loop_value:
  assumes "settings e = st" and "p < length (input e)" and "n + (length (input e) - p) \<le> unat (max_header_size e)"
    and "A \<le> p" and "value_byte e (input e ! p)"
    and "header_value_char (input e ! p) (hp_header_state q) q = HV_go h q1"
  shows "agree (execute_loop e (loc c p n s_header_value (Some (M_header_value, A)) q))
    (execute_loop e (loc c' (Suc p) (Suc n) s_header_value (Some (M_header_value, A)) (q1\<lparr>hp_header_state := h\<rparr>)))"
proof -
  let ?N = "length (input e)" and ?mk = "Some (M_header_value, A)" and ?q1 = "q1\<lparr>hp_header_state := h\<rparr>"
  let ?r = "header_value_loop e (Suc p) h q1"
  have left: "?N - p \<le> unat (max_header_size e)" using assms(3) by simp
  have bound: "Suc n + (?N - Suc p) \<le> unat (max_header_size e)" using assms(2,3) by simp
  have step: "header_value_loop e p (hp_header_state q) q = ?r"
    by (rule header_value_loop_step [OF assms(2) left assms(5,6)])
  have upto: "hv_upto ?r (header_value_loop e (Suc p) h ?q1)" by (rule header_value_loop_upto)
  have sw: "exec_switch e (loc (input e ! p) p (Suc n) s_header_value ?mk q) = value_exit e (input e ! p) p (Suc n) A ?r"
    using exec_header_value_exit [OF assms(1,2), of "Suc n" A "input e ! p" q] bound assms(4) step by simp
  show ?thesis
  proof (cases "Suc p = ?N")
    case True
    then have r: "?r = HV_end ?N h q1" by simp
    have "?N - 1 = p" using True by simp
    then have "value_exit e (input e ! p) p (Suc n) A ?r = Break (loc (input e ! p) p (Suc n) s_header_value ?mk ?q1)"
      unfolding r value_exit_def by simp
    with sw have "exec_switch e (loc (input e ! p) p (Suc n) s_header_value ?mk q) =
        Break (loc (input e ! p) p (Suc n) s_header_value ?mk ?q1)" by (rule trans)
    then have "execute_loop e (loc c p n s_header_value ?mk q) = execute_loop e (next_byte (loc (input e ! p) p (Suc n) s_header_value ?mk ?q1))"
      by (intro execute_loop_Break [OF assms(2,3)]) (simp only: counted_field)
    also have "\<dots> = execute_loop e (loc (input e ! p) (Suc p) (Suc n) s_header_value ?mk ?q1)"
      by (simp only: next_byte_loc)
    also have "\<dots> = execute_loop e (loc c' (Suc p) (Suc n) s_header_value ?mk ?q1)"
      by (rule execute_loop_ch) (use True bound in simp_all)
    finally show ?thesis by simp
  next
    case False
    with assms(2) have p: "Suc p < ?N" by simp
    have sw1: "exec_switch e (loc (input e ! Suc p) (Suc p) (Suc (Suc n)) s_header_value ?mk ?q1) =
        value_exit e (input e ! Suc p) (Suc p) (Suc (Suc n)) A (header_value_loop e (Suc p) h ?q1)"
      using exec_header_value_exit [OF assms(1) p, of "Suc (Suc n)" A "input e ! Suc p" ?q1] bound p assms(4) by simp
    have "hv_range e (Suc p) ?r" by (rule header_value_loop_range) (use p in simp)
    then have "exit_upto e (value_exit e (input e ! p) p (Suc n) A ?r)
        (value_exit e (input e ! Suc p) (Suc p) (Suc (Suc n)) A (header_value_loop e (Suc p) h ?q1))"
      by (rule value_exit_move [OF upto _ p]) (use bound in simp)
    then show ?thesis
      by (intro exit_upto_loop [OF assms(2,3) p]) (use bound sw sw1 in simp_all)
  qed
qed

end

section \<open>Bodies\<close>

lemma get_mark_other [simp]: "m \<noteq> m' \<Longrightarrow> get_mark m' (loc c p n x (Some (m, a)) q) = None"
  by (cases m; cases m') (simp_all add: loc.simps)

lemma data_skip:
  "hp_http_errno (parser s) = HPE_OK \<Longrightarrow> get_mark m s = None \<Longrightarrow> CALLBACK_DATA_NOADVANCE m e s K = K s"
  by (simp add: CALLBACK_DATA_NOADVANCE_def CALLBACK_DATA_AT_def)

definition body_mark_at :: "nat \<Rightarrow> (mark \<times> nat) option \<Rightarrow> (mark \<times> nat) option" where
  "body_mark_at p mk = (case mk of None \<Rightarrow> Some (M_body, p) | Some a \<Rightarrow> Some a)"

definition body_read :: "nat \<Rightarrow> 'u http_parser \<Rightarrow> 'u http_parser" where
  "body_read k q = q\<lparr>hp_content_length := of_nat (unat (hp_content_length q) - k)\<rparr>"

lemma MARK_body:
  "mk = None \<or> mk = Some (M_body, A) \<Longrightarrow> MARK M_body (loc c p n x mk q) = loc c p n x (body_mark_at p mk) q"
  by (elim disjE) (simp_all add: body_mark_at_def MARK_def del: get_mark.simps)

lemma consume_body_loc:
  assumes "p < length (input e)" and "length (input e) < 2 ^ 64" and "mk = None \<or> mk = Some (M_body, A)"
    and k_def: "k = min (unat (hp_content_length q)) (length (input e) - p)"
  shows "consume_body e (loc c p n x mk q) = loc c (p + k - 1) n x (body_mark_at p mk) (body_read k q)"
proof -
  let ?m = "to_read e (loc c p n x mk q)" and ?cl = "hp_content_length q"
  have "unat (of_nat (length (input e) - p) :: 64 word) = length (input e) - p"
    using assms(2) by (simp add: unat_of_nat take_bit_eq_mod)
  then have m: "unat ?m = k" by (auto simp: to_read_def k_def min_def word_le_nat_alt)
  then have "?m \<le> ?cl" by (simp add: word_le_nat_alt k_def)
  then have "unat (?cl - ?m) = unat ?cl - k" using m by (simp add: unat_sub)
  moreover have "?cl - ?m = of_nat (unat (?cl - ?m))" by simp
  ultimately have "?cl - ?m = of_nat (unat ?cl - k)" by (rule subst)
  then show ?thesis using m MARK_body [OF assms(3), of c p n x q]
    by (simp add: consume_body_def Let_def body_read_def)
qed

lemma body_read_left [simp]: "unat (hp_content_length (body_read k q)) = unat (hp_content_length q) - k"
proof -
  have "unat (hp_content_length q) < 2 ^ LENGTH(64)" by (rule unsigned_less)
  then have "unat (hp_content_length q) - k < 2 ^ 64" by simp
  then show ?thesis by (simp add: body_read_def unat_of_nat take_bit_eq_mod)
qed

lemma body_read_simps [simp]:
  "hp_http_errno (body_read k q) = hp_http_errno q" "hp_flags (body_read k q) = hp_flags q"
  "hp_lenient_http_headers (body_read k q) = hp_lenient_http_headers q" "hp_data (body_read k q) = hp_data q"
  "body_read j (body_read k q) = body_read (k + j) q"
  using body_read_left [of k q] by (simp_all add: body_read_def [of j] body_read_def [of "k + j"])
    (simp_all add: body_read_def)

lemma counted_body [simp]: "counted s_body_identity n = n" "counted s_chunk_data n = n" "counted s_body_identity_eof n = n"
  "counted s_chunk_data_almost_done n = n"
  by (simp_all add: counted_def PARSING_HEADER_num)

definition body_start :: "nat \<Rightarrow> (mark \<times> nat) option \<Rightarrow> nat" where
  "body_start p mk = (case mk of None \<Rightarrow> p | Some (m, A) \<Rightarrow> A)"

definition body_marked :: "nat \<Rightarrow> (mark \<times> nat) option \<Rightarrow> bool" where
  "body_marked p mk \<longleftrightarrow> mk = None \<or> (\<exists>A. mk = Some (M_body, A) \<and> A \<le> p)"

lemma body_mark_at_start: "body_marked p mk \<Longrightarrow> body_mark_at p mk = Some (M_body, body_start p mk)"
  by (auto simp: body_marked_def body_mark_at_def body_start_def)

lemma body_start_le: "body_marked p mk \<Longrightarrow> body_start p mk \<le> p"
  by (auto simp: body_marked_def body_start_def)

lemma body_mark_next:
  assumes "body_marked p mk"
  shows "body_marked (Suc p) (body_mark_at p mk)" "body_mark_at (Suc p) (body_mark_at p mk) = body_mark_at p mk"
    "body_start (Suc p) (body_mark_at p mk) = body_start p mk"
  using assms by (auto simp: body_marked_def body_mark_at_def body_start_def)

lemma body_read_0: "hp_content_length (body_read k q) = 0 \<longleftrightarrow> unat (hp_content_length q) \<le> k"
  using body_read_left [of k q] by (metis diff_is_0_eq unat_eq_zero)

context streaming_callbacks begin

definition body_done :: "'u env \<Rightarrow> nat \<Rightarrow> nat \<Rightarrow> 'u http_parser \<Rightarrow> 'u http_parser" where
  "body_done e A P q = flushed M_body (take (P - A) (drop A (input e))) s_message_done q"

lemma exec_body_exit:
  assumes "settings e = st" and "p < length (input e)" and "length (input e) < 2 ^ 64" and mk: "body_marked p mk"
    and "hp_http_errno q = HPE_OK" and k: "k = min (unat (hp_content_length q)) (length (input e) - p)"
    and cl: "hp_content_length q \<noteq> 0" "hp_content_length q \<noteq> ULLONG_MAX"
  shows "exec_switch e (loc c p n s_body_identity mk q) =
    (if unat (hp_content_length q) \<le> k
     then Reexecute (loc c (p + k - 1) n s_message_done None (body_done e (body_start p mk) (p + k) (body_read k q)))
     else Break (loc c (p + k - 1) n s_body_identity (body_mark_at p mk) (body_read k q)))"
proof -
  let ?A = "body_start p mk" and ?P = "p + k - 1"
  from mk have mk': "mk = None \<or> mk = Some (M_body, ?A)" by (auto simp: body_marked_def body_start_def)
  have consume: "consume_body e (loc c p n s_body_identity mk q) = loc c ?P n s_body_identity (Some (M_body, ?A)) (body_read k q)"
    unfolding body_mark_at_start [OF mk, symmetric] by (rule consume_body_loc [OF assms(2,3) mk' k])
  have "unat (hp_content_length q) \<noteq> 0" using cl(1) by (simp add: unat_eq_zero)
  then have P: "Suc ?P = p + k" "p + k \<le> length (input e)" "?A \<le> p + k"
    using k assms(2) body_start_le [OF mk] by auto
  have data: "CALLBACK_DATA_AT M_body (Suc ?P) ?P e (loc c ?P n s_message_done (Some (M_body, ?A)) (body_read k q)) K =
      K (loc c ?P n s_message_done None (body_done e ?A (p + k) (body_read k q)))" for K
    by (subst data_macro) (use assms(1,5) P in \<open>auto simp: body_done_def\<close>)
  show ?thesis
    using cl data by (simp add: exec_switch_def exec_body_identity_def assert_that_def consume body_read_0
        UPDATE_STATE_def body_mark_at_start [OF mk])
qed

lemma exec_chunk_exit:
  assumes "p < length (input e)" and "length (input e) < 2 ^ 64" and mk: "body_marked p mk"
    and k: "k = min (unat (hp_content_length q)) (length (input e) - p)"
    and cl: "hp_content_length q \<noteq> 0" "hp_content_length q \<noteq> ULLONG_MAX" and "has_flag (hp_flags q) F_CHUNKED"
  shows "exec_switch e (loc c p n s_chunk_data mk q) =
    Break (loc c (p + k - 1) n (if unat (hp_content_length q) \<le> k then s_chunk_data_almost_done else s_chunk_data)
      (body_mark_at p mk) (body_read k q))"
proof -
  let ?A = "body_start p mk"
  from mk have mk': "mk = None \<or> mk = Some (M_body, ?A)" by (auto simp: body_marked_def body_start_def)
  note consume = consume_body_loc [OF assms(1,2) mk' k, of c n s_chunk_data]
  show ?thesis using cl assms(7)
    by (simp add: exec_switch_def exec_chunk_data_def assert_that_def is_chunked_def consume body_read_0 UPDATE_STATE_def)
qed

lemma exec_eof_exit:
  assumes "body_marked p mk"
  shows "exec_switch e (loc c p n s_body_identity_eof mk q) =
    Break (loc c (length (input e) - 1) n s_body_identity_eof (body_mark_at p mk) q)"
proof -
  from assms have mk: "mk = None \<or> mk = Some (M_body, body_start p mk)" by (auto simp: body_marked_def body_start_def)
  show ?thesis by (simp add: exec_switch_def exec_body_identity_eof_def MARK_body [OF mk])
qed

text \<open>After the body the character last read is not looked at either.\<close>

lemma loop_after_body:
  assumes "settings e = st" and "p < length (input e)" and "n + (length (input e) - p) \<le> unat (max_header_size e)"
    and "p' < length (input e)" and "n' + (length (input e) - p') \<le> unat (max_header_size e)"
    and "exec_switch e (loc (input e ! p) p (counted x n) x mk q) = Reexecute (loc d P m s_message_done None q2)"
    and "exec_switch e (loc (input e ! p') p' (counted x' n') x' mk' q') = Reexecute (loc d' P m s_message_done None q2)"
    and "P < length (input e)" and "m + (length (input e) - Suc P) \<le> unat (max_header_size e)" and "hp_http_errno q2 = HPE_OK"
  shows "execute_loop e (loc c p n x mk q) = execute_loop e (loc c' p' n' x' mk' q')"
proof -
  let ?q = "notified on_message_complete (NEW_MESSAGE q2) q2"
  have ends: "exec_switch e (loc d P m s_message_done None q2) =
      (if hp_upgrade ?q then RETURN (Suc P) (loc d P m (NEW_MESSAGE q2) None ?q)
       else Break (loc d P m (NEW_MESSAGE q2) None ?q))" for d
    unfolding exec_switch_def exec_message_done_def new_message_def
    using notify_macro [where cb = on_message_complete and mk = None and q = q2, OF assms(1) _ assms(10)]
    by (simp add: notify_cbs_def CALLBACK_NOTIFY_def UPDATE_STATE_def exec_message_done_def new_message_def)
  show ?thesis
  proof (cases "hp_upgrade ?q")
    case True
    then have "dispatch e (loc d P m s_message_done None q2) = dispatch e (loc d' P m s_message_done None q2)"
      using ends by (intro dispatch_cong) (simp add: RETURN_def)
    then show ?thesis
      using execute_loop_turn [OF assms(2,3)] execute_loop_turn [OF assms(4,5)]
        dispatch_Reexecute [OF assms(6)] dispatch_Reexecute [OF assms(7)] by simp
  next
    case False
    then have B: "dispatch e (loc d P m s_message_done None q2) = Some (Break (loc d P m (NEW_MESSAGE q2) None ?q))" for d
      using ends by (intro dispatch_Break) simp
    show ?thesis
      using execute_loop_turn [OF assms(2,3)] execute_loop_turn [OF assms(4,5)] B
        dispatch_Reexecute [OF assms(6)] dispatch_Reexecute [OF assms(7)]
        execute_loop_ch [of "Suc P" e m d "NEW_MESSAGE q2" None ?q d'] assms(8,9) by simp
  qed
qed

text \<open>A byte of a body, on its own, when more are to come.\<close>

lemma body_left:
  assumes "2 \<le> unat (hp_content_length q)" and "hp_content_length q \<noteq> ULLONG_MAX"
  shows "hp_content_length q \<noteq> 0" "hp_content_length (body_read 1 q) \<noteq> 0"
    "hp_content_length (body_read 1 q) \<noteq> ULLONG_MAX"
proof -
  show "hp_content_length q \<noteq> 0" using assms(1) by auto
  show "hp_content_length (body_read 1 q) \<noteq> 0" using assms(1) by (simp add: body_read_0)
  have "unat (hp_content_length q) < 2 ^ LENGTH(64)" by (rule unsigned_less)
  then have "unat (hp_content_length (body_read 1 q)) < 2 ^ 64 - 1" unfolding body_read_left using assms(1) by simp
  moreover have "unat ULLONG_MAX = 2 ^ 64 - 1" by (simp add: ULLONG_MAX_max unsigned_minus_1_eq_mask mask_eq_exp_minus_1)
  ultimately have "unat (hp_content_length (body_read 1 q)) \<noteq> unat ULLONG_MAX" by linarith
  then show "hp_content_length (body_read 1 q) \<noteq> ULLONG_MAX" by metis
qed

lemma body_min_Suc:
  assumes "2 \<le> (cl::nat)" and "Suc p < N"
  shows "min cl (N - p) = Suc (min (cl - 1) (N - Suc p))"
  using assms by linarith

lemma execute_loop_body:
  assumes "settings e = st" and "p < length (input e)" and "length (input e) < 2 ^ 64"
    and "n + (length (input e) - p) \<le> unat (max_header_size e)" and mk: "body_marked p mk"
    and OK: "hp_http_errno q = HPE_OK" and cl: "2 \<le> unat (hp_content_length q)" "hp_content_length q \<noteq> ULLONG_MAX"
  shows "execute_loop e (loc c p n s_body_identity mk q) =
    execute_loop e (loc c' (Suc p) n s_body_identity (body_mark_at p mk) (body_read 1 q))"
proof -
  let ?N = "length (input e)"
  note left = body_left [OF cl] and mark = body_mark_next [OF mk]
  define k where "k = min (unat (hp_content_length q)) (?N - p)"
  note sw = exec_body_exit [OF assms(1-3) mk OK k_def left(1) cl(2)]
  show ?thesis
  proof (cases "Suc p = ?N")
    case True
    then have "k = 1" "\<not> unat (hp_content_length q) \<le> k" using cl(1) by (auto simp: k_def min_def)
    with sw have "exec_switch e (loc (input e ! p) p (counted s_body_identity n) s_body_identity mk q) =
        Break (loc (input e ! p) p n s_body_identity (body_mark_at p mk) (body_read 1 q))" by simp
    from execute_loop_Break [OF assms(2,4) this, of c]
    have "execute_loop e (loc c p n s_body_identity mk q) =
        execute_loop e (loc (input e ! p) (Suc p) n s_body_identity (body_mark_at p mk) (body_read 1 q))" by simp
    also have "\<dots> = execute_loop e (loc c' (Suc p) n s_body_identity (body_mark_at p mk) (body_read 1 q))"
      by (rule execute_loop_ch) (use True assms(4) in simp_all)
    finally show ?thesis .
  next
    case False
    with assms(2) have p: "Suc p < ?N" by simp
    have bound: "n + (?N - Suc p) \<le> unat (max_header_size e)" using assms(4) by simp
    define k' where "k' = min (unat (hp_content_length (body_read 1 q))) (?N - Suc p)"
    have k: "k = Suc k'" unfolding k_def k'_def using body_min_Suc [OF cl(1) p] by simp
    have OK': "hp_http_errno (body_read 1 q) = HPE_OK" using OK by simp
    note sw' = exec_body_exit [OF assms(1) p assms(3) mark(1) OK' k'_def left(2,3), of _ n,
      unfolded mark(2,3)]
    have eq: "unat (hp_content_length (body_read 1 q)) \<le> k' \<longleftrightarrow> unat (hp_content_length q) \<le> k"
      "Suc p + k' = p + k" "body_read k' (body_read 1 q) = body_read k q"
      using k cl(1) by auto
    note sw' = sw' [unfolded eq]
    show ?thesis
    proof (cases "unat (hp_content_length q) \<le> k")
      case True
      have "k \<le> ?N - p" by (simp add: k_def)
      then have P: "p + k - 1 < ?N" "n + (?N - Suc (p + k - 1)) \<le> unat (max_header_size e)"
        using k assms(2,4) by auto
      let ?q = "body_done e (body_start p mk) (p + k) (body_read k q)"
      have OK: "hp_http_errno ?q = HPE_OK" using OK by (simp add: body_done_def flushed_def)
      show ?thesis
        by (rule loop_after_body [OF assms(1,2,4) p bound _ _ P OK]) (use sw sw' True in simp_all)
    next
      case False
      then have "k = ?N - p" by (auto simp: k_def min_def)
      then have P: "p + k - 1 < ?N" "n + (?N - Suc (p + k - 1)) \<le> unat (max_header_size e)"
        using assms(2,4) by auto
      show ?thesis
        by (rule execute_loop_Break_cong [OF assms(2,4) p bound _ _ P]) (use sw sw' False in simp_all)
    qed
  qed
qed

lemma execute_loop_chunk:
  assumes "p < length (input e)" and "length (input e) < 2 ^ 64"
    and "n + (length (input e) - p) \<le> unat (max_header_size e)" and mk: "body_marked p mk"
    and fl: "has_flag (hp_flags q) F_CHUNKED" and cl: "2 \<le> unat (hp_content_length q)" "hp_content_length q \<noteq> ULLONG_MAX"
  shows "execute_loop e (loc c p n s_chunk_data mk q) =
    execute_loop e (loc c' (Suc p) n s_chunk_data (body_mark_at p mk) (body_read 1 q))"
proof -
  let ?N = "length (input e)"
  note left = body_left [OF cl] and mark = body_mark_next [OF mk]
  define k where "k = min (unat (hp_content_length q)) (?N - p)"
  note sw = exec_chunk_exit [OF assms(1,2) mk k_def left(1) cl(2) fl]
  show ?thesis
  proof (cases "Suc p = ?N")
    case True
    then have "k = 1" "\<not> unat (hp_content_length q) \<le> k" using cl(1) by (auto simp: k_def min_def)
    with sw have "exec_switch e (loc (input e ! p) p (counted s_chunk_data n) s_chunk_data mk q) =
        Break (loc (input e ! p) p n s_chunk_data (body_mark_at p mk) (body_read 1 q))" by simp
    from execute_loop_Break [OF assms(1,3) this, of c]
    have "execute_loop e (loc c p n s_chunk_data mk q) =
        execute_loop e (loc (input e ! p) (Suc p) n s_chunk_data (body_mark_at p mk) (body_read 1 q))" by simp
    also have "\<dots> = execute_loop e (loc c' (Suc p) n s_chunk_data (body_mark_at p mk) (body_read 1 q))"
      by (rule execute_loop_ch) (use True assms(3) in simp_all)
    finally show ?thesis .
  next
    case False
    with assms(1) have p: "Suc p < ?N" by simp
    have bound: "n + (?N - Suc p) \<le> unat (max_header_size e)" using assms(3) by simp
    define k' where "k' = min (unat (hp_content_length (body_read 1 q))) (?N - Suc p)"
    have k: "k = Suc k'" unfolding k_def k'_def using body_min_Suc [OF cl(1) p] by simp
    have fl': "has_flag (hp_flags (body_read 1 q)) F_CHUNKED" using fl by simp
    note sw' = exec_chunk_exit [OF p assms(2) mark(1) k'_def left(2,3) fl', of _ n, unfolded mark(2)]
    have eq: "unat (hp_content_length (body_read 1 q)) \<le> k' \<longleftrightarrow> unat (hp_content_length q) \<le> k"
      "Suc p + k' = p + k" "body_read k' (body_read 1 q) = body_read k q"
      using k cl(1) by auto
    note sw' = sw' [unfolded eq]
    have "k \<le> ?N - p" by (simp add: k_def)
    then have P: "p + k - 1 < ?N" "n + (?N - Suc (p + k - 1)) \<le> unat (max_header_size e)"
      using k assms(1,3) by auto
    show ?thesis
      by (rule execute_loop_Break_cong [OF assms(1,3) p bound _ _ P]) (use sw sw' in simp_all)
  qed
qed

lemma execute_loop_eof:
  assumes "p < length (input e)" and "n + (length (input e) - p) \<le> unat (max_header_size e)" and mk: "body_marked p mk"
  shows "execute_loop e (loc c p n s_body_identity_eof mk q) =
    execute_loop e (loc c' (Suc p) n s_body_identity_eof (body_mark_at p mk) q)"
proof -
  let ?N = "length (input e)"
  note mark = body_mark_next [OF mk]
  have N: "?N - 1 < ?N" "n + (?N - Suc (?N - 1)) \<le> unat (max_header_size e)" using assms(1,2) by auto
  have sw: "exec_switch e (loc (input e ! p) p (counted s_body_identity_eof n) s_body_identity_eof mk q) =
      Break (loc (input e ! p) (?N - 1) n s_body_identity_eof (body_mark_at p mk) q)"
    using exec_eof_exit [OF mk] by simp
  show ?thesis
  proof (cases "Suc p = ?N")
    case True
    then have "?N - 1 = p" by simp
    from execute_loop_Break [OF assms(1,2) sw, of c] True this
    have "execute_loop e (loc c p n s_body_identity_eof mk q) =
        execute_loop e (loc (input e ! p) (Suc p) n s_body_identity_eof (body_mark_at p mk) q)" by simp
    also have "\<dots> = execute_loop e (loc c' (Suc p) n s_body_identity_eof (body_mark_at p mk) q)"
      by (rule execute_loop_ch) (use True assms(2) in simp_all)
    finally show ?thesis .
  next
    case False
    with assms(1) have p: "Suc p < ?N" by simp
    have bound: "n + (?N - Suc p) \<le> unat (max_header_size e)" using assms(2) by simp
    have sw': "exec_switch e (loc (input e ! Suc p) (Suc p) (counted s_body_identity_eof n) s_body_identity_eof (body_mark_at p mk) q) =
        Break (loc (input e ! Suc p) (?N - 1) n s_body_identity_eof (body_mark_at p mk) q)"
      using exec_eof_exit [OF mark(1)] mark(2) by simp
    show ?thesis by (rule execute_loop_Break_cong [OF assms(1,2) p bound sw sw' N])
  qed
qed

end

end

