(* ===== verification/Http_Stream.thy ===== *)
theory Http_Stream
  imports Http_Read_Steps
begin

text \<open>
  Reads of any size: the call on some input does what the calls on its bytes do, so that the way
  a message is cut into reads makes no difference to callbacks that accept tokens in pieces.
\<close>

section \<open>Between two calls\<close>

definition start_mark :: "pstate \<Rightarrow> (mark \<times> nat) option" where
  "start_mark x =
     (if x = s_header_field then Some (M_header_field, 0)
      else if x = s_header_value then Some (M_header_value, 0)
      else if x \<in> url_mark_states then Some (M_url, 0)
      else if x = s_res_status then Some (M_status, 0)
      else None)"

lemma start_locals_loc:
  "start_locals q = loc NUL 0 (unat (hp_nread q)) (hp_state q) (start_mark (hp_state q)) q"
  by (simp add: start_locals_def start_mark_def loc.simps url_mark_states_def)

lemma mark_ok_start: "mark_ok x (start_mark x)"
  by (auto simp: start_mark_def mark_states_def mark_ok_None)

lemma start_mark_of:
  assumes "mark_ok x mk"
  shows "start_mark x = (case mk of Some (m, A) \<Rightarrow> if m = M_body then None else Some (m, 0) | None \<Rightarrow> None)"
proof (cases mk)
  case None
  with assms show ?thesis by (simp add: start_mark_def mark_ok_None)
next
  case (Some mA)
  obtain m A where "mA = (m, A)" by (cases mA)
  with assms Some show ?thesis
    by (cases m) (auto simp: start_mark_def mark_states_def url_mark_states_def)
qed

lemma psim_data_left: "psim D q q' \<Longrightarrow> psim D (q\<lparr>hp_state := x, hp_data := d\<rparr>) q'"
  by (cases q, cases q') (simp add: psim_def)

context streaming_callbacks begin

lemma flushed_errno [simp]: "hp_http_errno (flushed m b x q) = hp_http_errno q"
  "hp_lenient_http_headers (flushed m b x q) = hp_lenient_http_headers q"
  by (simp_all add: flushed_def)

text \<open>The end of a call delivers what there is of a token.\<close>

lemma finish_loc:
  assumes "settings e = st" and "hp_http_errno q = HPE_OK" and "\<And>m A. mk = Some (m, A) \<Longrightarrow> A \<le> length (input e)"
  shows "finish_execute e (loc c (length (input e)) n x mk q) =
    Return (length (input e)) ((case mk of None \<Rightarrow> q | Some (m, A) \<Rightarrow> flushed m (drop A (input e)) x q)
      \<lparr>hp_nread := of_nat n, hp_state := x\<rparr>)"
proof (cases mk)
  case None
  then show ?thesis using assms(2)
    by (simp add: finish_execute_def assert_that_def marks_set_def data_skip RETURN_def del: get_mark.simps)
next
  case (Some mA)
  obtain m A where mk: "mk = Some (m, A)" using Some by (cases mA) auto
  have A: "A \<le> length (input e)" using assms(3) mk by simp
  have flush: "CALLBACK_DATA_NOADVANCE m e (loc c (length (input e)) n x (Some (m, A)) q) K =
      K (loc c (length (input e)) n x None (flushed m (drop A (input e)) x q))" for K
    unfolding CALLBACK_DATA_NOADVANCE_def by (subst data_macro) (use assms(1,2) A in auto)
  have "marks_set (loc c (length (input e)) n x (Some (m, A)) q) \<le> 1"
    by (cases m) (simp_all add: marks_set_def del: get_mark.simps)
  then show ?thesis unfolding mk using assms(2) flush
    by (cases m) (simp_all add: finish_execute_def assert_that_def data_skip RETURN_def del: get_mark.simps)
qed

text \<open>
  Before the byte at \<open>p\<close>: the locals of the call on the whole input, and the parser object that
  the calls on the bytes before \<open>p\<close> have left.
\<close>

definition bsim :: "'u env \<Rightarrow> nat \<Rightarrow> nat \<Rightarrow> pstate \<Rightarrow> (mark \<times> nat) option \<Rightarrow> 'u http_parser \<Rightarrow> 'u http_parser \<Rightarrow> bool" where
  "bsim e p n x mk q q' \<longleftrightarrow>
     hp_http_errno q = HPE_OK \<and> hp_lenient_http_headers q = lenient e \<and> mark_ok x mk \<and>
     n + (length (input e) - p) \<le> unat (max_header_size e) \<and>
     (\<forall>m A. mk = Some (m, A) \<longrightarrow> A < p \<or> A = p \<and> p = 0 \<and> m \<noteq> M_body) \<and>
     q' = q\<lparr>hp_data := ahead e p mk (hp_data q), hp_state := x, hp_nread := of_nat n\<rparr>"

lemma bsim_start:
  assumes "hp_http_errno q = HPE_OK" and "lenient e = hp_lenient_http_headers q"
    and "unat (hp_nread q) + length (input e) \<le> unat (max_header_size e)"
  shows "bsim e 0 (unat (hp_nread q)) (hp_state q) (start_mark (hp_state q)) q q"
proof -
  have "start_mark x = Some (m, A) \<Longrightarrow> A = 0 \<and> m \<noteq> M_body" for x m A
    by (auto simp: start_mark_def split: if_splits)
  moreover have "ahead e 0 mk d = d" for mk d
    by (simp add: ahead_def delivered_def split: option.split)
  ultimately show ?thesis using assms by (simp add: bsim_def mark_ok_start)
qed

lemma bsim_psim: "bsim e p n x mk q q' \<Longrightarrow> psim (ahead e p mk (hp_data q)) q q'"
  by (simp add: bsim_def psim_def)

lemma bsim_tsim:
  assumes "bsim e p n x mk q q'" and "\<And>A. mk \<noteq> Some (M_body, A)"
  shows "tsim e p mk q (start_mark x) q'"
proof -
  have "start_mark x = map_option (\<lambda>(m, A). (m, 0)) mk"
    using assms start_mark_of [of x mk] by (auto simp: bsim_def split: option.split)
  then show ?thesis using assms(1) bsim_psim [OF assms(1)] by (auto simp: tsim_def bsim_def)
qed

lemma bsim_ready:
  assumes "bsim e p n x mk q q'" and "settings e = st" and "p < length (input e)"
  shows "ready e p (counted x n)"
  using assms by (auto simp: bsim_def ready_def counted_def)

text \<open>After the byte: what is left of a token is delivered by the call on the byte.\<close>

lemma lsim_bsim:
  assumes "lsim e p s s'" and "settings e = st" and "p < length (input e)"
  shows "\<exists>c n x mk q q''. s = loc c p n x mk q \<and>
    finish_execute (at_one p e) (next_byte s') = Return 1 q'' \<and> bsim e (Suc p) n x mk q q''"
proof -
  from assms(1) obtain c c' n x mk q mk' q' where s: "s = loc c p n x mk q" "s' = loc c' 0 n x mk' q'"
    and n: "n + (length (input e) - Suc p) \<le> unat (max_header_size e)" and mk: "mark_ok x mk"
    and T: "tsim e p mk q mk' q'"
    unfolding lsim_def by blast
  have OK: "hp_http_errno q' = HPE_OK" using tsim_sel(10) [OF T] tsim_errno [OF T] by simp
  let ?f = "case mk' of None \<Rightarrow> q' | Some (m, A) \<Rightarrow> flushed m (drop A [input e ! p]) x q'"
  let ?q = "?f\<lparr>hp_nread := of_nat n, hp_state := x\<rparr>"
  have mk': "mk' = map_option (\<lambda>(m, A). (m, 0)) mk" using T by (simp add: tsim_def)
  have "finish_execute (at_one p e) (loc c' (length (input (at_one p e))) n x mk' q') =
      Return (length (input (at_one p e))) ?q"
    using finish_loc [of "at_one p e" q' mk' c' n x] assms(2) OK mk' by (auto split: option.split)
  then have "finish_execute (at_one p e) (next_byte s') = Return 1 ?q" by (simp add: s(2))
  moreover have "?q = q\<lparr>hp_data := ahead e (Suc p) mk (hp_data q), hp_state := x, hp_nread := of_nat n\<rparr>"
  proof (cases mk)
    case None
    with T mk' have "psim (hp_data q) q q'" by (simp add: tsim_None)
    from psim_result [OF this] None mk' show ?thesis by (cases q) (simp add: ahead_def psim_def)
  next
    case (Some mA)
    then obtain m A where m: "mk = Some (m, A)" "mk' = Some (m, 0)" "A \<le> p"
      using mk' T by (cases mA) (auto simp: tsim_def)
    let ?b = "take (Suc p - A) (drop A (input e))"
    have "?b \<noteq> []" using m(3) assms(3) by simp
    then have ahead: "ahead e (Suc p) mk d = piece m ?b d" for d by (simp add: ahead_def delivered_def m(1))
    have "tsim e p None (flushed m ?b x q) None (flushed m [input e ! p] x q')"
      using flushed_sim [OF T [unfolded m(1,2)] assms(3), of 1 x x] by simp
    then have P: "psim (hp_data (flushed m ?b x q)) (flushed m ?b x q) (flushed m [input e ! p] x q')"
      by (simp add: tsim_None)
    have "?q = (flushed m ?b x q)\<lparr>hp_nread := of_nat n, hp_state := x\<rparr>"
      using psim_result [OF P] m(2) by simp
    also have "\<dots> = q\<lparr>hp_data := piece m ?b (hp_data q), hp_state := x, hp_nread := of_nat n\<rparr>"
      using no_data_cb [of m] by (cases q) (auto simp: flushed_def)
    finally show ?thesis by (simp add: ahead)
  qed
  moreover have "\<forall>m A. mk = Some (m, A) \<longrightarrow> A < Suc p" using T by (auto simp: tsim_def)
  ultimately show ?thesis
    using s(1) n mk tsim_errno [OF T] tsim_lenient [OF T] unfolding bsim_def by blast
qed

text \<open>What the calls on the byte and on the whole input, from the byte on, have in common.\<close>

definition byte_ok :: "'u env \<Rightarrow> nat \<Rightarrow> 'u outcome option \<Rightarrow> 'u outcome option \<Rightarrow> bool" where
  "byte_ok e p r r' \<longleftrightarrow>
     (\<forall>j q''. r' = Some (Return j q'') \<longrightarrow>
        (\<exists>c n x mk q. j = 1 \<and> agree r (execute_loop e (loc c (Suc p) n x mk q)) \<and> bsim e (Suc p) n x mk q q'') \<or>
        j \<le> 1 \<and> (hp_http_errno q'' \<noteq> HPE_OK \<or> hp_upgrade q'') \<and> (\<exists>q. r = Some (Return (p + j) q) \<and> same_result q'' q))"

text \<open>Bytes that the switch treats alike in both calls.\<close>

lemma byte_ok_switch:
  assumes "settings e = st" and "p < length (input e)" and bound: "n + (length (input e) - p) \<le> unat (max_header_size e)"
    and sim: "osim e p (exec_switch e (loc (input e ! p) p (counted x n) x mk q))
      (exec_switch (at_one p e) (loc (input e ! p) 0 (counted x n) x mk' q'))"
  shows "byte_ok e p (execute_loop e (loc c p n x mk q)) (execute_loop (at_one p e) (loc c' 0 n x mk' q'))"
  unfolding byte_ok_def
proof (intro allI impI)
  fix j q''
  assume ret: "execute_loop (at_one p e) (loc c' 0 n x mk' q') = Some (Return j q'')"
  let ?s = "loc (input e ! p) p (counted x n) x mk q" and ?s' = "loc (input e ! p) 0 (counted x n) x mk' q'"
  have small: "execute_loop (at_one p e) (loc c' 0 n x mk' q') = (case dispatch (at_one p e) ?s' of
       None \<Rightarrow> None
     | Some (Break s) \<Rightarrow> execute_loop (at_one p e) (next_byte s)
     | Some (Reexecute s) \<Rightarrow> None
     | Some (Return n q) \<Rightarrow> Some (Return n q)
     | Some (Abort a) \<Rightarrow> Some (Abort a))"
    using execute_loop_turn [of 0 "at_one p e" n c' x mk' q'] bound assms(2) by simp
  from ret small obtain oc' where oc': "dispatch (at_one p e) ?s' = Some oc'" by (auto split: option.splits)
  obtain oc where oc: "dispatch e ?s = Some oc" "osim e p oc oc'"
    using dispatch_sim [OF assms(1,2) sim oc'] by blast
  note big = execute_loop_turn [OF assms(2) bound, of c x mk q, unfolded oc(1)]
  show "(\<exists>c1 n1 x1 mk1 q1. j = 1 \<and> agree (execute_loop e (loc c p n x mk q)) (execute_loop e (loc c1 (Suc p) n1 x1 mk1 q1)) \<and>
      bsim e (Suc p) n1 x1 mk1 q1 q'') \<or>
    j \<le> 1 \<and> (hp_http_errno q'' \<noteq> HPE_OK \<or> hp_upgrade q'') \<and>
    (\<exists>q1. execute_loop e (loc c p n x mk q) = Some (Return (p + j) q1) \<and> same_result q'' q1)"
  proof (cases oc')
    case (Break s')
    with oc(2) obtain s where s: "oc = Break s" "lsim e p s s'" by (auto simp: osim_def)
    obtain c1 n1 x1 mk1 q1 q2 where b: "s = loc c1 p n1 x1 mk1 q1"
      "finish_execute (at_one p e) (next_byte s') = Return 1 q2" "bsim e (Suc p) n1 x1 mk1 q1 q2"
      using lsim_bsim [OF s(2) assms(1,2)] by blast
    have "ex_p s' = 0" using s(2) by (auto simp: lsim_def)
    then have "ex_p (next_byte s') = length (input (at_one p e))" by (simp add: next_byte_def)
    then have "execute_loop (at_one p e) (next_byte s') = Some (finish_execute (at_one p e) (next_byte s'))"
      by (subst execute_loop.simps) simp
    with ret small oc' Break b(2) have "j = 1" "q'' = q2" by simp_all
    moreover have "agree (execute_loop e (loc c p n x mk q)) (execute_loop e (loc c1 (Suc p) n1 x1 mk1 q1))"
      using big s(1) b(1) by simp
    ultimately show ?thesis using b(3) by blast
  next
    case (Return j' q2)
    with ret small oc' have "j' = j" "q2 = q''" by simp_all
    with oc(2) Return big show ?thesis by (auto simp: osim_def)
  qed (use ret small oc' in simp_all)
qed

text \<open>Bytes that the call on the whole input treats together with others.\<close>

lemma byte_ok_step:
  assumes "settings e = st" and "p < length (input e)"
    and big: "agree (execute_loop e s) (execute_loop e (next_byte t))"
    and small: "agree (execute_loop (at_one p e) s') (execute_loop (at_one p e) (next_byte t'))"
    and sim: "lsim e p t t'"
  shows "byte_ok e p (execute_loop e s) (execute_loop (at_one p e) s')"
  unfolding byte_ok_def
proof (intro allI impI disjI1)
  fix j q''
  assume ret: "execute_loop (at_one p e) s' = Some (Return j q'')"
  obtain c1 n1 x1 mk1 q1 q2 where b: "t = loc c1 p n1 x1 mk1 q1"
    "finish_execute (at_one p e) (next_byte t') = Return 1 q2" "bsim e (Suc p) n1 x1 mk1 q1 q2"
    using lsim_bsim [OF sim assms(1,2)] by blast
  have "ex_p t' = 0" using sim by (auto simp: lsim_def)
  then have "ex_p (next_byte t') = length (input (at_one p e))" by (simp add: next_byte_def)
  then have "execute_loop (at_one p e) (next_byte t') = Some (Return 1 q2)"
    using b(2) by (subst execute_loop.simps) simp
  moreover have "hp_http_errno q2 = HPE_OK" using b(3) by (simp add: bsim_def)
  ultimately have "j = 1" "q'' = q2" using ret small same_result_OK [of q2 q''] by (auto simp: agree_def)
  moreover have "agree (execute_loop e s) (execute_loop e (loc c1 (Suc p) n1 x1 mk1 q1))" using big b(1) by simp
  ultimately show "\<exists>c n x mk q. j = 1 \<and> agree (execute_loop e s) (execute_loop e (loc c (Suc p) n x mk q)) \<and>
      bsim e (Suc p) n x mk q q''"
    using b(3) by blast
qed

section \<open>A byte of a header name\<close>

definition both :: "('u http_parser \<Rightarrow> 'u http_parser \<Rightarrow> bool) \<Rightarrow> 'u http_parser checked \<Rightarrow> 'u http_parser checked \<Rightarrow> bool" where
  "both R r r' \<longleftrightarrow> (case r of Inl a \<Rightarrow> r' = Inl a | Inr q \<Rightarrow> \<exists>q'. r' = Inr q' \<and> R q q')"

lemma match_field_sim:
  assumes T: "tsim e k mk q mk' q'"
  shows "both (\<lambda>q q'. tsim e k mk q mk' q') (match_field str w c q) (match_field str w c q')"
  using T tsim_sel [OF T]
  by (cases "match_word str c (unat (hp_index q + 1))")
    (simp_all add: match_field_def Let_def both_def split: word_match.split)

lemma header_field_char_sim:
  assumes T: "tsim e k mk q mk' q'"
  shows "both (\<lambda>q q'. tsim e k mk q mk' q') (header_field_char c ch q) (header_field_char c ch q')"
proof (cases "hp_header_state q = h_matching_transfer_encoding")
  case True
  note M = match_field_sim [OF T, of "''transfer-encoding''" h_transfer_encoding c]
  show ?thesis
  proof (cases "match_field ''transfer-encoding'' h_transfer_encoding c q")
    case (Inl a)
    with M True tsim_sel [OF T] show ?thesis by (simp add: header_field_char_def Let_def both_def)
  next
    case (Inr q1)
    with M obtain q1' where q1': "match_field ''transfer-encoding'' h_transfer_encoding c q' = Inr q1'"
      and T1: "tsim e k mk q1 mk' q1'" by (auto simp: both_def)
    with Inr True tsim_sel [OF T] tsim_sel [OF T1] show ?thesis
      by (simp add: header_field_char_def Let_def both_def)
  qed
next
  case False
  with T tsim_sel [OF T] match_field_sim [OF T] show ?thesis
    by (cases "hp_header_state q") (simp_all add: header_field_char_def Let_def both_def)
qed

lemma at_mark:
  assumes "bsim e p n x mk q q'" and "start_mark x = Some (m, 0)"
  obtains A where "mk = Some (m, A)" "A \<le> p" "tsim e p mk q (Some (m, 0)) q'"
proof -
  have "mark_ok x mk" using assms(1) by (simp add: bsim_def)
  from start_mark_of [OF this] assms(2) obtain A where mk: "mk = Some (m, A)" "m \<noteq> M_body"
    by (auto split: option.splits if_splits)
  then have "tsim e p mk q (start_mark x) q'" by (intro bsim_tsim [OF assms(1)]) simp
  moreover have "A \<le> p" using assms(1) mk(1) by (auto simp: bsim_def)
  ultimately show thesis using that mk(1) assms(2) by simp
qed

lemma byte_header_field:
  assumes b: "bsim e p n s_header_field mk q q'" and "settings e = st" and "p < length (input e)"
  shows "byte_ok e p (execute_loop e (loc c p n s_header_field mk q))
    (execute_loop (at_one p e) (loc c' 0 n s_header_field (start_mark s_header_field) q'))"
proof -
  let ?ch = "input e ! p" and ?mk' = "Some (M_header_field, 0)"
  have start: "start_mark s_header_field = ?mk'" by (simp add: start_mark_def)
  obtain A where mk: "mk = Some (M_header_field, A)" "A \<le> p" and T: "tsim e p mk q ?mk' q'"
    using b start by (rule at_mark)
  have bound: "n + (length (input e) - p) \<le> unat (max_header_size e)" using b by (simp add: bsim_def)
  have R: "ready e p (Suc n)" using bsim_ready [OF b assms(2,3)] by simp
  have bound1: "Suc n + (length (input e) - Suc p) \<le> unat (max_header_size e)" using readyD(3) [OF R] .
  have sw: "exec_switch e (loc ?ch p (Suc n) s_header_field mk q) = field_exit e p (Suc n) mk (header_field_loop e p ?ch q)"
    by (rule exec_header_field_exit [OF assms(3) bound1])
  have sw': "exec_switch (at_one p e) (loc ?ch 0 (Suc n) s_header_field ?mk' q') =
      field_exit (at_one p e) 0 (Suc n) ?mk' (header_field_loop (at_one p e) 0 ?ch q')"
    by (rule exec_header_field_exit) (use bound1 in simp_all)
  have switch: "byte_ok e p (execute_loop e (loc c p n s_header_field mk q))
      (execute_loop (at_one p e) (loc c' 0 n s_header_field ?mk' q'))"
    if "osim e p (field_exit e p (Suc n) mk (header_field_loop e p ?ch q))
        (field_exit (at_one p e) 0 (Suc n) ?mk' (header_field_loop (at_one p e) 0 ?ch q'))"
    using that by (intro byte_ok_switch [OF assms(2,3) bound]) (simp only: counted_field sw sw')
  show ?thesis
  proof (cases "TOKEN ?ch = NUL")
    case True
    then have "header_field_loop e p ?ch q = Inr (p, ?ch, q)" "header_field_loop (at_one p e) 0 ?ch q' = Inr (0, ?ch, q')"
      using assms(3) by (subst header_field_loop.simps, simp)+
    then have "osim e p (field_exit e p (Suc n) mk (header_field_loop e p ?ch q))
        (field_exit (at_one p e) 0 (Suc n) ?mk' (header_field_loop (at_one p e) 0 ?ch q'))"
      using assms(3) T R mk(1)
      by (auto simp: field_exit_def CALLBACK_DATA_def mark_ok_None url_mark_states_def intro!: osim_data0)
    then show ?thesis unfolding start by (rule switch)
  next
    case token: False
    note S = header_field_char_sim [OF T, of "TOKEN ?ch" ?ch]
    show ?thesis
    proof (cases "header_field_char (TOKEN ?ch) ?ch q")
      case (Inl a)
      with S have "header_field_loop e p ?ch q = Inl a" "header_field_loop (at_one p e) 0 ?ch q' = Inl a"
        using assms(3) token by (subst header_field_loop.simps, simp add: both_def)+
      then show ?thesis unfolding start by (intro switch) (simp add: field_exit_def)
    next
      case (Inr q1)
      with S obtain q1' where q1': "header_field_char (TOKEN ?ch) ?ch q' = Inr q1'" and T1: "tsim e p mk q1 ?mk' q1'"
        by (auto simp: both_def)
      have big: "execute_loop e (loc c p n s_header_field mk q) = execute_loop e (next_byte (loc ?ch p (Suc n) s_header_field mk q1))"
        using execute_loop_field [OF assms(3) bound token Inr] assms(2) by simp
      have small: "execute_loop (at_one p e) (loc c' 0 n s_header_field ?mk' q') =
          execute_loop (at_one p e) (next_byte (loc ?ch 0 (Suc n) s_header_field ?mk' q1'))"
        using execute_loop_field [of 0 "at_one p e" n q' q1'] bound1 token q1' by simp
      have "lsim e p (loc ?ch p (Suc n) s_header_field mk q1) (loc ?ch 0 (Suc n) s_header_field ?mk' q1')"
        using R T1 mk(1) by (intro lsim_ready) (simp_all add: mark_states_def)
      from byte_ok_step [OF assms(2,3) _ _ this] big small show ?thesis unfolding start by simp
    qed
  qed
qed

section \<open>A byte of a header value\<close>

definition hv_both :: "('u http_parser \<Rightarrow> 'u http_parser \<Rightarrow> bool) \<Rightarrow> 'u hv_step \<Rightarrow> 'u hv_step \<Rightarrow> bool" where
  "hv_both R r r' \<longleftrightarrow> (case r of HV_go h q \<Rightarrow> \<exists>q'. r' = HV_go h q' \<and> R q q' | _ \<Rightarrow> r' = r)"

lemma match_value_sim:
  assumes T: "tsim e k mk q mk' q'"
  shows "hv_both (\<lambda>q q'. tsim e k mk q mk' q') (match_value str h t w c q) (match_value str h t w c q')"
  using T tsim_sel [OF T]
  by (cases "match_word str c (unat (hp_index q + 1))")
    (simp_all add: match_value_def Let_def hv_both_def split: word_match.split)

lemma content_length_digit_sim:
  assumes T: "tsim e k mk q mk' q'"
  shows "hv_both (\<lambda>q q'. tsim e k mk q mk' q') (content_length_digit ch q) (content_length_digit ch q')"
  using T tsim_sel [OF T] by (simp add: content_length_digit_def Let_def hv_both_def)

lemma header_value_char_sim:
  assumes T: "tsim e k mk q mk' q'"
  shows "hv_both (\<lambda>q q'. tsim e k mk q mk' q') (header_value_char ch h q) (header_value_char ch h q')"
  using T tsim_sel [OF T] match_value_sim [OF T] content_length_digit_sim [OF T]
  by (cases h) (simp_all add: header_value_char_def Let_def hv_both_def)

lemma value_flush_sim:
  assumes "ready e k n" and T: "tsim e k (Some (M_header_value, A)) q (Some (M_header_value, 0)) q'"
  shows "tsim e k None (value_flush e A k h q) None (value_flush (at_one k e) 0 0 h q')"
proof -
  have T1: "tsim e k (Some (M_header_value, A)) (q\<lparr>hp_header_state := h\<rparr>) (Some (M_header_value, 0)) (q'\<lparr>hp_header_state := h\<rparr>)"
    using T by simp
  from flushed_sim [OF T1 readyD(2) [OF assms(1)], of 0 s_header_almost_done s_header_almost_done]
  show ?thesis by (simp add: value_flush_def)
qed

lemma byte_header_value:
  assumes b: "bsim e p n s_header_value mk q q'" and "settings e = st" and "p < length (input e)"
  shows "byte_ok e p (execute_loop e (loc c p n s_header_value mk q))
    (execute_loop (at_one p e) (loc c' 0 n s_header_value (start_mark s_header_value) q'))"
proof -
  let ?ch = "input e ! p" and ?mk' = "Some (M_header_value, 0)" and ?h = "hp_header_state q"
  have start: "start_mark s_header_value = ?mk'" by (simp add: start_mark_def)
  obtain A where mk: "mk = Some (M_header_value, A)" "A \<le> p" and T: "tsim e p mk q ?mk' q'"
    using b start by (rule at_mark)
  have bound: "n + (length (input e) - p) \<le> unat (max_header_size e)" using b by (simp add: bsim_def)
  have R: "ready e p (Suc n)" using bsim_ready [OF b assms(2,3)] by simp
  have bound1: "Suc n + (length (input e) - Suc p) \<le> unat (max_header_size e)" using readyD(3) [OF R] .
  have h': "hp_header_state q' = ?h" using tsim_sel(2) [OF T] .
  have sw: "exec_switch e (loc ?ch p (Suc n) s_header_value mk q) = value_exit e ?ch p (Suc n) A (header_value_loop e p ?h q)"
    unfolding mk(1) by (rule exec_header_value_exit [OF assms(2,3) bound1 mk(2)])
  have sw': "exec_switch (at_one p e) (loc ?ch 0 (Suc n) s_header_value ?mk' q') =
      value_exit (at_one p e) ?ch 0 (Suc n) 0 (header_value_loop (at_one p e) 0 ?h q')"
    unfolding h' [symmetric] by (rule exec_header_value_exit) (use assms(2) bound1 in simp_all)
  have switch: "byte_ok e p (execute_loop e (loc c p n s_header_value mk q))
      (execute_loop (at_one p e) (loc c' 0 n s_header_value ?mk' q'))"
    if "osim e p (value_exit e ?ch p (Suc n) A (header_value_loop e p ?h q))
        (value_exit (at_one p e) ?ch 0 (Suc n) 0 (header_value_loop (at_one p e) 0 ?h q'))"
    using that by (intro byte_ok_switch [OF assms(2,3) bound]) (simp only: counted_field sw sw')
  have small: "0 < length (input (at_one p e))" "input (at_one p e) ! 0 = ?ch" by simp_all
  have OK: "hp_http_errno q = HPE_OK" "hp_http_errno q' = HPE_OK"
    using tsim_errno [OF T] tsim_sel(10) [OF T] by simp_all
  note F = value_flush_sim [OF R T [unfolded mk(1)]]
  have almost: "s_header_almost_done \<notin> boundary_states" "mark_ok s_header_almost_done None"
    by (simp_all add: boundary_states_def mark_ok_None url_mark_states_def)
  show ?thesis
  proof (cases "value_byte e ?ch")
    case False
    then have stop: "\<not> value_byte (at_one p e) (input (at_one p e) ! 0)" by (simp add: value_byte_def)
    have "osim e p (value_exit e ?ch p (Suc n) A (header_value_loop e p ?h q))
        (value_exit (at_one p e) ?ch 0 (Suc n) 0 (header_value_loop (at_one p e) 0 ?h q'))"
      unfolding header_value_loop_stop [OF assms(3) False] header_value_loop_stop [OF small(1) stop]
      using R T F OK almost mk(1) by (simp add: value_exit_def)
    then show ?thesis unfolding start by (rule switch)
  next
    case True
    then have byte: "value_byte (at_one p e) (input (at_one p e) ! 0)" by (simp add: value_byte_def)
    note S = header_value_char_sim [OF T, of ?ch ?h]
    show ?thesis
    proof (cases "header_value_char ?ch ?h q")
      case (HV_go h q1)
      with S obtain q1' where q1': "header_value_char ?ch ?h q' = HV_go h q1'" and T1: "tsim e p mk q1 ?mk' q1'"
        by (auto simp: hv_both_def)
      have big: "agree (execute_loop e (loc c p n s_header_value mk q))
          (execute_loop e (next_byte (loc ?ch p (Suc n) s_header_value mk (q1\<lparr>hp_header_state := h\<rparr>))))"
        unfolding mk(1) next_byte_loc by (rule execute_loop_value [OF assms(2,3) bound mk(2) True HV_go])
      have small: "agree (execute_loop (at_one p e) (loc c' 0 n s_header_value ?mk' q'))
          (execute_loop (at_one p e) (next_byte (loc ?ch 0 (Suc n) s_header_value ?mk' (q1'\<lparr>hp_header_state := h\<rparr>))))"
        unfolding next_byte_loc
        by (rule execute_loop_value) (use assms(2) bound1 byte q1' h' in \<open>simp_all only: at_one_simps small, simp_all\<close>)
      have "lsim e p (loc ?ch p (Suc n) s_header_value mk (q1\<lparr>hp_header_state := h\<rparr>))
          (loc ?ch 0 (Suc n) s_header_value ?mk' (q1'\<lparr>hp_header_state := h\<rparr>))"
        using R T1 mk(1) by (intro lsim_ready) (simp_all add: mark_states_def)
      from byte_ok_step [OF assms(2,3) big small this] show ?thesis unfolding start .
    next
      case bad: (HV_bad er h)
      have er: "er \<noteq> HPE_OK" using header_value_char_upto [of undefined ?ch ?h q] bad by (simp add: hv_step_upto_def)
      have h: "?h \<noteq> h_general" using bad by auto
      show ?thesis unfolding start
        using S bad er T h assms(3) byte True R mk(1)
        by (intro switch) (simp add: header_value_loop_char hv_both_def value_exit_def)
    next
      case bad: HV_assert
      have h: "?h \<noteq> h_general" using bad by auto
      show ?thesis unfolding start
        using S bad h assms(3) byte True
        by (intro switch) (simp add: header_value_loop_char hv_both_def value_exit_def)
    next
      case bad: HV_bounds
      have h: "?h \<noteq> h_general" using bad by auto
      show ?thesis unfolding start
        using S bad h assms(3) byte True
        by (intro switch) (simp add: header_value_loop_char hv_both_def value_exit_def)
    qed
  qed
qed

section \<open>A byte of a body\<close>

definition body_states :: "pstate set" where
  "body_states = {s_body_identity, s_body_identity_eof, s_chunk_data, s_chunk_data_almost_done}"

lemma at_body:
  assumes b: "bsim e p n x mk q q'" and "x \<in> body_states"
  shows "start_mark x = None" "body_marked p mk" "tsim e p (Some (M_body, body_start p mk)) q (Some (M_body, 0)) q'"
proof -
  show "start_mark x = None" using assms(2) by (auto simp: start_mark_def body_states_def url_mark_states_def)
  have m: "m = M_body" if "x \<in> mark_states m" for m
    using assms(2) that by (cases m) (auto simp: mark_states_def body_states_def url_mark_states_def)
  then have mk: "mk = None \<or> (\<exists>A. mk = Some (M_body, A) \<and> A < p)"
    using b by (cases mk) (auto simp: bsim_def)
  then show "body_marked p mk" by (auto simp: body_marked_def)
  from mk show "tsim e p (Some (M_body, body_start p mk)) q (Some (M_body, 0)) q'"
  proof
    assume "mk = None"
    with bsim_tsim [OF b] have "tsim e p None q (start_mark x) q'" by simp
    from tsim_mark [OF this, of M_body] \<open>mk = None\<close> show ?thesis by (simp add: body_start_def)
  next
    assume "\<exists>A. mk = Some (M_body, A) \<and> A < p"
    with b bsim_psim [OF b] show ?thesis by (auto simp: tsim_def bsim_def body_start_def)
  qed
qed

lemma body_read_sim:
  assumes T: "tsim e k mk q mk' q'"
  shows "tsim e k mk (body_read j q) mk' (body_read j q')"
  using T tsim_sel(5) [OF T] by (simp add: body_read_def)

lemma exec_body_assert:
  assumes "hp_content_length q = 0 \<or> hp_content_length q = ULLONG_MAX"
  shows "exec_switch e (loc c p n s_body_identity mk q) = Abort Assertion"
    and "exec_switch e (loc c p n s_chunk_data mk q) = Abort Assertion"
  using assms by (auto simp: exec_switch_def exec_body_identity_def exec_chunk_data_def assert_that_def)

lemma byte_body_identity:
  assumes b: "bsim e p n s_body_identity mk q q'" and "settings e = st" and "p < length (input e)"
    and len: "length (input e) < 2 ^ 64"
  shows "byte_ok e p (execute_loop e (loc c p n s_body_identity mk q))
    (execute_loop (at_one p e) (loc c' 0 n s_body_identity (start_mark s_body_identity) q'))"
proof -
  let ?A = "body_start p mk" and ?ch = "input e ! p"
  have x: "s_body_identity \<in> body_states" by (simp add: body_states_def)
  note body = at_body [OF b x] and T = at_body(3) [OF b x]
  have bound: "n + (length (input e) - p) \<le> unat (max_header_size e)" using b by (simp add: bsim_def)
  have R: "ready e p n" using bsim_ready [OF b assms(2,3)] by simp
  have OK: "hp_http_errno q = HPE_OK" "hp_http_errno q' = HPE_OK"
    using tsim_errno [OF T] tsim_sel(10) [OF T] by simp_all
  have cl': "hp_content_length q' = hp_content_length q" using tsim_sel(5) [OF T] .
  have small: "settings (at_one p e) = st" "0 < length (input (at_one p e))" "length (input (at_one p e)) < 2 ^ 64"
    "n + (length (input (at_one p e)) - 0) \<le> unat (max_header_size (at_one p e))" "body_marked 0 None"
    using assms(2,3) bound by (simp_all add: body_marked_def)
  have switch: "byte_ok e p (execute_loop e (loc c p n s_body_identity mk q))
      (execute_loop (at_one p e) (loc c' 0 n s_body_identity None q'))"
    if "osim e p (exec_switch e (loc ?ch p n s_body_identity mk q)) (exec_switch (at_one p e) (loc ?ch 0 n s_body_identity None q'))"
    using that by (intro byte_ok_switch [OF assms(2,3) bound]) (simp only: counted_body)
  show ?thesis
  proof (cases "hp_content_length q = 0 \<or> hp_content_length q = ULLONG_MAX")
    case True
    then show ?thesis unfolding body(1) by (intro switch) (simp add: exec_body_assert cl')
  next
    case False
    then have cl: "hp_content_length q \<noteq> 0" "hp_content_length q \<noteq> ULLONG_MAX" by simp_all
    then have nz: "unat (hp_content_length q) \<noteq> 0" by (simp add: unat_eq_zero)
    show ?thesis
    proof (cases "unat (hp_content_length q) = 1")
      case True
      have k: "1 = min (unat (hp_content_length q)) (length (input e) - p)" using True assms(3) by simp
      have k': "1 = min (unat (hp_content_length q')) (length (input (at_one p e)) - 0)" using True cl' by simp
      note sw = exec_body_exit [OF assms(2,3) len body(2) OK(1) k cl, of ?ch n]
      note sw' = exec_body_exit [OF small(1-3,5) OK(2) k' cl [folded cl'], of ?ch n]
      have "tsim e p None (body_done e ?A (p + 1) (body_read 1 q)) None (body_done (at_one p e) 0 1 (body_read 1 q'))"
        using flushed_sim [OF body_read_sim [OF T] assms(3), of 1 s_message_done 1 s_message_done] by (simp add: body_done_def)
      then have "osim e p (exec_switch e (loc ?ch p n s_body_identity mk q)) (exec_switch (at_one p e) (loc ?ch 0 n s_body_identity None q'))"
        unfolding sw sw' using True cl' R
        by (simp add: body_start_def boundary_states_def mark_ok_None url_mark_states_def)
      then show ?thesis unfolding body(1) by (rule switch)
    next
      case False
      with nz have two: "2 \<le> unat (hp_content_length q)" by simp
      have big: "execute_loop e (loc c p n s_body_identity mk q) =
          execute_loop e (next_byte (loc ?ch p n s_body_identity (body_mark_at p mk) (body_read 1 q)))"
        unfolding next_byte_loc by (rule execute_loop_body [OF assms(2,3) len bound body(2) OK(1) two cl(2)])
      have small: "execute_loop (at_one p e) (loc c' 0 n s_body_identity None q') =
          execute_loop (at_one p e) (next_byte (loc ?ch 0 n s_body_identity (body_mark_at 0 None) (body_read 1 q')))"
        unfolding next_byte_loc by (rule execute_loop_body [OF small OK(2)]) (use two cl cl' in simp_all)
      have "lsim e p (loc ?ch p n s_body_identity (body_mark_at p mk) (body_read 1 q))
          (loc ?ch 0 n s_body_identity (body_mark_at 0 None) (body_read 1 q'))"
        unfolding body_mark_at_start [OF body(2)]
        using R body_read_sim [OF T] by (simp add: body_mark_at_def mark_states_def)
      from byte_ok_step [OF assms(2,3) _ _ this] show ?thesis unfolding body(1) big small by simp
    qed
  qed
qed

lemma byte_chunk_data:
  assumes b: "bsim e p n s_chunk_data mk q q'" and "settings e = st" and "p < length (input e)"
    and len: "length (input e) < 2 ^ 64"
  shows "byte_ok e p (execute_loop e (loc c p n s_chunk_data mk q))
    (execute_loop (at_one p e) (loc c' 0 n s_chunk_data (start_mark s_chunk_data) q'))"
proof -
  let ?A = "body_start p mk" and ?ch = "input e ! p"
  have x: "s_chunk_data \<in> body_states" by (simp add: body_states_def)
  note body = at_body [OF b x] and T = at_body(3) [OF b x]
  have bound: "n + (length (input e) - p) \<le> unat (max_header_size e)" using b by (simp add: bsim_def)
  have R: "ready e p n" using bsim_ready [OF b assms(2,3)] by simp
  have cl': "hp_content_length q' = hp_content_length q" "hp_flags q' = hp_flags q" using tsim_sel(4,5) [OF T] by simp_all
  have small: "0 < length (input (at_one p e))" "length (input (at_one p e)) < 2 ^ 64"
    "n + (length (input (at_one p e)) - 0) \<le> unat (max_header_size (at_one p e))" "body_marked 0 None"
    using assms(3) bound by (simp_all add: body_marked_def)
  have switch: "byte_ok e p (execute_loop e (loc c p n s_chunk_data mk q))
      (execute_loop (at_one p e) (loc c' 0 n s_chunk_data None q'))"
    if "osim e p (exec_switch e (loc ?ch p n s_chunk_data mk q)) (exec_switch (at_one p e) (loc ?ch 0 n s_chunk_data None q'))"
    using that by (intro byte_ok_switch [OF assms(2,3) bound]) (simp only: counted_body)
  show ?thesis
  proof (cases "has_flag (hp_flags q) F_CHUNKED \<and> hp_content_length q \<noteq> 0 \<and> hp_content_length q \<noteq> ULLONG_MAX")
    case False
    then have "exec_switch e (loc ?ch p n s_chunk_data mk q) = Abort Assertion"
      "exec_switch (at_one p e) (loc ?ch 0 n s_chunk_data None q') = Abort Assertion"
      using cl' by (auto simp: exec_switch_def exec_chunk_data_def assert_that_def is_chunked_def)
    then show ?thesis unfolding body(1) by (intro switch) simp
  next
    case True
    then have cl: "hp_content_length q \<noteq> 0" "hp_content_length q \<noteq> ULLONG_MAX" "has_flag (hp_flags q) F_CHUNKED" by simp_all
    then have nz: "unat (hp_content_length q) \<noteq> 0" by (simp add: unat_eq_zero)
    show ?thesis
    proof (cases "unat (hp_content_length q) = 1")
      case True
      have k: "1 = min (unat (hp_content_length q)) (length (input e) - p)" using True assms(3) by simp
      have k': "1 = min (unat (hp_content_length q')) (length (input (at_one p e)) - 0)" using True cl' by simp
      note sw = exec_chunk_exit [OF assms(3) len body(2) k cl, of ?ch n]
      note sw' = exec_chunk_exit [OF small(1,2,4) k' cl [folded cl'], of ?ch n]
      have "osim e p (exec_switch e (loc ?ch p n s_chunk_data mk q)) (exec_switch (at_one p e) (loc ?ch 0 n s_chunk_data None q'))"
        unfolding sw sw' body_mark_at_start [OF body(2)]
        using True cl' R body_read_sim [OF T] by (simp add: body_mark_at_def mark_states_def)
      then show ?thesis unfolding body(1) by (rule switch)
    next
      case False
      with nz have two: "2 \<le> unat (hp_content_length q)" by simp
      have big: "execute_loop e (loc c p n s_chunk_data mk q) =
          execute_loop e (next_byte (loc ?ch p n s_chunk_data (body_mark_at p mk) (body_read 1 q)))"
        unfolding next_byte_loc by (rule execute_loop_chunk [OF assms(3) len bound body(2) cl(3) two cl(2)])
      have small: "execute_loop (at_one p e) (loc c' 0 n s_chunk_data None q') =
          execute_loop (at_one p e) (next_byte (loc ?ch 0 n s_chunk_data (body_mark_at 0 None) (body_read 1 q')))"
        unfolding next_byte_loc by (rule execute_loop_chunk [OF small]) (use two cl cl' in simp_all)
      have "lsim e p (loc ?ch p n s_chunk_data (body_mark_at p mk) (body_read 1 q))
          (loc ?ch 0 n s_chunk_data (body_mark_at 0 None) (body_read 1 q'))"
        unfolding body_mark_at_start [OF body(2)]
        using R body_read_sim [OF T] by (simp add: body_mark_at_def mark_states_def)
      from byte_ok_step [OF assms(2,3) _ _ this] show ?thesis unfolding body(1) big small by simp
    qed
  qed
qed

lemma byte_body_eof:
  assumes b: "bsim e p n s_body_identity_eof mk q q'" and "settings e = st" and "p < length (input e)"
  shows "byte_ok e p (execute_loop e (loc c p n s_body_identity_eof mk q))
    (execute_loop (at_one p e) (loc c' 0 n s_body_identity_eof (start_mark s_body_identity_eof) q'))"
proof -
  let ?ch = "input e ! p"
  have x: "s_body_identity_eof \<in> body_states" by (simp add: body_states_def)
  note body = at_body [OF b x] and T = at_body(3) [OF b x]
  have bound: "n + (length (input e) - p) \<le> unat (max_header_size e)" using b by (simp add: bsim_def)
  have R: "ready e p n" using bsim_ready [OF b assms(2,3)] by simp
  have big: "execute_loop e (loc c p n s_body_identity_eof mk q) =
      execute_loop e (next_byte (loc ?ch p n s_body_identity_eof (body_mark_at p mk) q))"
    unfolding next_byte_loc by (rule execute_loop_eof [OF assms(3) bound body(2)])
  have small: "execute_loop (at_one p e) (loc c' 0 n s_body_identity_eof None q') =
      execute_loop (at_one p e) (next_byte (loc ?ch 0 n s_body_identity_eof (body_mark_at 0 None) q'))"
    unfolding next_byte_loc by (rule execute_loop_eof) (use bound assms(3) in \<open>simp_all add: body_marked_def\<close>)
  have "lsim e p (loc ?ch p n s_body_identity_eof (body_mark_at p mk) q)
      (loc ?ch 0 n s_body_identity_eof (body_mark_at 0 None) q')"
    unfolding body_mark_at_start [OF body(2)] using R T by (simp add: body_mark_at_def mark_states_def)
  from byte_ok_step [OF assms(2,3) _ _ this] show ?thesis unfolding body(1) big small by simp
qed

text \<open>After the data of a chunk the body's mark is not set again, all has been delivered.\<close>

lemma byte_chunk_data_almost_done:
  assumes b: "bsim e p n s_chunk_data_almost_done mk q q'" and "settings e = st" and "p < length (input e)"
  shows "byte_ok e p (execute_loop e (loc c p n s_chunk_data_almost_done mk q))
    (execute_loop (at_one p e) (loc c' 0 n s_chunk_data_almost_done (start_mark s_chunk_data_almost_done) q'))"
proof -
  let ?A = "body_start p mk" and ?ch = "input e ! p"
  have x: "s_chunk_data_almost_done \<in> body_states" by (simp add: body_states_def)
  note body = at_body [OF b x] and T = at_body(3) [OF b x]
  have bound: "n + (length (input e) - p) \<le> unat (max_header_size e)" using b by (simp add: bsim_def)
  have R: "ready e p n" using bsim_ready [OF b assms(2,3)] by simp
  have OK: "hp_http_errno q = HPE_OK" "hp_http_errno q' = HPE_OK"
    using tsim_errno [OF T] tsim_sel(10) [OF T] by simp_all
  have sel: "hp_content_length q' = hp_content_length q" "hp_flags q' = hp_flags q" using tsim_sel(4,5) [OF T] by simp_all
  let ?q = "case mk of None \<Rightarrow> q | Some (m, A) \<Rightarrow> flushed m (take (p - A) (drop A (input e))) s_chunk_data_done q"
  have data: "CALLBACK_DATA_AT M_body p er e (loc d p n s_chunk_data_done mk q) Break = Break (loc d p n s_chunk_data_done None ?q)" for er d
    by (subst data_macro) (use assms(2,3) OK body(2) in \<open>auto simp: body_marked_def\<close>)
  have data': "CALLBACK_DATA_AT M_body 0 er (at_one p e) (loc d 0 n s_chunk_data_done None q') Break =
      Break (loc d 0 n s_chunk_data_done None q')" for er d
    using OK by (simp add: CALLBACK_DATA_AT_def)
  have TN: "tsim e p None ?q None q'"
  proof (cases mk)
    case None
    with bsim_tsim [OF b] show ?thesis by (simp add: body(1))
  next
    case (Some mA)
    with b body(2) obtain A where mk: "mk = Some (M_body, A)" "A < p" by (auto simp: body_marked_def bsim_def)
    let ?u = "take (p - A) (drop A (input e))"
    have "?u \<noteq> []" using mk(2) assms(3) by simp
    then have "psim (piece M_body ?u (hp_data q)) q q'"
      using bsim_psim [OF b] mk(1) by (simp add: ahead_def delivered_def)
    moreover have "piece M_body ?u (hp_data q) = hp_data q" if "mark_cb M_body st = None"
      using no_data_cb [OF that] .
    ultimately show ?thesis using OK tsim_lenient [OF T] mk(1)
      by (auto simp: tsim_None flushed_def intro: psim_data_left)
  qed
  have "osim e p (exec_switch e (loc ?ch p n s_chunk_data_almost_done mk q))
      (exec_switch (at_one p e) (loc ?ch 0 n s_chunk_data_almost_done None q'))"
    using R TN osim_fail [OF tsim_psim [OF T]] sel
    by (simp add: exec_switch_def exec_chunk_data_almost_done_def is_chunked_loc assert_that_def STRICT_CHECK_def
        CALLBACK_DATA_def UPDATE_STATE_def data data' mark_ok_None url_mark_states_def del: get_mark.simps)
  then show ?thesis unfolding body(1) by (intro byte_ok_switch [OF assms(2,3) bound]) (simp only: counted_body)
qed

section \<open>A byte of any state\<close>

lemma byte_sim:
  assumes b: "bsim e p n x mk q q'" and "settings e = st" and "p < length (input e)" and "length (input e) < 2 ^ 64"
  shows "byte_ok e p (execute_loop e (loc c p n x mk q)) (execute_loop (at_one p e) (loc c' 0 n x (start_mark x) q'))"
proof (cases "x \<in> boundary_states")
  case True
  then show ?thesis using assms byte_header_field byte_header_value byte_body_identity byte_chunk_data byte_body_eof
      byte_chunk_data_almost_done
    by (auto simp: boundary_states_def)
next
  case False
  have bound: "n + (length (input e) - p) \<le> unat (max_header_size e)" and ok: "mark_ok x mk" using b by (simp_all add: bsim_def)
  have "mk \<noteq> Some (M_body, A)" for A
    using ok False by (auto simp: mark_states_def boundary_states_def)
  then have T: "tsim e p mk q (start_mark x) q'" by (intro bsim_tsim [OF b]) simp
  show ?thesis
    by (rule byte_ok_switch [OF assms(2,3) bound])
      (rule switch_sim [OF bsim_ready [OF b assms(2,3)] T ok False])
qed

end

section \<open>Feeding a parser with reads\<close>

text \<open>
  The loop of a user of the parser: each read is given to \<^verbatim>\<open>http_parser_execute\<close>, until one is
  not consumed as a whole, an error is stored or the connection is upgraded. The result is that of
  the last call, with the number of bytes consumed in all.
\<close>

definition shift_return :: "nat \<Rightarrow> 'u outcome option \<Rightarrow> 'u outcome option" where
  "shift_return k r = (case r of Some (Return n q) \<Rightarrow> Some (Return (k + n) q) | _ \<Rightarrow> r)"

fun feed :: "32 word \<Rightarrow> 'u http_parser_settings \<Rightarrow> 'u http_parser \<Rightarrow> string list \<Rightarrow> 'u outcome option" where
  "feed mx st q [] = Some (Return 0 q)"
| "feed mx st q (r # rs) =
     (case http_parser_execute mx st q r of
        Some (Return n q') \<Rightarrow>
          if n = length r \<and> hp_http_errno q' = HPE_OK \<and> \<not> hp_upgrade q'
          then shift_return n (feed mx st q' rs)
          else Some (Return n q')
      | oc \<Rightarrow> oc)"

definition bytes :: "string \<Rightarrow> string list" where
  "bytes d = map (\<lambda>c. [c]) d"

context streaming_callbacks begin

text \<open>One byte of the feeding.\<close>

lemma feed_one:
  assumes "bsim e p n x mk q q'" and e: "settings e = st" "length (input e) < 2 ^ 64" and p: "p < length (input e)"
    and "http_parser_execute (max_header_size e) st q' [input e ! p] = Some (Return i q1)"
  shows "(\<exists>c1 n1 x1 mk1 q2. i = 1 \<and> agree (execute_loop e (loc c p n x mk q)) (execute_loop e (loc c1 (Suc p) n1 x1 mk1 q2)) \<and>
       bsim e (Suc p) n1 x1 mk1 q2 q1) \<or>
     i \<le> 1 \<and> (hp_http_errno q1 \<noteq> HPE_OK \<or> hp_upgrade q1) \<and>
       (\<exists>q2. execute_loop e (loc c p n x mk q) = Some (Return (p + i) q2) \<and> same_result q1 q2)"
proof -
  let ?ch = "input e ! p"
  have q': "hp_http_errno q' = HPE_OK" "hp_state q' = x" "hp_lenient_http_headers q' = lenient e"
    "hp_nread q' = of_nat n"
    using assms(1) by (simp_all add: bsim_def)
  have "n \<le> unat (max_header_size e)" using assms(1) by (simp add: bsim_def)
  then have "n < 2 ^ 32" using unsigned_less [of "max_header_size e", where 'a = nat] by simp
  then have "unat (hp_nread q') = n" using q'(4) by (simp add: unat_of_nat take_bit_eq_mod)
  then have start: "start_locals q' = loc NUL 0 n x (start_mark x) q'"
    using start_locals_loc [of q'] q'(2) by simp
  have env: "mk_env (max_header_size e) st q' [?ch] = at_one p e"
    using e(1) q'(3) by (cases e) (simp add: mk_env_def at_one_def)
  have call: "http_parser_execute (max_header_size e) st q' [?ch] = execute_loop (at_one p e) (loc NUL 0 n x (start_mark x) q')"
    using q'(1) by (simp add: http_parser_execute_def env start)
  have byte: "byte_ok e p (execute_loop e (loc c p n x mk q)) (http_parser_execute (max_header_size e) st q' [?ch])"
    unfolding call by (rule byte_sim [OF assms(1) e(1) p e(2)])
  with assms(5) show ?thesis unfolding byte_ok_def by blast
qed

lemma feed_Cons_byte:
  "feed mx st q' (bytes (c # d) @ rs) =
    (case http_parser_execute mx st q' [c] of
       Some (Return i q1) \<Rightarrow>
         if i = 1 \<and> hp_http_errno q1 = HPE_OK \<and> \<not> hp_upgrade q1
         then shift_return i (feed mx st q1 (bytes d @ rs)) else Some (Return i q1)
     | oc \<Rightarrow> oc)"
  by (simp add: bytes_def split: option.split outcome.split)

lemma feed_ConsE:
  assumes "feed mx st q' (bytes (c # d) @ rs) = Some (Return j q'')"
  obtains (go) q1 j' where "http_parser_execute mx st q' [c] = Some (Return 1 q1)" "hp_http_errno q1 = HPE_OK"
      "\<not> hp_upgrade q1" "feed mx st q1 (bytes d @ rs) = Some (Return j' q'')" "j = Suc j'"
  | (stop) "http_parser_execute mx st q' [c] = Some (Return j q'')"
      "\<not> (j = 1 \<and> hp_http_errno q'' = HPE_OK \<and> \<not> hp_upgrade q'')"
  using assms unfolding feed_Cons_byte
  by (auto simp: shift_return_def split: option.splits outcome.splits if_splits)

lemma feed_bytes:
  assumes "bsim e p n x mk q q'" and e: "settings e = st" "length (input e) < 2 ^ 64"
    and "p \<le> length (input e)" and "0 < length (input e)"
    and "feed (max_header_size e) st q' (bytes (drop p (input e))) = Some (Return j q'')"
    and "hp_upgrade q'' \<Longrightarrow> p + j = length (input e)"
  shows "\<exists>q1. execute_loop e (loc c p n x mk q) = Some (Return (p + j) q1) \<and> same_result q'' q1"
  using assms(1,4,6,7)
proof (induction "length (input e) - p" arbitrary: c p n x mk q q' j)
  case 0
  let ?N = "length (input e)"
  have p: "p = ?N" using 0(1,3) by simp
  then have j: "j = 0" "q'' = q'" using 0(4) by (simp_all add: bytes_def)
  have mk: "mk = Some (m, A) \<Longrightarrow> A < ?N" for m A using 0(2) p assms(5) by (auto simp: bsim_def)
  have "finish_execute e (loc c ?N n x mk q) =
    Return ?N ((case mk of None \<Rightarrow> q | Some (m, A) \<Rightarrow> flushed m (drop A (input e)) x q)
      \<lparr>hp_nread := of_nat n, hp_state := x\<rparr>)"
    by (rule finish_loc [OF e(1)]) (use 0(2) mk less_imp_le in \<open>auto simp: bsim_def\<close>)
  also have "(case mk of None \<Rightarrow> q | Some (m, A) \<Rightarrow> flushed m (drop A (input e)) x q)
      \<lparr>hp_nread := of_nat n, hp_state := x\<rparr> = q'"
  proof (cases mk)
    case None
    with 0(2) show ?thesis by (cases q) (simp add: bsim_def ahead_def)
  next
    case (Some mA)
    then obtain m A where m: "mk = Some (m, A)" "A < ?N" using mk by (cases mA) auto
    then have "ahead e ?N mk d = piece m (drop A (input e)) d" for d by (simp add: ahead_def delivered_def)
    then show ?thesis using 0(2) p m(1) no_data_cb [of m]
      by (cases q) (auto simp: bsim_def flushed_def)
  qed
  finally have "execute_loop e (loc c ?N n x mk q) = Some (Return ?N q')" by (subst execute_loop.simps) simp
  then show ?case using p j by simp
next
  case (Suc l)
  let ?N = "length (input e)" and ?ch = "input e ! p"
  have p: "p < ?N" using Suc.hyps(2) by simp
  then have drop: "drop p (input e) = ?ch # drop (Suc p) (input e)" by (simp add: Cons_nth_drop_Suc)
  have "feed (max_header_size e) st q' (bytes (?ch # drop (Suc p) (input e)) @ []) = Some (Return j q'')"
    using Suc.prems(3) drop by simp
  then show ?case
  proof (cases rule: feed_ConsE)
    case (go q1 j')
    from feed_one [OF Suc.prems(1) e p go(1), of c] go(2,3) obtain c1 n1 x1 mk1 q2
      where big: "agree (execute_loop e (loc c p n x mk q)) (execute_loop e (loc c1 (Suc p) n1 x1 mk1 q2))"
      and b: "bsim e (Suc p) n1 x1 mk1 q2 q1" by blast
    have "feed (max_header_size e) st q1 (bytes (drop (Suc p) (input e))) = Some (Return j' q'')" using go(4) by simp
    then have "\<exists>q3. execute_loop e (loc c1 (Suc p) n1 x1 mk1 q2) = Some (Return (Suc p + j') q3) \<and> same_result q'' q3"
      by (intro Suc.hyps(1) [OF _ b]) (use Suc.hyps(2) p Suc.prems(4) go(5) in simp_all)
    with big go(5) show ?thesis by (auto simp: agree_def intro: same_result_trans)
  next
    case stop
    from feed_one [OF Suc.prems(1) e p stop(1), of c] show ?thesis
    proof
      assume "\<exists>c1 n1 x1 mk1 q2. j = 1 \<and> agree (execute_loop e (loc c p n x mk q)) (execute_loop e (loc c1 (Suc p) n1 x1 mk1 q2)) \<and>
        bsim e (Suc p) n1 x1 mk1 q2 q''"
      then obtain c1 n1 x1 mk1 q2 where go: "j = 1" "agree (execute_loop e (loc c p n x mk q)) (execute_loop e (loc c1 (Suc p) n1 x1 mk1 q2))"
        "bsim e (Suc p) n1 x1 mk1 q2 q''" by blast
      then have "hp_upgrade q''" using stop(2) by (auto simp: bsim_def)
      with Suc.prems(4) go(1) have last: "Suc p = ?N" by simp
      have "\<exists>q3. execute_loop e (loc c1 (Suc p) n1 x1 mk1 q2) = Some (Return (Suc p + 0) q3) \<and> same_result q'' q3"
        by (rule Suc.hyps(1) [OF _ go(3)]) (use Suc.hyps(2) last in \<open>simp_all add: bytes_def\<close>)
      with go(1,2) show ?thesis by (auto simp: agree_def intro: same_result_trans)
    qed blast
  qed
qed

text \<open>The call on a read, against the calls on its bytes.\<close>

lemma execute_bytes:
  assumes "hp_http_errno q = HPE_OK" and "d \<noteq> []" and "length d < 2 ^ 64"
    and "unat (hp_nread q) + length d \<le> unat mx"
    and "feed mx st q (bytes d) = Some (Return j q'')" and "hp_upgrade q'' \<Longrightarrow> j = length d"
  shows "\<exists>q1. http_parser_execute mx st q d = Some (Return j q1) \<and> same_result q'' q1"
proof -
  let ?e = "mk_env mx st q d"
  have e: "settings ?e = st" "input ?e = d" "max_header_size ?e = mx" "lenient ?e = hp_lenient_http_headers q"
    by (simp_all add: mk_env_def)
  have "bsim ?e 0 (unat (hp_nread q)) (hp_state q) (start_mark (hp_state q)) q q"
    by (rule bsim_start) (use assms(1,4) e in simp_all)
  from feed_bytes [OF this e(1), of j q'' NUL] assms(2-6) e
  have "\<exists>q1. execute_loop ?e (start_locals q) = Some (Return j q1) \<and> same_result q'' q1"
    by (simp add: start_locals_loc)
  with assms(1,2) show ?thesis by (simp add: http_parser_execute_def)
qed

text \<open>A read that is consumed and followed by others, or one with which the feeding stops.\<close>

lemma feed_prefix:
  assumes "bsim e p n x mk q q'" and e: "settings e = st" "length (input e) < 2 ^ 64"
    and "p + length r \<le> length (input e)" and "take (length r) (drop p (input e)) = r"
    and "r \<noteq> [] \<or> \<not> hp_upgrade q'"
    and "feed (max_header_size e) st q' (bytes r @ rs) = Some (Return j q'')"
  shows "(\<exists>q1 j' n x mk q. feed (max_header_size e) st q' (bytes r) = Some (Return (length r) q1) \<and> \<not> hp_upgrade q1 \<and>
       bsim e (p + length r) n x mk q q1 \<and> feed (max_header_size e) st q1 rs = Some (Return j' q'') \<and> j = length r + j') \<or>
     (feed (max_header_size e) st q' (bytes r) = Some (Return j q'') \<and> j \<le> length r \<and>
       (hp_http_errno q'' \<noteq> HPE_OK \<or> hp_upgrade q''))"
  using assms(1,4-7)
proof (induction r arbitrary: p n x mk q q' j)
  case Nil
  then show ?case by (auto simp: bytes_def)
next
  case (Cons c r)
  have p: "p < length (input e)" using Cons.prems(2) by simp
  then have c: "input e ! p = c" and r: "take (length r) (drop (Suc p) (input e)) = r"
    using Cons.prems(3) Cons_nth_drop_Suc [OF p, symmetric] by simp_all
  let ?feed = "feed (max_header_size e) st"
  note feed1 = feed_Cons_byte [of "max_header_size e" q' c r "[]", simplified append_Nil2]
  from Cons.prems(5) show ?case
  proof (cases rule: feed_ConsE)
    case (go q1 j')
    from feed_one [OF Cons.prems(1) e p, unfolded c, OF go(1)] go(2,3) obtain n1 x1 mk1 q2
      where b: "bsim e (Suc p) n1 x1 mk1 q2 q1" by blast
    have first: "?feed q' (bytes (c # r)) = shift_return 1 (?feed q1 (bytes r))"
      unfolding feed1 using go(1-3) by simp
    have "(\<exists>q3 j'' n x mk q. ?feed q1 (bytes r) = Some (Return (length r) q3) \<and> \<not> hp_upgrade q3 \<and>
        bsim e (Suc p + length r) n x mk q q3 \<and> ?feed q3 rs = Some (Return j'' q'') \<and> j' = length r + j'') \<or>
      (?feed q1 (bytes r) = Some (Return j' q'') \<and> j' \<le> length r \<and> (hp_http_errno q'' \<noteq> HPE_OK \<or> hp_upgrade q''))"
      by (rule Cons.IH [OF b]) (use Cons.prems(2) r go(3,4) in simp_all)
    then show ?thesis unfolding first using go(5) by (auto simp: shift_return_def)
  next
    case stop
    have "?feed q' (bytes (c # r)) = Some (Return j q'')"
      unfolding feed1 using stop by auto
    moreover from feed_one [OF Cons.prems(1) e p, unfolded c, OF stop(1)] stop(2)
    have "j \<le> 1 \<and> (hp_http_errno q'' \<noteq> HPE_OK \<or> hp_upgrade q'')" by (auto simp: bsim_def)
    ultimately show ?thesis by auto
  qed
qed

lemma same_result_errno: "same_result q q' \<Longrightarrow> hp_http_errno q' = hp_http_errno q \<and> hp_upgrade q' = hp_upgrade q"
  by (cases q, cases q') (simp add: same_result_def)

lemma feed_concat:
  assumes "bsim e p n x mk q q'" and e: "settings e = st" "length (input e) < 2 ^ 64"
    and "concat rs = drop p (input e)" and "p \<le> length (input e)" and "[] \<notin> set rs"
    and "feed (max_header_size e) st q' (bytes (concat rs)) = Some (Return j q'')"
    and "hp_upgrade q'' \<Longrightarrow> j = length (concat rs)"
  shows "\<exists>q1. feed (max_header_size e) st q' rs = Some (Return j q1) \<and> same_result q'' q1"
  using assms(1,4-8)
proof (induction rs arbitrary: p n x mk q q' j)
  case Nil
  then show ?case by (simp add: bytes_def)
next
  case (Cons r rs)
  let ?feed = "feed (max_header_size e) st"
  have r: "r \<noteq> []" using Cons.prems(4) by auto
  have "length (r @ concat rs) = length (input e) - p" using Cons.prems(2) by simp
  then have len: "length r + length (concat rs) = length (input e) - p" by simp
  with Cons.prems(3) have le: "p + length r \<le> length (input e)" by simp
  have pre: "take (length r) (drop p (input e)) = r" "concat rs = drop (p + length r) (input e)"
    using arg_cong [OF Cons.prems(2), of "take (length r)"] arg_cong [OF Cons.prems(2), of "drop (length r)"]
    by (simp_all add: add.commute)
  have q': "hp_http_errno q' = HPE_OK" "hp_nread q' = of_nat n" and n: "n + (length (input e) - p) \<le> unat (max_header_size e)"
    using Cons.prems(1) by (simp_all add: bsim_def)
  have "n < 2 ^ 32" using n unsigned_less [of "max_header_size e", where 'a = nat] by simp
  then have nread: "unat (hp_nread q') = n" using q'(2) by (simp add: unat_of_nat take_bit_eq_mod)
  have call: "\<exists>q1. http_parser_execute (max_header_size e) st q' r = Some (Return i q1) \<and> same_result q2 q1"
    if "?feed q' (bytes r) = Some (Return i q2)" and "hp_upgrade q2 \<Longrightarrow> i = length r" for i q2
    by (rule execute_bytes [OF q'(1) r _ _ that]) (use le e(2) nread n len in simp_all)
  have "?feed q' (bytes r @ bytes (concat rs)) = Some (Return j q'')"
    using Cons.prems(5) by (simp add: bytes_def)
  from feed_prefix [OF Cons.prems(1) e le pre(1) disjI1 [OF r] this]
  consider (go) q1 j' n1 x1 mk1 q2 where "?feed q' (bytes r) = Some (Return (length r) q1)" "\<not> hp_upgrade q1"
      "bsim e (p + length r) n1 x1 mk1 q2 q1" "?feed q1 (bytes (concat rs)) = Some (Return j' q'')" "j = length r + j'"
    | (stop) "?feed q' (bytes r) = Some (Return j q'')" "j \<le> length r" "hp_http_errno q'' \<noteq> HPE_OK \<or> hp_upgrade q''"
    by blast
  then show ?case
  proof cases
    case (go q1 j' n1 x1 mk1 q2)
    note first = go(1,2) and b = go(3) and rest = go(4) and j = go(5)
    have OK: "hp_http_errno q1 = HPE_OK" using b by (simp add: bsim_def)
    obtain q3 where "http_parser_execute (max_header_size e) st q' r = Some (Return (length r) q3)" "same_result q1 q3"
      using call [OF first(1)] by auto
    then have exec: "http_parser_execute (max_header_size e) st q' r = Some (Return (length r) q1)"
      using same_result_OK OK by metis
    have "\<exists>q4. ?feed q1 rs = Some (Return j' q4) \<and> same_result q'' q4"
      by (rule Cons.IH [OF b pre(2) le _ rest]) (use Cons.prems(4,6) j in auto)
    then show ?thesis using exec OK first(2) j by (auto simp: shift_return_def)
  next
    case stop
    have "hp_upgrade q'' \<Longrightarrow> j = length r" using Cons.prems(6) stop(2) by simp
    then obtain q1 where q1: "http_parser_execute (max_header_size e) st q' r = Some (Return j q1)" "same_result q'' q1"
      using call [OF stop(1)] by blast
    then have "hp_http_errno q1 \<noteq> HPE_OK \<or> hp_upgrade q1" using stop(3) same_result_errno by metis
    with q1 show ?thesis by auto
  qed
qed

text \<open>The end of headers that announce a body, and a read that lies within the body.\<close>

lemma headers_end_before_body:
  assumes "hp_http_errno q = HPE_OK" and "hp_state q = s_headers_almost_done"
    and "hp_type q = HTTP_REQUEST" and "hp_method q \<noteq> HTTP_CONNECT"
    and "has_flag (hp_flags q) F_UPGRADE" and "has_flag (hp_flags q) F_CONNECTION_UPGRADE"
    and "\<not> has_flag (hp_flags q) F_TRAILING" and "\<not> has_flag (hp_flags q) F_TRANSFER_ENCODING"
    and "\<not> has_flag (hp_flags q) F_SKIPBODY" and "\<not> has_flag (hp_flags q) F_CHUNKED"
    and "hp_content_length q \<noteq> 0" and "hp_content_length q \<noteq> ULLONG_MAX" and "unat (hp_nread q) < unat mx"
  shows "\<exists>q1. http_parser_execute mx st q [LF] = Some (Return 1 q1) \<and> hp_upgrade q1 \<and>
    hp_http_errno q1 = HPE_OK \<and> hp_state q1 = s_body_identity \<and> hp_nread q1 = 0 \<and>
    hp_content_length q1 = hp_content_length q"
proof -
  let ?e = "mk_env mx st q [LF]" and ?u = "q\<lparr>hp_upgrade := True\<rparr>"
  let ?n = "counted s_headers_almost_done (unat (hp_nread q))"
  have e: "settings ?e = st" "input ?e = [LF]" "max_header_size ?e = mx"
    by (simp_all add: mk_env_def)
  obtain d where headers: "headers_complete ?e (loc LF 0 ?n s_headers_done None ?u) =
      Reexecute (loc LF 0 ?n s_headers_done None (?u\<lparr>hp_data := d\<rparr>))"
  proof (cases "on_headers_complete st")
    case None
    then show ?thesis using that [of "hp_data ?u"] e(1) assms(1) by (simp add: headers_complete_def)
  next
    case (Some f)
    have "on_headers_complete st \<in> set (notify_cbs st)" by (simp add: notify_cbs_def)
    from this Some obtain g where "f = (\<lambda>q. Inr (0, q\<lparr>hp_data := g (hp_data q)\<rparr>))"
      by (rule notify_form)
    then show ?thesis using that [of "g (hp_data ?u)"] Some e(1) assms(1) by (simp add: headers_complete_def)
  qed
  let ?q = "?u\<lparr>hp_data := d\<rparr>\<lparr>hp_nread := 0\<rparr>"
  have 1: "exec_switch ?e (loc LF 0 ?n s_headers_almost_done None q) =
      Reexecute (loc LF 0 ?n s_headers_done None (?u\<lparr>hp_data := d\<rparr>))"
    using assms(2-8) headers by (simp add: exec_switch_def exec_headers_almost_done_def STRICT_CHECK_def UPDATE_STATE_def)
  have 2: "exec_switch ?e (loc LF 0 ?n s_headers_done None (?u\<lparr>hp_data := d\<rparr>)) =
      Break (loc LF 0 0 s_body_identity None ?q)"
    using assms(4,8-12)
    by (simp add: exec_switch_def exec_headers_done_def STRICT_CHECK_def UPDATE_STATE_def reset_nread_loc word_gt_0)
  have "execute_loop ?e (loc NUL 0 (unat (hp_nread q)) s_headers_almost_done None q) =
      execute_loop ?e (loc LF 1 0 s_body_identity None ?q)"
    by (subst execute_loop_turn) (use e assms(13) dispatch_Reexecute [OF 1] dispatch_Break [OF 2] in simp_all)
  also have "\<dots> = Some (finish_execute ?e (loc LF (length (input ?e)) 0 s_body_identity None ?q))"
    by (subst execute_loop.simps) (simp add: e(2))
  also have "\<dots> = Some (Return 1 (?q\<lparr>hp_nread := 0, hp_state := s_body_identity\<rparr>))"
    by (subst finish_loc) (use e assms(1) in simp_all)
  finally have "http_parser_execute mx st q [LF] = Some (Return 1 (?q\<lparr>hp_nread := 0, hp_state := s_body_identity\<rparr>))"
    using assms(1,2) by (simp add: http_parser_execute_def start_locals_loc start_mark_def url_mark_states_def)
  then show ?thesis using assms(1) by simp
qed

lemma read_within_body:
  assumes "hp_http_errno q = HPE_OK" and "hp_state q = s_body_identity" and "hp_nread q = 0"
    and "hp_content_length q \<noteq> ULLONG_MAX" and "b \<noteq> []" and "length b < unat (hp_content_length q)"
  shows "\<exists>q'. http_parser_execute mx st q b = Some (Return (length b) q') \<and>
    hp_data q' = piece M_body b (hp_data q) \<and> hp_state q' = s_body_identity"
proof -
  let ?e = "mk_env mx st q b" and ?k = "min (unat (hp_content_length q)) (length b)"
  have e: "settings ?e = st" "input ?e = b" "max_header_size ?e = mx"
    by (simp_all add: mk_env_def)
  have k: "?k = length b" using assms(6) by simp
  have len: "length b < 2 ^ 64" using assms(6) unsigned_less [of "hp_content_length q", where 'a = nat] by simp
  have "exec_switch ?e (loc (b ! 0) 0 0 s_body_identity None q) =
      Break (loc (b ! 0) (length b - 1) 0 s_body_identity (body_mark_at 0 None) (body_read (length b) q))"
    by (subst exec_body_exit [where k = ?k]) (use assms e len k in \<open>auto simp: body_marked_def\<close>)
  from dispatch_Break [OF this] have "execute_loop ?e (loc NUL 0 0 s_body_identity None q) =
      execute_loop ?e (loc (b ! 0) (length b) 0 s_body_identity (body_mark_at 0 None) (body_read (length b) q))"
    using assms(5) e execute_loop_turn_uncounted [of 0 ?e s_body_identity NUL 0 None q]
    by (simp add: PARSING_HEADER_num)
  also have "\<dots> = Some (finish_execute ?e (loc (b ! 0) (length (input ?e)) 0 s_body_identity (body_mark_at 0 None) (body_read (length b) q)))"
    by (subst execute_loop.simps) (simp add: e(2))
  also have "\<dots> = Some (Return (length b) ((flushed M_body b s_body_identity (body_read (length b) q))\<lparr>hp_nread := 0, hp_state := s_body_identity\<rparr>))"
    by (subst finish_loc) (use e assms(1) in \<open>simp_all add: body_mark_at_def body_read_def\<close>)
  finally have "http_parser_execute mx st q b =
      Some (Return (length b) ((flushed M_body b s_body_identity (body_read (length b) q))\<lparr>hp_nread := 0, hp_state := s_body_identity\<rparr>))"
    using assms(1-3,5) by (simp add: http_parser_execute_def start_locals_loc start_mark_def url_mark_states_def)
  then show ?thesis using no_data_cb by (simp add: flushed_def body_read_def)
qed

end

section \<open>Tables of callbacks that accept tokens in pieces\<close>

text \<open>The empty table, and one that collects the events of a message, newest first, joining pieces.\<close>

interpretation silent: streaming_callbacks http_parser_settings_init "\<lambda>m b d. d"
proof unfold_locales
  fix m :: mark and f :: "'a http_data_cb"
  assume "mark_cb m http_parser_settings_init = Some f"
  then show "f b q = Inr (0, q\<lparr>hp_data := hp_data q\<rparr>)" for b q
    by (cases m) (simp_all add: http_parser_settings_init_def)
qed (simp_all add: notify_cbs_def http_parser_settings_init_def)

primrec token_event :: "mark \<Rightarrow> string \<Rightarrow> event" where
  "token_event M_header_field b = Field b"
| "token_event M_header_value b = Value b"
| "token_event M_url b = Url b"
| "token_event M_body b = Body b"
| "token_event M_status b = Status b"

fun token_of :: "event \<Rightarrow> (mark \<times> string) option" where
  "token_of (Field b) = Some (M_header_field, b)"
| "token_of (Value b) = Some (M_header_value, b)"
| "token_of (Url b) = Some (M_url, b)"
| "token_of (Body b) = Some (M_body, b)"
| "token_of (Status b) = Some (M_status, b)"
| "token_of v = None"

lemma token_of_event [simp]: "token_of (token_event m b) = Some (m, b)"
  by (cases m) simp_all

definition join_piece :: "mark \<Rightarrow> string \<Rightarrow> event list \<Rightarrow> event list" where
  "join_piece m b d =
     (case d of
        [] \<Rightarrow> [token_event m b]
      | v # vs \<Rightarrow>
          (case token_of v of
             Some (m', a) \<Rightarrow> if m' = m then token_event m (a @ b) # vs else token_event m b # d
           | None \<Rightarrow> token_event m b # d))"

definition join_event :: "event \<Rightarrow> event list http_cb" where
  "join_event v q = Inr (0, q\<lparr>hp_data := v # hp_data q\<rparr>)"

definition join_data :: "mark \<Rightarrow> event list http_data_cb" where
  "join_data m b q = Inr (0, q\<lparr>hp_data := join_piece m b (hp_data q)\<rparr>)"

definition joining :: "event list http_parser_settings" where
  "joining = \<lparr>
     on_message_begin = Some (join_event Begin),
     on_url = Some (join_data M_url),
     on_status = Some (join_data M_status),
     on_header_field = Some (join_data M_header_field),
     on_header_value = Some (join_data M_header_value),
     on_headers_complete = Some (join_event Headers),
     on_body = Some (join_data M_body),
     on_message_complete = Some (join_event Complete),
     on_chunk_header = Some (join_event Chunk_header),
     on_chunk_complete = Some (join_event Chunk_complete)\<rparr>"

lemma join_piece_append: "join_piece m (u @ v) d = join_piece m v (join_piece m u d)"
  by (auto simp: join_piece_def split: list.split option.split)

interpretation joined: streaming_callbacks joining join_piece
proof unfold_locales
  fix m :: mark and f :: "event list http_data_cb" and b q
  assume "mark_cb m joining = Some f"
  then have "f = join_data m" by (cases m) (auto simp: joining_def)
  then show "f b q = Inr (0, q\<lparr>hp_data := join_piece m b (hp_data q)\<rparr>)" by (simp add: join_data_def)
next
  fix m :: mark and b d
  assume "mark_cb m joining = None"
  then show "join_piece m b d = d" by (cases m) (simp_all add: joining_def)
next
  fix h :: "event list http_cb"
  assume "Some h \<in> set (notify_cbs joining)"
  then obtain v where "h = join_event v" by (auto simp: notify_cbs_def joining_def)
  then show "\<exists>g. h = (\<lambda>q. Inr (0, q\<lparr>hp_data := g (hp_data q)\<rparr>))"
    by (intro exI [of _ "\<lambda>d. v # d"]) (simp add: fun_eq_iff join_event_def)
qed (rule join_piece_append)

section \<open>Properties\<close>

text \<open>
  C8. Reads of any size: let the bytes of some input be given to \<^verbatim>\<open>http_parser_execute\<close> one
  after the other, until an error or an upgrade stops the feeding after \<open>n\<close> bytes. Then a single
  call on the whole input, and a feeding with any division of it into non-empty reads, return
  after the same \<open>n\<close> bytes with the same parser object and the same effect of the callbacks on the
  user's data; after an error, with the same error in the same state. The
  callbacks must accept a token in pieces; the headers must fit the limit; an upgrade announced
  before the end of the input, which a user sees only between two reads, is excluded.
\<close>

theorem reads_of_any_size:
  assumes "streaming_callbacks st piece" and "hp_http_errno q = HPE_OK"
    and "rs \<noteq> []" and "[] \<notin> set rs" and "length (concat rs) < 2 ^ 64"
    and "unat (hp_nread q) + length (concat rs) \<le> unat mx"
    and "feed mx st q (bytes (concat rs)) = Some (Return n q')"
    and "hp_upgrade q' \<Longrightarrow> n = length (concat rs)"
  shows "\<exists>q1 q2. http_parser_execute mx st q (concat rs) = Some (Return n q1) \<and> same_result q' q1 \<and>
    feed mx st q rs = Some (Return n q2) \<and> same_result q' q2"
proof -
  let ?d = "concat rs" and ?e = "mk_env mx st q (concat rs)"
  have d: "?d \<noteq> []" using assms(3,4) by (cases rs) auto
  have e: "settings ?e = st" "input ?e = ?d" "max_header_size ?e = mx" "lenient ?e = hp_lenient_http_headers q"
    by (simp_all add: mk_env_def)
  have b: "streaming_callbacks.bsim piece ?e 0 (unat (hp_nread q)) (hp_state q) (start_mark (hp_state q)) q q"
    by (rule streaming_callbacks.bsim_start [OF assms(1,2)]) (use assms(6) e in simp_all)
  have "\<exists>q1. http_parser_execute mx st q ?d = Some (Return n q1) \<and> same_result q' q1"
    by (rule streaming_callbacks.execute_bytes [OF assms(1,2) d assms(5,6,7,8)])
  moreover have "\<exists>q2. feed mx st q rs = Some (Return n q2) \<and> same_result q' q2"
    using streaming_callbacks.feed_concat [OF assms(1) b e(1) _ _ _ assms(4), of n q'] assms(5,7,8) e by simp
  ultimately show ?thesis by blast
qed

definition example_reads :: "string list" where
  "example_reads = [''GET /a?'', ''b HT'', ''TP/1.1'' @ [CR], [LF] @ ''Ho'', ''st: x'', ''y'' @ [CR, LF, CR], [LF]]"

theorem reads_of_any_size_witness:
  "\<exists>n q'. http_parser_execute 80 joining (http_parser_init (example_parser []) HTTP_REQUEST) (concat example_reads) =
      Some (Return n q') \<and>
    feed 80 joining (http_parser_init (example_parser []) HTTP_REQUEST) example_reads = Some (Return n q') \<and>
    hp_data q' = [Complete, Headers, Value ''xy'', Field ''Host'', Url ''/a?b'', Begin]"
proof -
  let ?q = "http_parser_init (example_parser []) HTTP_REQUEST :: event list http_parser"
  have run: "case feed 80 joining ?q (bytes (concat example_reads)) of
      Some (Return n q') \<Rightarrow> hp_http_errno q' = HPE_OK \<and> \<not> hp_upgrade q' \<and>
        hp_data q' = [Complete, Headers, Value ''xy'', Field ''Host'', Url ''/a?b'', Begin]
    | _ \<Rightarrow> False"
    by code_simp
  then obtain n q' where feed: "feed 80 joining ?q (bytes (concat example_reads)) = Some (Return n q')"
    and q': "hp_http_errno q' = HPE_OK" "\<not> hp_upgrade q'"
      "hp_data q' = [Complete, Headers, Value ''xy'', Field ''Host'', Url ''/a?b'', Begin]"
    by (auto split: option.splits outcome.splits)
  have "\<exists>q1 q2. http_parser_execute 80 joining ?q (concat example_reads) = Some (Return n q1) \<and> same_result q' q1 \<and>
      feed 80 joining ?q example_reads = Some (Return n q2) \<and> same_result q' q2"
    by (rule reads_of_any_size [OF joined.streaming_callbacks_axioms _ _ _ _ _ feed])
      (use q'(2) in \<open>simp_all add: example_reads_def http_parser_init_def example_parser_def\<close>)
  then show ?thesis using q' same_result_OK by metis
qed

text \<open>
  C39. An upgrade with a body: when the headers of a request end that asks for an upgrade and has a
  body, \<^verbatim>\<open>http_parser_execute\<close> returns with \<^verbatim>\<open>upgrade\<close> set, although the message has
  not ended: what follows, as long as it lies within the body, is given to \<^verbatim>\<open>on_body\<close>. A
  caller that checks \<^verbatim>\<open>upgrade\<close> after each read, as it is told to, takes the body for data of
  the new protocol. This is why \<^verbatim>\<open>upgrade\<close> between two reads is excluded in the theorem above.
\<close>

theorem upgrade_seen_before_body:
  assumes "streaming_callbacks st piece" and "hp_http_errno q = HPE_OK" and "hp_state q = s_headers_almost_done"
    and "hp_type q = HTTP_REQUEST" and "hp_method q \<noteq> HTTP_CONNECT"
    and "has_flag (hp_flags q) F_UPGRADE" and "has_flag (hp_flags q) F_CONNECTION_UPGRADE"
    and "\<not> has_flag (hp_flags q) F_TRAILING" and "\<not> has_flag (hp_flags q) F_TRANSFER_ENCODING"
    and "\<not> has_flag (hp_flags q) F_SKIPBODY" and "\<not> has_flag (hp_flags q) F_CHUNKED"
    and "hp_content_length q \<noteq> ULLONG_MAX" and "unat (hp_nread q) < unat mx"
    and "b \<noteq> []" and "length b < unat (hp_content_length q)"
  shows "\<exists>q1 q2. http_parser_execute mx st q [LF] = Some (Return 1 q1) \<and> hp_upgrade q1 \<and>
    http_parser_execute mx st q1 b = Some (Return (length b) q2) \<and> hp_data q2 = piece M_body b (hp_data q1) \<and>
    hp_state q2 = s_body_identity"
proof -
  have "hp_content_length q \<noteq> 0" using assms(15) by (metis not_less_zero unat_0)
  then obtain q1 where q1: "http_parser_execute mx st q [LF] = Some (Return 1 q1)" "hp_upgrade q1"
    "hp_http_errno q1 = HPE_OK" "hp_state q1 = s_body_identity" "hp_nread q1 = 0"
    "hp_content_length q1 = hp_content_length q"
    using streaming_callbacks.headers_end_before_body [OF assms(1-11) _ assms(12,13)] by blast
  then show ?thesis
    using streaming_callbacks.read_within_body [OF assms(1) q1(3-5), of b mx] assms(12,14,15) by auto
qed

definition upgrade_headers :: string where
  "upgrade_headers = ''POST /a HTTP/1.1'' @ [CR, LF] @ ''Upgrade: x'' @ [CR, LF] @ ''Connection: upgrade'' @ [CR, LF] @
     ''Content-Length: 2'' @ [CR, LF, CR]"

theorem upgrade_seen_before_body_witness:
  "\<exists>q q1 q2. http_parser_execute 200 joining (http_parser_init (example_parser []) HTTP_REQUEST) upgrade_headers =
      Some (Return (length upgrade_headers) q) \<and>
    http_parser_execute 200 joining q [LF] = Some (Return 1 q1) \<and> hp_upgrade q1 \<and>
    http_parser_execute 200 joining q1 ''h'' = Some (Return 1 q2) \<and> hp_data q2 = join_piece M_body ''h'' (hp_data q1)"
proof -
  let ?run = "http_parser_execute 200 joining (http_parser_init (example_parser []) HTTP_REQUEST) upgrade_headers"
  have run: "case ?run of
      Some (Return n q) \<Rightarrow> n = length upgrade_headers \<and> hp_http_errno q = HPE_OK \<and> hp_state q = s_headers_almost_done \<and>
        hp_type q = HTTP_REQUEST \<and> hp_method q = HTTP_POST \<and> hp_content_length q = 2 \<and> hp_nread q = 71 \<and>
        has_flag (hp_flags q) F_UPGRADE \<and> has_flag (hp_flags q) F_CONNECTION_UPGRADE \<and>
        \<not> has_flag (hp_flags q) F_TRAILING \<and> \<not> has_flag (hp_flags q) F_TRANSFER_ENCODING \<and>
        \<not> has_flag (hp_flags q) F_SKIPBODY \<and> \<not> has_flag (hp_flags q) F_CHUNKED
    | _ \<Rightarrow> False"
    by code_simp
  then obtain q where q: "?run = Some (Return (length upgrade_headers) q)" "hp_http_errno q = HPE_OK"
      "hp_state q = s_headers_almost_done" "hp_type q = HTTP_REQUEST" "hp_method q = HTTP_POST"
      "hp_content_length q = 2" "hp_nread q = 71" "has_flag (hp_flags q) F_UPGRADE" "has_flag (hp_flags q) F_CONNECTION_UPGRADE"
      "\<not> has_flag (hp_flags q) F_TRAILING" "\<not> has_flag (hp_flags q) F_TRANSFER_ENCODING"
      "\<not> has_flag (hp_flags q) F_SKIPBODY" "\<not> has_flag (hp_flags q) F_CHUNKED"
    by (auto split: option.splits outcome.splits)
  have "\<exists>q1 q2. http_parser_execute 200 joining q [LF] = Some (Return 1 q1) \<and> hp_upgrade q1 \<and>
      http_parser_execute 200 joining q1 ''h'' = Some (Return (length ''h'') q2) \<and>
      hp_data q2 = join_piece M_body ''h'' (hp_data q1) \<and> hp_state q2 = s_body_identity"
    by (rule upgrade_seen_before_body [OF joined.streaming_callbacks_axioms q(2-4) _ q(8-13)]) (use q in \<open>simp_all add: ULLONG_MAX_def\<close>)
  then show ?thesis using q(1) by auto
qed

end
