(* ===== verification/Http_Posts.thy ===== *)
theory Http_Posts
  imports Http_Server_Props Http_Read_Steps
begin

text \<open>
  Requests with a body whose length a header announces: how the parser reads the header, and how
  the server collects the body over any number of reads.
\<close>

section \<open>The header that announces the length\<close>

fun length_header :: "header \<Rightarrow> bool" where
  "length_header (n, v) \<longleftrightarrow>
     (\<forall>c \<in> set n. token_char c) \<and> map TOKEN n = ''content-length'' \<and>
     v \<noteq> [] \<and> (\<forall>c \<in> set v. IS_NUM c) \<and> from_dec 0 v < 2 ^ 64 - 6"

lemma from_dec_ge: "v \<le> from_dec v ds"
proof (induction ds arbitrary: v)
  case (Cons d ds)
  have "v \<le> v * 10 + (uchar d - 48)" by simp
  then show ?case using Cons [of "v * 10 + (uchar d - 48)"] by simp
qed simp

lemma digit_chars:
  assumes "IS_NUM c"
  shows "IS_HEADER_CHAR c" "c \<noteq> CR" "c \<noteq> LF" "c \<noteq> SP" "c \<noteq> HT" "digit_val c = uchar c - 48"
  using assms by (auto simp: IS_NUM_def IS_HEADER_CHAR_def digit_val_def)

lemma content_length_step:
  assumes "IS_NUM c" and "v * 10 + (uchar c - 48) < 2 ^ 64 - 6" and "hp_content_length q = of_nat v"
  shows "header_value_char c h_content_length_num q =
    HV_go h_content_length_num (q\<lparr>hp_content_length := of_nat (v * 10 + (uchar c - 48))\<rparr>)"
proof -
  have "v < 2 ^ 64" using assms(2) by simp
  then have v: "unat (of_nat v :: 64 word) = v" by (simp add: unat_of_nat take_bit_eq_mod)
  have "unat ((ULLONG_MAX - 10) div 10) = 1844674407370955160"
    by (simp add: ULLONG_MAX_def)
  then have "\<not> (ULLONG_MAX - 10) div 10 < (of_nat v :: 64 word)"
    using assms(2) v by (simp add: word_less_nat_alt)
  then show ?thesis
    using assms digit_chars [OF assms(1)]
    by (simp add: header_value_char_def content_length_digit_def Let_def)
qed

lemma content_length_loop:
  assumes "drop p (input e) = ds @ CR # r" and "\<forall>c \<in> set ds. IS_NUM c" and "from_dec v ds < 2 ^ 64 - 6"
    and "hp_content_length q = of_nat v"
  shows "header_value_loop e p h_content_length_num q =
    HV_CR (p + length ds) h_content_length_num (q\<lparr>hp_content_length := of_nat (from_dec v ds)\<rparr>)"
  using assms
proof (induction ds arbitrary: p v q)
  case Nil
  then have "p < length (input e)" "input e ! p = CR" using drop_ConsD by fastforce+
  then show ?case using Nil by (subst header_value_loop.simps) (cases q, simp)
next
  case (Cons c ds)
  let ?v = "v * 10 + (uchar c - 48)"
  have p: "p < length (input e)" "input e ! p = c" "drop (Suc p) (input e) = ds @ CR # r"
    using Cons.prems(1) drop_ConsD by fastforce+
  have c: "IS_NUM c" using Cons.prems(2) by simp
  have "?v < 2 ^ 64 - 6" using from_dec_ge [of ?v ds] Cons.prems(3) by simp
  note step = content_length_step [OF c this Cons.prems(4)]
  have "header_value_loop e p h_content_length_num q =
      header_value_loop e (Suc p) h_content_length_num (q\<lparr>hp_content_length := of_nat ?v\<rparr>)"
    using p digit_chars [OF c] step by (subst header_value_loop.simps) (simp add: Let_def)
  also have "\<dots> = HV_CR (Suc p + length ds) h_content_length_num
      (q\<lparr>hp_content_length := of_nat ?v, hp_content_length := of_nat (from_dec ?v ds)\<rparr>)"
    using Cons.IH [OF p(3), of ?v "q\<lparr>hp_content_length := of_nat ?v\<rparr>"] Cons.prems(2,3) by simp
  finally show ?case by simp
qed

lemma length_name:
  assumes "\<forall>c \<in> set (c # cs). token_char c" and "map TOKEN (c # cs) = ''content-length''"
  obtains q' where "field_run cs (q\<lparr>hp_index := 0, hp_header_state := name_start c\<rparr>) = Inr q'"
    "hp_header_state q' = h_content_length"
    "q' = q\<lparr>hp_index := hp_index q', hp_header_state := hp_header_state q'\<rparr>"
proof -
  let ?q = "q\<lparr>hp_index := 0, hp_header_state := name_start c\<rparr>"
  have "name_inv [TOKEN c] (hp_header_state ?q) (unat (hp_index ?q))" by (simp add: name_inv_start)
  moreover have "\<forall>c \<in> set cs. token_char c" using assms(1) by simp
  ultimately obtain q' where run: "field_run cs ?q = Inr q'"
    "name_inv ([TOKEN c] @ map TOKEN cs) (hp_header_state q') (unat (hp_index q'))"
    "q' = ?q\<lparr>hp_index := hp_index q', hp_header_state := hp_header_state q', hp_flags := hp_flags q'\<rparr>"
    "hp_flags q' = (if te_prefix ([TOKEN c] @ map TOKEN cs) \<and> \<not> te_prefix [TOKEN c]
      then add_flag (hp_flags ?q) F_TRANSFER_ENCODING else hp_flags ?q)"
    using field_run_name by blast
  have name: "[TOKEN c] @ map TOKEN cs = ''content-length''" using assms(2) by simp
  have "\<not> te_prefix ''content-length''" by (simp add: te_prefix_def)
  then have "hp_flags q' = hp_flags q" using run(4) unfolding name by simp
  then have "q' = q\<lparr>hp_index := hp_index q', hp_header_state := hp_header_state q'\<rparr>"
    using run(3) by (cases q, cases q') simp
  moreover have "hp_header_state q' = h_content_length" using name_inv_special(2) [OF run(2)] name by simp
  ultimately show ?thesis using run(1) that by blast
qed

text \<open>The parser object when \<open>k\<close> bytes of a body are to come.\<close>

definition body_to_come :: "nat \<Rightarrow> 'u http_parser \<Rightarrow> bool" where
  "body_to_come k q \<longleftrightarrow> hp_http_errno q = HPE_OK \<and> unat (hp_content_length q) = k \<and>
     hp_content_length q \<noteq> ULLONG_MAX \<and> \<not> hp_upgrade q"

text \<open>The parser object after a header of either kind.\<close>

context data_transformers begin

definition plain_done :: "header \<Rightarrow> 'u http_parser \<Rightarrow> 'u http_parser" where
  "plain_done h q = q\<lparr>hp_index := 0, hp_state := s_header_almost_done,
     hp_data := value_d (snd h) (field_d (fst h) (hp_data q)), hp_header_state := h_general\<rparr>"

definition length_done :: "header \<Rightarrow> 'u http_parser \<Rightarrow> 'u http_parser" where
  "length_done h q = q\<lparr>hp_index := 0, hp_state := s_header_almost_done,
     hp_data := value_d (snd h) (field_d (fst h) (hp_data q)), hp_header_state := h_content_length_num,
     hp_flags := add_flag (hp_flags q) F_CONTENTLENGTH, hp_content_length := of_nat (from_dec 0 (snd h))\<rparr>"

lemma runs_length_header:
  assumes "settings e = st" and "fits_limit e" and h: "length_header (n, v)" and "hp_http_errno q = HPE_OK"
    and flag: "\<not> has_flag (hp_flags q) F_CONTENTLENGTH"
    and "runs e r (p + length (header_line (n, v))) s_header_value_lws None (length_done (n, v) q) oc"
  shows "runs e (header_line (n, v) @ r) p s_header_field_start None q oc"
proof -
  obtain c cs where n: "n = c # cs" using h by (cases n) auto
  obtain d ds where v: "v = d # ds" using h by (cases v) auto
  have d: "IS_NUM d" "\<forall>c \<in> set ds. IS_NUM c" "from_dec (uchar d - 48) ds < 2 ^ 64 - 6" using h v by simp_all
  obtain q' where q': "field_run cs (q\<lparr>hp_index := 0, hp_header_state := name_start c\<rparr>) = Inr q'"
    "hp_header_state q' = h_content_length"
    "q' = q\<lparr>hp_index := hp_index q', hp_header_state := hp_header_state q'\<rparr>"
    using length_name [of c cs q] h n by auto
  have fr: "hp_http_errno q' = HPE_OK" "hp_data q' = hp_data q" "hp_flags q' = hp_flags q"
    using assms(4) by (subst q'(3), simp)+
  let ?q1 = "q'\<lparr>hp_state := s_header_value_discard_ws, hp_data := field_d n (hp_data q')\<rparr>"
  let ?q2 = "?q1\<lparr>hp_index := 0, hp_flags := add_flag (hp_flags q) F_CONTENTLENGTH,
    hp_content_length := of_nat (uchar d - 48), hp_header_state := h_content_length_num\<rparr>"
  let ?q3 = "?q2\<lparr>hp_content_length := of_nat (from_dec (uchar d - 48) ds)\<rparr>"
  have q3: "?q3\<lparr>hp_state := s_header_almost_done, hp_data := value_d v (hp_data ?q3),
      hp_header_state := h_content_length_num\<rparr> = length_done (n, v) q"
    using q'(3) fr(2) v by (cases q, cases q') (simp add: length_done_def)
  have start: "exec_switch e (loc d p' (Suc p') s_header_value_discard_ws None ?q1) =
      Break (loc d p' (Suc p') s_header_value (Some (M_header_value, p')) ?q2)" for p'
    using digit_chars [OF d(1)] d(1) q'(2) fr(3) flag
    by (simp add: exec_switch_def exec_header_value_discard_ws_def exec_header_value_start_def Let_def
        UPDATE_STATE_def set_header_state_def set_flag_def)
  show ?thesis
    unfolding n
  proof (rule runs_header_line [OF assms(1,2) _ assms(4) q'(1) fr(1)])
    fix p'
    assume p': "p' = p + length (c # cs) + 2" and dr: "drop p' (input e) = v @ CR # LF # r"
    have "drop (Suc p') (input e) = ds @ CR # LF # r"
      using drop_ConsD [OF dr [unfolded v append_Cons]] by blast
    from content_length_loop [OF this d(2,3), of ?q2]
    have loop: "header_value_loop e (Suc p') (hp_header_state ?q2) ?q2 = HV_CR (Suc p' + length ds) h_content_length_num ?q3"
      by simp
    have "runs e r (Suc (Suc (p' + length v))) s_header_value_lws None
        (?q3\<lparr>hp_state := s_header_almost_done, hp_data := value_d v (hp_data ?q3),
           hp_header_state := h_content_length_num\<rparr>) oc"
      unfolding q3 using assms(6) p' n by (simp add: add.assoc)
    then show "runs e (v @ CR # LF # r) p' s_header_value_discard_ws None
        (q'\<lparr>hp_state := s_header_value_discard_ws, hp_data := field_d (c # cs) (hp_data q')\<rparr>) oc"
      unfolding v n [symmetric]
      by (intro runs_value_from [OF assms(1,2) dr [unfolded v] start loop]) (use fr(1) in simp_all)
  qed (use h n in simp)
qed

lemma runs_plain_headers:
  assumes "settings e = st" and "fits_limit e" and "\<forall>h \<in> set hs. plain_header h" and "hp_http_errno q = HPE_OK"
    and "x = s_header_field_start \<or> x = s_header_value_lws \<and> hp_header_state q \<in> {h_general, h_content_length_num}"
    and "c \<noteq> SP" "c \<noteq> HT"
    and "runs e (c # r) (p + length (concat (map header_line hs))) s_header_field_start None (fold plain_done hs q) oc"
  shows "runs e (concat (map header_line hs) @ c # r) p x None q oc"
  using assms(3-5,8)
proof (induction hs arbitrary: p x q)
  case Nil
  then show ?case using runs_lws [OF assms(2,6,7)] by auto
next
  case (Cons h hs)
  obtain n v where h: "h = (n, v)" by (cases h)
  obtain a as where n: "n = a # as" "token_char a" using Cons.prems(1) h by (cases n) auto
  let ?r = "concat (map header_line hs) @ c # r"
  have "runs e ?r (p + length (header_line h)) s_header_value_lws None (plain_done h q) oc"
    by (rule Cons.IH) (use Cons.prems in \<open>simp_all add: plain_done_def add.assoc\<close>)
  then have "runs e (header_line h @ ?r) p s_header_field_start None q oc"
    using Cons.prems(1,2) unfolding h
    by (intro runs_header [OF assms(1,2)]) (simp_all add: plain_done_def)
  moreover have "header_line h @ ?r = a # (as @ CHR '':'' # SP # v @ [CR, LF]) @ ?r" using h n(1) by simp
  ultimately show ?case
    using Cons.prems(3) runs_lws [OF assms(2), of a q] token_char_simps [OF n(2)] by auto
qed

text \<open>The end of the headers, with a body to come.\<close>

lemma runs_body_start:
  assumes "settings e = st" and "fits_limit e" and "hp_flags q = add_flag 0 F_CONTENTLENGTH" and "hp_http_errno q = HPE_OK"
    and "hp_content_length q \<noteq> 0" and "hp_content_length q \<noteq> ULLONG_MAX" and "hp_type q = HTTP_REQUEST"
    and "hp_method q \<noteq> HTTP_CONNECT"
    and "execute_loop e (loc LF (p + 2) 0 s_body_identity None
      (q\<lparr>hp_upgrade := False, hp_data := headers_d (hp_data q), hp_nread := 0\<rparr>)) = Some oc"
  shows "runs e (CR # LF # r) p s_header_field_start None q oc"
proof (rule plain_steps(11) [OF assms(2)])
  let ?q1 = "q\<lparr>hp_upgrade := False, hp_data := headers_d (hp_data q)\<rparr>"
  show "runs e (LF # r) (Suc p) s_headers_almost_done None q oc"
    unfolding runs_def
  proof (intro impI allI)
    fix d
    assume d: "drop (Suc p) (input e) = LF # r"
    note p = drop_ConsD [OF d]
    have 1: "exec_switch e (loc LF (Suc p) (Suc (Suc p)) s_headers_almost_done None q) =
        Reexecute (loc LF (Suc p) (Suc (Suc p)) s_headers_done None ?q1)"
      using assms(3,4,8) headers_complete_cb [folded assms(1)]
      by (simp add: exec_switch_def exec_headers_almost_done_def STRICT_CHECK_def UPDATE_STATE_def Let_def
          headers_complete_def)
    have 2: "exec_switch e (loc LF (Suc p) (Suc (Suc p)) s_headers_done None ?q1) =
        Break (loc LF (Suc p) 0 s_body_identity None (?q1\<lparr>hp_nread := 0\<rparr>))"
      using assms(3,5,6) by (simp add: exec_switch_def exec_headers_done_def STRICT_CHECK_def UPDATE_STATE_def reset_nread_def)
    show "execute_loop e (loc d (Suc p) (Suc p) s_headers_almost_done None q) = Some oc"
      using p assms(9) dispatch_Reexecute [OF 1] dispatch_Break [OF 2]
        execute_loop_byte [OF assms(2), of "Suc p" s_headers_almost_done d None q]
      by (simp add: PARSING_HEADER_num)
  qed
qed

lemma plain_done_frame [simp]:
  "hp_flags (fold plain_done hs q) = hp_flags q" "hp_http_errno (fold plain_done hs q) = hp_http_errno q"
  "hp_content_length (fold plain_done hs q) = hp_content_length q" "hp_type (fold plain_done hs q) = hp_type q"
  "hp_method (fold plain_done hs q) = hp_method q"
  "hp_data (fold plain_done hs q) = fold (\<lambda>(n, v) d. value_d v (field_d n d)) hs (hp_data q)"
  by (induction hs arbitrary: q) (simp_all add: plain_done_def split_beta)

lemma runs_post_headers:
  assumes "settings e = st" and "fits_limit e" and "\<forall>h \<in> set (hs1 @ hs2). plain_header h" and lh: "length_header lh"
    and "hp_flags q = 0" and "hp_http_errno q = HPE_OK" and "hp_type q = HTTP_REQUEST" and "hp_method q \<noteq> HTTP_CONNECT"
    and "0 < from_dec 0 (snd lh)"
  shows "\<exists>q'. body_to_come (from_dec 0 (snd lh)) q' \<and>
    hp_data q' = headers_d (fold (\<lambda>(n, v) d. value_d v (field_d n d)) (hs1 @ lh # hs2) (hp_data q)) \<and>
    (\<forall>oc. execute_loop e (loc LF (p + length (concat (map header_line (hs1 @ lh # hs2))) + 2) 0 s_body_identity None q') =
        Some oc \<longrightarrow>
      runs e (concat (map header_line (hs1 @ lh # hs2)) @ [CR, LF] @ r) p s_header_field_start None q oc)"
proof (intro exI conjI allI impI)
  obtain n v where nv: "lh = (n, v)" by (cases lh)
  obtain a as where n: "n = a # as" "token_char a" using lh nv by (cases n) auto
  let ?q1 = "fold plain_done hs1 q" and ?q2 = "length_done lh (fold plain_done hs1 q)"
  let ?q3 = "fold plain_done hs2 ?q2"
  let ?q' = "?q3\<lparr>hp_upgrade := False, hp_data := headers_d (hp_data ?q3), hp_nread := 0\<rparr>"
  let ?k = "from_dec 0 (snd lh)"
  have k: "?k < 2 ^ 64 - 6" using lh nv by simp
  then have unat_k: "unat (of_nat ?k :: 64 word) = ?k" by (simp add: unat_of_nat take_bit_eq_mod)
  have cl: "of_nat ?k \<noteq> (0 :: 64 word)" "of_nat ?k \<noteq> ULLONG_MAX"
  proof -
    show "of_nat ?k \<noteq> (0 :: 64 word)" using assms(9) unat_k by (metis less_irrefl unat_0)
    show "of_nat ?k \<noteq> ULLONG_MAX"
    proof
      assume "of_nat ?k = ULLONG_MAX"
      then have "?k = unat ULLONG_MAX" using unat_k by simp
      then have "?k = 2 ^ 64 - 1" by (simp add: ULLONG_MAX_def unsigned_minus_1_eq_mask mask_eq_exp_minus_1)
      then show False using k by simp
    qed
  qed
  have q2: "hp_flags ?q2 = add_flag 0 F_CONTENTLENGTH" "hp_http_errno ?q2 = HPE_OK" "hp_type ?q2 = HTTP_REQUEST"
    "hp_method ?q2 \<noteq> HTTP_CONNECT" "hp_content_length ?q2 = of_nat ?k" "hp_header_state ?q2 = h_content_length_num"
    "hp_data ?q2 = value_d v (field_d n (fold (\<lambda>(n, v) d. value_d v (field_d n d)) hs1 (hp_data q)))"
    using assms(5-8) nv by (simp_all add: length_done_def)
  show "body_to_come ?k ?q'" using q2 unat_k cl by (simp add: body_to_come_def)
  show "hp_data ?q' = headers_d (fold (\<lambda>(n, v) d. value_d v (field_d n d)) (hs1 @ lh # hs2) (hp_data q))"
    using q2(7) nv by simp
  fix oc
  let ?p1 = "p + length (concat (map header_line hs1))" and ?p2 = "p + length (concat (map header_line (hs1 @ [lh])))"
  let ?p3 = "p + length (concat (map header_line (hs1 @ lh # hs2)))" and ?r2 = "concat (map header_line hs2) @ CR # LF # r"
  assume "execute_loop e (loc LF (?p3 + 2) 0 s_body_identity None ?q') = Some oc"
  then have "runs e (CR # LF # r) ?p3 s_header_field_start None ?q3 oc"
    using q2 cl by (intro runs_body_start [OF assms(1,2)]) simp_all
  then have "runs e ?r2 ?p2 s_header_value_lws None ?q2 oc"
    using assms(3) q2(2,6) by (intro runs_plain_headers [OF assms(1,2)]) (simp_all add: add.assoc)
  then have 1: "runs e (header_line lh @ ?r2) ?p1 s_header_field_start None ?q1 oc"
    using lh assms(5,6) unfolding nv by (intro runs_length_header [OF assms(1,2)]) (simp_all add: add.assoc)
  have a: "header_line lh @ ?r2 = a # (as @ CHR '':'' # SP # v @ [CR, LF]) @ ?r2" using nv n(1) by simp
  have "runs e (concat (map header_line hs1) @ header_line lh @ ?r2) p s_header_field_start None q oc"
    using assms(3,6) token_char_simps [OF n(2)] 1 unfolding a by (intro runs_plain_headers [OF assms(1,2)]) simp_all
  then show "runs e (concat (map header_line (hs1 @ lh # hs2)) @ [CR, LF] @ r) p s_header_field_start None q oc"
    by simp
qed

lemma parse_post_head:
  assumes "url_accepted m u" and "major < 10" and "minor < 10" and "\<forall>h \<in> set (hs1 @ hs2). plain_header h"
    and "length_header lh" and "m \<noteq> HTTP_CONNECT" and "0 < from_dec 0 (snd lh)"
    and "length (request_text m u major minor (hs1 @ lh # hs2) @ b) \<le> unat mx"
    and "url_d m u (begin_d (hp_data q)) = Inr d"
  shows "\<exists>q'. body_to_come (from_dec 0 (snd lh)) q' \<and>
    hp_data q' = headers_d (fold (\<lambda>(n, v) d. value_d v (field_d n d)) (hs1 @ lh # hs2) d) \<and>
    (\<forall>oc. execute_loop (mk_env mx st (http_parser_init q HTTP_REQUEST) (request_text m u major minor (hs1 @ lh # hs2) @ b))
        (loc LF (length (request_text m u major minor (hs1 @ lh # hs2))) 0 s_body_identity None q') = Some oc \<longrightarrow>
      http_parser_execute mx st (http_parser_init q HTTP_REQUEST) (request_text m u major minor (hs1 @ lh # hs2) @ b) = Some oc)"
proof -
  let ?q0 = "http_parser_init q HTTP_REQUEST" and ?t = "request_text m u major minor (hs1 @ lh # hs2)"
  let ?e = "mk_env mx st ?q0 (?t @ b)" and ?hs = "concat (map header_line (hs1 @ lh # hs2))"
  have e: "settings ?e = st" "fits_limit ?e" "input ?e = ?t @ b"
    using assms(8) by (simp_all add: mk_env_def fits_limit_def)
  let ?q2 = "request_parser q m (begin_d (hp_data q))"
  let ?q3 = "?q2\<lparr>hp_state := s_req_http_start, hp_data := d\<rparr>"
  let ?q4 = "?q3\<lparr>hp_http_major := of_nat major, hp_http_minor := of_nat minor\<rparr>"
  let ?a = "Suc (length (method_string m))" and ?r3 = "version_text major minor @ ?hs @ [CR, LF] @ b"
  have t: "?t @ b = method_string m @ SP # u @ SP # ?r3" by (simp add: request_text_def)
  have len: "length (version_text major minor) = 10" by (simp add: version_text_def)
  have n: "Suc (?a + length u) + 10 + length ?hs + 2 = length ?t" using len by (simp add: request_text_def)
  have "hp_flags ?q4 = 0" "hp_http_errno ?q4 = HPE_OK" "hp_type ?q4 = HTTP_REQUEST" "hp_method ?q4 \<noteq> HTTP_CONNECT"
    using assms(6) by simp_all
  from runs_post_headers [OF e(1,2) assms(4,5) this assms(7), of "Suc (?a + length u) + 10" b]
  obtain q' where q': "body_to_come (from_dec 0 (snd lh)) q'"
    "hp_data q' = headers_d (fold (\<lambda>(n, v) d. value_d v (field_d n d)) (hs1 @ lh # hs2) (hp_data ?q4))"
    "\<And>oc. execute_loop ?e (loc LF (length ?t) 0 s_body_identity None q') = Some oc \<Longrightarrow>
      runs ?e (?hs @ [CR, LF] @ b) (Suc (?a + length u) + 10) s_header_field_start None ?q4 oc"
    unfolding n by blast
  show ?thesis
  proof (intro exI conjI allI impI)
    show "hp_data q' = headers_d (fold (\<lambda>(n, v) d. value_d v (field_d n d)) (hs1 @ lh # hs2) d)"
      using q'(2) by simp
    fix oc
    assume "execute_loop ?e (loc LF (length ?t) 0 s_body_identity None q') = Some oc"
    from q'(3) [OF this] have "runs ?e ?r3 (Suc (?a + length u)) s_req_http_start None ?q3 oc"
      by (rule runs_version [OF e(2) assms(2,3)])
    moreover have "drop ?a (?t @ b) = u @ SP # ?r3" unfolding t by simp
    with e(3) have "drop ?a (input ?e) = u @ SP # ?r3" by (simp only:)
    ultimately have "runs ?e (SP # ?r3) (?a + length u) (foldl parse_url_char (url_start m) u)
        (Some (M_url, ?a)) ?q2 oc"
      using assms(1,9) by (intro runs_url_end [OF e(1,2)]) (simp_all add: url_accepted_def)
    from runs_request_start [OF e(1,2) assms(1) this]
    have "runs ?e (?t @ b) 0 s_start_req None ?q0 oc" by (simp only: t)
    then show "http_parser_execute mx st ?q0 (?t @ b) = Some oc"
      by (rule execute_request_runs) (simp add: t)
  qed (rule q'(1))
qed

end

section \<open>Collecting a body\<close>

definition put_body :: "string \<Rightarrow> bool \<Rightarrow> HTTPRequest \<Rightarrow> HTTPRequest" where
  "put_body b l r = r\<lparr>req_body := req_body r @ b, body_is_final := l\<rparr>"


lemma put_body_simps [simp]:
  "body_is_final (put_body b l r) = l" "req_body (put_body b l r) = req_body r @ b"
  "message_is_end (put_body b l r) = message_is_end r" "request_path (put_body b l r) = request_path r"
  "req_headers (put_body b l r) = req_headers r" "last_filed_value (put_body b l r) = last_filed_value r"
  "put_body c l' (put_body b l r) = put_body (b @ c) l' r"
  by (simp_all add: put_body_def)

lemma put_body_Nil [simp]: "\<not> body_is_final r \<Longrightarrow> put_body [] False r = r"
  by (simp add: put_body_def)







section \<open>Reads of a connection\<close>









lemma put_field_body [simp]:
  "req_body (put_field b r) = req_body r" "body_is_final (put_field b r) = body_is_final r"
  "message_is_end (put_field b r) = message_is_end r"
  by (simp_all add: put_field_def)

lemma put_value_body [simp]:
  "req_body (put_value b r) = req_body r" "body_is_final (put_value b r) = body_is_final r"
  "message_is_end (put_value b r) = message_is_end r"
  by (simp_all add: put_value_def)








section \<open>Properties\<close>







end
