(* ===== verification/Object_Text.thy ===== *)
theory Object_Text
  imports Event_Handler Time_Stamp Http_Response
begin

text \<open>
  The texts of \<^verbatim>\<open>src/util/time_stamp.cpp\<close> and of \<^verbatim>\<open>EventHandler::toString\<close>: for people and
  logs, but made by code of its own.
\<close>

text \<open>\<^verbatim>\<open>std::ostream << qg_int64_t\<close>, \<^verbatim>\<open>%lld\<close> and \<^verbatim>\<open>std::to_string(int)\<close>.\<close>

definition int_to_dec :: "int \<Rightarrow> string" where
  "int_to_dec i = (if i < 0 then CHR ''-'' # to_dec (nat (- i)) else to_dec (nat i))"

text \<open>
  \<^verbatim>\<open>std::setw(n)\<close> with a fill character holds for the next output only and pads it on the left.
\<close>

definition padded :: "nat \<Rightarrow> char \<Rightarrow> string \<Rightarrow> string" where
  "padded n c s = replicate (n - length s) c @ s"

definition TimeStamp_toString :: "TimeStamp \<Rightarrow> string" where
  "TimeStamp_toString t =
     padded 6 CHR ''0'' '' '' @ int_to_dec (getUnixTimeStamp t sdiv kMicroSecondsPerSecond) @
     padded 6 CHR ''0'' '' '' @ int_to_dec (getUnixTimeStamp t smod kMicroSecondsPerSecond)"

definition toFormatedString :: "TimeStamp \<Rightarrow> string" where
  "toFormatedString t = ''unix timestamp : '' @ int_to_dec (getUnixTimeStamp t)"

definition EventHandler_toString :: "'f EventHandler \<Rightarrow> string" where
  "EventHandler_toString h =
     ''fd : '' @ int_to_dec (eh_handle h) @ [CHR 0x0A] @
     (if isReadable h then ''can read'' @ [CHR 0x0A] else []) @
     (if isWriteable h then ''can write'' @ [CHR 0x0A] else []) @
     (if isError h then ''error happened'' @ [CHR 0x0A] else [])"

text \<open>
  The width is set for the space and not for the number behind it: the zeros stand before the
  space, and the microseconds are not padded.
\<close>

lemma TimeStamp_toString_pads_space:
  "TimeStamp_toString (TimeStamp 1000005) = ''00000 100000 5''"
  by code_simp

text \<open>The numbers in these texts can be read back.\<close>

fun int_from_dec :: "string \<Rightarrow> int" where
  "int_from_dec s =
     (case s of c # cs \<Rightarrow> if c = CHR ''-'' then - int (from_dec 0 cs) else int (from_dec 0 s) | [] \<Rightarrow> 0)"

lemma int_from_to_dec: "int_from_dec (int_to_dec i) = i"
proof (cases "i < 0")
  case False
  obtain c cs where c: "to_dec (nat i) = c # cs" by (cases "to_dec (nat i)") auto
  then have "c \<noteq> CHR ''-''" using to_dec_digits [of c "nat i"] by auto
  with False c from_dec_to_dec [of "nat i"] show ?thesis by (simp add: int_to_dec_def)
qed (simp add: int_to_dec_def from_dec_to_dec)

end
