(* ===== verification/Http_Tools.thy ===== *)
theory Http_Tools
  imports Http_Parse_Props Http_Url_Props Object_Text
begin

text \<open>
  The command-line tools around the parser: \<^verbatim>\<open>contrib/parsertrace.c\<close>, \<^verbatim>\<open>contrib/url_parser.c\<close> and
  \<^verbatim>\<open>bench.c\<close> of \<^verbatim>\<open>src/lib/http-parser/\<close>. A program is a function from its arguments and what the
  system answers to its exit status and the text on its two output streams.
\<close>

record exit_state =
  ex_status :: int
  ex_stdout :: string
  ex_stderr :: string

text \<open>
  \<^verbatim>\<open>printf("%.*s", (int)length, at)\<close> for \<open>length\<close> bytes \<open>b\<close>: at most as many bytes as the precision, up to
  the first NUL. A negative precision counts as none; the code then reads on behind the bytes,
  which is not modelled.
\<close>

definition precision_text :: "string \<Rightarrow> string" where
  "precision_text b =
     (let n = sint (of_nat (length b) :: 32 word)
      in takeWhile (\<lambda>c. c \<noteq> NUL) (if n < 0 then b else take (nat n) b))"

lemma precision_text_whole: "length b < 2 ^ 31 \<Longrightarrow> NUL \<notin> set b \<Longrightarrow> precision_text b = b"
proof -
  assume b: "length b < 2 ^ 31" "NUL \<notin> set b"
  then have "sint (of_nat (length b) :: 32 word) = int (length b)"
    by (simp add: signed_of_nat signed_take_bit_int_eq_self_iff)
  then show ?thesis using b(2) by (auto simp: precision_text_def takeWhile_eq_all_conv)
qed

section \<open>parsertrace\<close>

text \<open>The user's data of the parser object is what has been printed.\<close>

definition trace_event :: "string \<Rightarrow> string http_cb" where
  "trace_event t q = Inr (0, q\<lparr>hp_data := hp_data q @ t\<rparr>)"

definition trace_on_message_begin :: "string http_cb" where
  "trace_on_message_begin = trace_event ([LF] @ ''***MESSAGE BEGIN***'' @ [LF, LF])"

definition trace_on_headers_complete :: "string http_cb" where
  "trace_on_headers_complete = trace_event ([LF] @ ''***HEADERS COMPLETE***'' @ [LF, LF])"

definition trace_on_message_complete :: "string http_cb" where
  "trace_on_message_complete = trace_event ([LF] @ ''***MESSAGE COMPLETE***'' @ [LF, LF])"

definition trace_on_url :: "string http_data_cb" where
  "trace_on_url b = trace_event (''Url: '' @ precision_text b @ [LF])"

definition trace_on_header_field :: "string http_data_cb" where
  "trace_on_header_field b = trace_event (''Header field: '' @ precision_text b @ [LF])"

definition trace_on_header_value :: "string http_data_cb" where
  "trace_on_header_value b = trace_event (''Header value: '' @ precision_text b @ [LF])"

definition trace_on_body :: "string http_data_cb" where
  "trace_on_body b = trace_event (''Body: '' @ precision_text b @ [LF])"

definition trace_settings :: "string http_parser_settings" where
  "trace_settings = http_parser_settings_init\<lparr>
     on_message_begin := Some trace_on_message_begin,
     on_url := Some trace_on_url,
     on_header_field := Some trace_on_header_field,
     on_header_value := Some trace_on_header_value,
     on_headers_complete := Some trace_on_headers_complete,
     on_body := Some trace_on_body,
     on_message_complete := Some trace_on_message_complete\<rparr>"

definition usage_text :: "string \<Rightarrow> string" where
  "usage_text name = ''Usage: '' @ name @ '' $type $filename'' @ [LF] @
     ''  type: -x, where x is one of {r,b,q}'' @ [LF] @
     ''  parses file as a Response, reQuest, or Both'' @ [LF]"

definition usage :: "string \<Rightarrow> exit_state" where
  "usage name = \<lparr>ex_status = 1, ex_stdout = [], ex_stderr = usage_text name\<rparr>"

text \<open>
  The answers of the system: whether \<^verbatim>\<open>fopen\<close> succeeds, then what \<^verbatim>\<open>ftell\<close> returns for the end of the
  file and which bytes \<^verbatim>\<open>fread\<close> delivers; the text \<^verbatim>\<open>perror\<close> adds for the error number.
\<close>

record stream =
  st_length :: int
  st_bytes :: string

record stream_env =
  se_open :: "string \<Rightarrow> stream option"
  se_strerror :: string

definition perror :: "stream_env \<Rightarrow> string \<Rightarrow> string" where
  "perror w s = s @ '': '' @ se_strerror w @ [LF]"

text \<open>\<^verbatim>\<open>type[1]\<close> is read only behind a \<open>-\<close>; for the argument \<open>-\<close> it is the NUL at its end.\<close>

definition file_type_of :: "string \<Rightarrow> http_parser_type option" where
  "file_type_of arg =
     (case arg of
        CHR ''-'' # CHR ''r'' # _ \<Rightarrow> Some HTTP_RESPONSE
      | CHR ''-'' # CHR ''q'' # _ \<Rightarrow> Some HTTP_REQUEST
      | CHR ''-'' # CHR ''b'' # _ \<Rightarrow> Some HTTP_BOTH
      | _ \<Rightarrow> None)"

text \<open>
  After a failed \<^verbatim>\<open>fopen\<close> the code jumps to \<^verbatim>\<open>fclose(file)\<close> with the null pointer, which is an access
  through an invalid pointer. \<open>g\<close> is what the parser object on the stack holds before it is initialised; the
  text printed so far is empty.
\<close>

definition trace_file :: "32 word \<Rightarrow> stream_env \<Rightarrow> string http_parser \<Rightarrow> http_parser_type \<Rightarrow> stream \<Rightarrow> exit_state checked option" where
  "trace_file mx w g file_type file =
     (let failure = (\<lambda>out err. Some (Inr \<lparr>ex_status = 1, ex_stdout = out, ex_stderr = err\<rparr>));
          file_length = st_length file; data = st_bytes file
      in if file_length = -1 then failure [] (perror w ''ftell'')
         else if int (length data) \<noteq> file_length then failure [] (''couldn't read entire file'' @ [LF])
         else
           (case http_parser_execute mx trace_settings (http_parser_init (g\<lparr>hp_data := []\<rparr>) file_type) data of
              None \<Rightarrow> None
            | Some (Abort r) \<Rightarrow> Some (Inl r)
            | Some (Return nparsed q) \<Rightarrow>
                if int nparsed \<noteq> file_length then
                  Some (checked_bind (http_errno_description (hp_http_errno q)) (\<lambda>desc.
                        checked_bind (http_errno_name (hp_http_errno q)) (\<lambda>name.
                          Inr \<lparr>ex_status = 1, ex_stdout = hp_data q,
                            ex_stderr = ''Error: '' @ desc @ '' ('' @ name @ '')'' @ [LF]\<rparr>)))
                else Some (Inr \<lparr>ex_status = 0, ex_stdout = hp_data q, ex_stderr = []\<rparr>)
            | Some _ \<Rightarrow> None))"

definition trace_main :: "32 word \<Rightarrow> stream_env \<Rightarrow> string http_parser \<Rightarrow> string list \<Rightarrow> exit_state checked option" where
  "trace_main mx w g argv =
     (if length argv \<noteq> 3 then Some (Inr (usage (hd argv)))
      else
        (case file_type_of (argv ! 1) of
           None \<Rightarrow> Some (Inr (usage (argv ! 0)))
         | Some file_type \<Rightarrow>
             (case se_open w (argv ! 2) of
                None \<Rightarrow> Some (Inl Out_of_bounds)
              | Some file \<Rightarrow> trace_file mx w g file_type file)))"

lemmas trace_defs = trace_on_message_begin_def trace_on_headers_complete_def trace_on_message_complete_def
  trace_on_url_def trace_on_header_field_def trace_on_header_value_def trace_on_body_def trace_event_def

interpretation trace: parser_callbacks trace_settings
  by unfold_locales
    (auto simp: notify_cbs_def data_cbs_def trace_settings_def http_parser_settings_init_def trace_defs
      callback_ok_def callback_frame_def)

interpretation trace_data: data_transformers trace_settings
    "\<lambda>d. d @ [LF] @ ''***MESSAGE BEGIN***'' @ [LF, LF]"
    "\<lambda>m b d. Inr (d @ ''Url: '' @ precision_text b @ [LF])"
    "\<lambda>b d. d @ ''Header field: '' @ precision_text b @ [LF]" "\<lambda>b d. d @ ''Header value: '' @ precision_text b @ [LF]"
    "\<lambda>d. d @ [LF] @ ''***HEADERS COMPLETE***'' @ [LF, LF]" "\<lambda>d. d @ [LF] @ ''***MESSAGE COMPLETE***'' @ [LF, LF]"
  by unfold_locales (simp_all add: trace_settings_def http_parser_settings_init_def trace_defs fun_eq_iff)

text \<open>What a trace of a request without a body consists of.\<close>

definition request_trace :: "string \<Rightarrow> header list \<Rightarrow> string" where
  "request_trace u hs =
     [LF] @ ''***MESSAGE BEGIN***'' @ [LF, LF] @ ''Url: '' @ precision_text u @ [LF] @
     concat (map (\<lambda>(n, v). ''Header field: '' @ precision_text n @ [LF] @ ''Header value: '' @ precision_text v @ [LF]) hs) @
     [LF] @ ''***HEADERS COMPLETE***'' @ [LF, LF] @ [LF] @ ''***MESSAGE COMPLETE***'' @ [LF, LF]"

lemma trace_headers:
  "fold (\<lambda>(n, v) d. (d @ ''Header field: '' @ precision_text n @ [LF]) @ ''Header value: '' @ precision_text v @ [LF]) hs d =
    d @ concat (map (\<lambda>(n, v). ''Header field: '' @ precision_text n @ [LF] @ ''Header value: '' @ precision_text v @ [LF]) hs)"
  by (induction hs arbitrary: d) auto

text \<open>A file with a request prints the trace of the request, and nothing but it.\<close>

lemma trace_main_request:
  assumes "url_accepted m u" and "major < 10" and "minor < 10" and "\<forall>h \<in> set hs. plain_header h"
    and "length (request_text m u major minor hs) \<le> unat mx"
    and "se_open w name = Some \<lparr>st_length = int (length (request_text m u major minor hs)), st_bytes = request_text m u major minor hs\<rparr>"
  shows "trace_main mx w g [prog, ''-q'', name] =
    Some (Inr \<lparr>ex_status = 0, ex_stdout = request_trace u hs, ex_stderr = []\<rparr>)"
proof -
  obtain q' where "http_parser_execute mx trace_settings (http_parser_init (g\<lparr>hp_data := []\<rparr>) HTTP_REQUEST)
      (request_text m u major minor hs) = Some (Return (length (request_text m u major minor hs)) q')"
    "hp_data q' = request_trace u hs"
    using trace_data.parse_request [OF assms(1-5), of "g\<lparr>hp_data := []\<rparr>"]
    by (auto simp: trace_headers [simplified] request_trace_def)
  then show ?thesis
    using assms(6) by (simp add: trace_main_def file_type_of_def trace_file_def)
qed

text \<open>The tool returns on every file that can be opened; the parser does not fail in it.\<close>

lemma trace_file_returns:
  assumes "length (st_bytes file) < 2 ^ 64"
  shows "trace_file mx w g t file = Some (Inl Process_abort) \<or> (\<exists>s. trace_file mx w g t file = Some (Inr s))"
proof -
  let ?x = "http_parser_execute mx trace_settings (http_parser_init (g\<lparr>hp_data := []\<rparr>) t) (st_bytes file)"
  have "usable (http_parser_init (g\<lparr>hp_data := []\<rparr>) t)" by (simp add: usable_def parser_inv_init)
  from trace.execute_ok [OF this assms] have "call_ok (st_bytes file) ?x" .
  then consider r where "?x = Some (Abort Process_abort)" | n q where "?x = Some (Return n q)"
    by (auto simp: call_ok_def split: option.splits outcome.splits)
  then show ?thesis
    by cases (auto simp: trace_file_def Let_def http_errno_description_def http_errno_name_def errno_num_less)
qed

section \<open>url_parser\<close>

fun to_hex :: "nat \<Rightarrow> string" where
  "to_hex n = (if n < 16 then [''0123456789abcdef'' ! n] else to_hex (n div 16) @ [''0123456789abcdef'' ! (n mod 16)])"

declare to_hex.simps [simp del]

definition all_url_fields :: "http_parser_url_fields list" where
  "all_url_fields = [UF_SCHEMA, UF_HOST, UF_PORT, UF_PATH, UF_QUERY, UF_FRAGMENT, UF_USERINFO]"

definition dump_url_field :: "string \<Rightarrow> http_parser_url \<Rightarrow> http_parser_url_fields \<Rightarrow> string" where
  "dump_url_field url u f =
     (let i = to_dec (uf_bit f); off = unat (uf_off u f); len = unat (uf_len u f)
      in if \<not> has_field u f then [HT] @ ''field_data['' @ i @ '']: unset'' @ [LF]
         else [HT] @ ''field_data['' @ i @ '']: off: '' @ to_dec off @ '', len: '' @ to_dec len @
           '', part: '' @ take len (drop off url) @ [LF])"

definition dump_url :: "string \<Rightarrow> http_parser_url \<Rightarrow> string" where
  "dump_url url u =
     [HT] @ ''field_set: 0x'' @ to_hex (unat (field_set u)) @ '', port: '' @ to_dec (unat (url_port u)) @ [LF] @
     concat (map (dump_url_field url u) all_url_fields)"

text \<open>The arguments are C strings, without a NUL inside and shorter than \<open>2 ^ 31\<close>.\<close>

definition url_main :: "string list \<Rightarrow> exit_state checked" where
  "url_main argv =
     (if length argv \<noteq> 3 then
        Inr \<lparr>ex_status = 1, ex_stdout = ''Syntax : '' @ hd argv @ '' connect|get url'' @ [LF], ex_stderr = []\<rparr>
      else
        let url = argv ! 2; is_connect = (argv ! 1 = ''connect'');
            parsing = ''Parsing '' @ url @ '', connect '' @ (if is_connect then ''1'' else ''0'') @ [LF]
        in checked_bind (http_parser_parse_url url is_connect http_parser_url_init) (\<lambda>(result, u).
             if result \<noteq> 0 then
               Inr \<lparr>ex_status = result, ex_stdout = parsing @ ''Parse error : '' @ int_to_dec result @ [LF], ex_stderr = []\<rparr>
             else
               Inr \<lparr>ex_status = 0, ex_stdout = parsing @ ''Parse ok, result : '' @ [LF] @ dump_url url u, ex_stderr = []\<rparr>))"

text \<open>Every argument gets an answer.\<close>

lemma url_main_returns: "\<exists>s. url_main argv = Inr s"
proof -
  obtain r u where "http_parser_parse_url (argv ! 2) (argv ! 1 = ''connect'') http_parser_url_init = Inr (r, u)"
    using http_parser_parse_url_ok by blast
  then show ?thesis by (simp add: url_main_def Let_def)
qed

section \<open>bench\<close>

definition bench_data :: string where
  "bench_data =
     ''POST /joyent/http-parser HTTP/1.1'' @ [CR, LF] @
     ''Host: github.com'' @ [CR, LF] @
     ''DNT: 1'' @ [CR, LF] @
     ''Accept-Encoding: gzip, deflate, sdch'' @ [CR, LF] @
     ''Accept-Language: ru-RU,ru;q=0.8,en-US;q=0.6,en;q=0.4'' @ [CR, LF] @
     ''User-Agent: Mozilla/5.0 (Macintosh; Intel Mac OS X 10_10_1) '' @
       ''AppleWebKit/537.36 (KHTML, like Gecko) '' @
       ''Chrome/39.0.2171.65 Safari/537.36'' @ [CR, LF] @
     ''Accept: text/html,application/xhtml+xml,application/xml;q=0.9,'' @
       ''image/webp,*/*;q=0.8'' @ [CR, LF] @
     ''Referer: https://github.com/joyent/http-parser'' @ [CR, LF] @
     ''Connection: keep-alive'' @ [CR, LF] @
     ''Transfer-Encoding: chunked'' @ [CR, LF] @
     ''Cache-Control: max-age=0'' @ [CR, LF, CR, LF] @ ''b'' @ [CR, LF] @ ''hello world'' @ [CR, LF] @ ''0'' @ [CR, LF]"

text \<open>The tables have no user's data.\<close>

definition on_info :: "unit http_cb" where
  "on_info p = Inr (0, p)"

definition on_data :: "unit http_data_cb" where
  "on_data at p = Inr (0, p)"

definition bench_settings :: "unit http_parser_settings" where
  "bench_settings = http_parser_settings_init\<lparr>
     on_message_begin := Some on_info,
     on_headers_complete := Some on_info,
     on_message_complete := Some on_info,
     on_header_field := Some on_data,
     on_header_value := Some on_data,
     on_url := Some on_data,
     on_status := Some on_data,
     on_body := Some on_data\<rparr>"

text \<open>The loop over the iterations; the parser object is the one of the round before.\<close>

fun bench_rounds :: "32 word \<Rightarrow> nat \<Rightarrow> unit http_parser \<Rightarrow> unit http_parser checked option" where
  "bench_rounds mx 0 q = Some (Inr q)"
| "bench_rounds mx (Suc i) q =
     (case http_parser_execute mx bench_settings (http_parser_init q HTTP_REQUEST) bench_data of
        None \<Rightarrow> None
      | Some (Return parsed q) \<Rightarrow>
          if parsed = length bench_data then bench_rounds mx i q else Some (Inl Assertion)
      | Some (Abort r) \<Rightarrow> Some (Inl r)
      | Some _ \<Rightarrow> None)"

text \<open>
  \<^verbatim>\<open>gettimeofday\<close> is read before and after (the result and the time); the report is made of
  floating-point numbers, which \<open>report\<close> turns into text.
\<close>

definition bench ::
  "32 word \<Rightarrow> (int \<Rightarrow> 't \<Rightarrow> 't \<Rightarrow> string) \<Rightarrow> int \<times> 't \<Rightarrow> int \<times> 't \<Rightarrow> unit http_parser \<Rightarrow> int \<Rightarrow> bool \<Rightarrow> exit_state checked option" where
  "bench mx report start stop g iter_count silent =
     (if \<not> silent \<and> fst start \<noteq> 0 then Some (Inl Assertion)
      else
        let err = ''req_len='' @ to_dec (length bench_data) @ [LF]
        in case bench_rounds mx (nat iter_count) g of
             None \<Rightarrow> None
           | Some (Inl r) \<Rightarrow> Some (Inl r)
           | Some (Inr q) \<Rightarrow>
               if silent then Some (Inr \<lparr>ex_status = 0, ex_stdout = [], ex_stderr = err\<rparr>)
               else if fst stop \<noteq> 0 then Some (Inl Assertion)
               else Some (Inr \<lparr>ex_status = 0,
                 ex_stdout = ''Benchmark result:'' @ [LF] @ report iter_count (snd start) (snd stop), ex_stderr = err\<rparr>))"

definition kBytes :: int where
  "kBytes = 8 * 2 ^ 30"

definition bench_iterations :: int where
  "bench_iterations = kBytes div int (length bench_data)"

text \<open>\<^verbatim>\<open>infinite\<close>: the benchmark again and again, until an assertion fails (the standard error is dropped).\<close>

partial_function (option) bench_forever :: "32 word \<Rightarrow> unit http_parser \<Rightarrow> exit_state checked option" where
  "bench_forever mx g =
     (case bench mx (\<lambda>_ _ _. []) (0, ()) (0, ()) g bench_iterations True of
        None \<Rightarrow> None
      | Some (Inl r) \<Rightarrow> Some (Inl r)
      | Some (Inr s) \<Rightarrow> bench_forever mx g)"

definition bench_main ::
  "32 word \<Rightarrow> (int \<Rightarrow> 't \<Rightarrow> 't \<Rightarrow> string) \<Rightarrow> int \<times> 't \<Rightarrow> int \<times> 't \<Rightarrow> unit http_parser \<Rightarrow> string list \<Rightarrow> exit_state checked option" where
  "bench_main mx report start stop g argv =
     (if length argv = 2 \<and> argv ! 1 = ''infinite'' then bench_forever mx g
      else bench mx report start stop g bench_iterations False)"

interpretation bench_table: parser_callbacks bench_settings
  by unfold_locales
    (auto simp: notify_cbs_def data_cbs_def bench_settings_def http_parser_settings_init_def on_info_def on_data_def
      callback_ok_def callback_frame_def)

text \<open>Every call of the benchmark returns: it can fail in its own assertions only.\<close>

lemma bench_rounds_return:
  "bench_rounds mx i g = Some (Inl Assertion) \<or> bench_rounds mx i g = Some (Inl Process_abort) \<or>
   (\<exists>q. bench_rounds mx i g = Some (Inr q))"
proof (induction i arbitrary: g)
  case (Suc i)
  let ?x = "http_parser_execute mx bench_settings (http_parser_init g HTTP_REQUEST) bench_data"
  have "usable (http_parser_init g HTTP_REQUEST)" by (simp add: usable_def parser_inv_init)
  moreover have "length bench_data < 2 ^ 64" by (simp add: bench_data_def)
  ultimately have "call_ok bench_data ?x" by (rule bench_table.execute_ok)
  then show ?case using Suc.IH by (auto simp: call_ok_def split: option.splits outcome.splits)
qed simp

end
