(* ===== verification/Loop_Teardown.thy ===== *)
theory Loop_Teardown
  imports Event_Loop Object_Text
begin

text \<open>
  The end of a loop: \<^verbatim>\<open>~EventLoop\<close> of \<^verbatim>\<open>src/core/event_loop.cpp\<close>, \<^verbatim>\<open>~Waker\<close> of \<^verbatim>\<open>event_loop.h\<close>. And the
  free functions for Linux of \<^verbatim>\<open>src/base/timer_queue.cpp\<close>, which set a timer descriptor.
\<close>

section \<open>Deleting a loop\<close>

text \<open>
  A loop with the handlers that have been deleted. An access to one of these is an access through an
  invalid pointer.
\<close>

record 'f teardown =
  td_loop :: "'f EventLoop"
  td_deleted :: "nat set"

definition delete_handler :: "nat \<Rightarrow> 'f teardown \<Rightarrow> 'f teardown checked" where
  "delete_handler eh t =
     (if eh \<in> td_deleted t then Inl Out_of_bounds else Inr (t\<lparr>td_deleted := insert eh (td_deleted t)\<rparr>))"

definition with_handler ::
  "nat \<Rightarrow> ('f EventLoop \<Rightarrow> 'f EventLoop checked) \<Rightarrow> 'f teardown \<Rightarrow> 'f teardown checked" where
  "with_handler eh f t =
     (if eh \<in> td_deleted t then Inl Out_of_bounds
      else checked_bind (f (td_loop t)) (\<lambda>s. Inr (t\<lparr>td_loop := s\<rparr>)))"

text \<open>
  The body of \<^verbatim>\<open>~EventLoop\<close>; \<open>ehs\<close> are the handlers of \<^verbatim>\<open>handler_map_\<close> in the order of the iterator. The
  map itself does not change meanwhile.
\<close>

fun delete_handlers :: "nat list \<Rightarrow> 'f teardown \<Rightarrow> 'f teardown checked" where
  "delete_handlers [] t = Inr t"
| "delete_handlers (eh # ehs) t =
     checked_bind (with_handler eh (pp_removeHandler eh) t) (\<lambda>t.
     checked_bind (delete_handler eh t) (delete_handlers ehs))"

text \<open>\<open>eh\<close> is the handler of the waker; closing the pipe has no effect on the loop.\<close>

definition destroy_Waker :: "nat \<Rightarrow> 'f teardown \<Rightarrow> 'f teardown checked" where
  "destroy_Waker eh t =
     checked_bind (with_handler eh (disableAll eh) t) (\<lambda>t.
     checked_bind (with_handler eh (el_removeHandler eh) t) (delete_handler eh))"

text \<open>After the body the members are destroyed, the last one first: the map, then the waker.\<close>

definition destroy_EventLoop :: "nat list \<Rightarrow> nat \<Rightarrow> 'f EventLoop \<Rightarrow> 'f teardown checked" where
  "destroy_EventLoop ehs waker s =
     checked_bind (delete_handlers ehs \<lparr>td_loop = s, td_deleted = {}\<rparr>) (\<lambda>t.
       destroy_Waker waker (t\<lparr>td_loop := (td_loop t)\<lparr>handler_map := Map.empty\<rparr>\<rparr>))"

lemma delete_handlers_deleted:
  "delete_handlers ehs t = Inr t' \<Longrightarrow> td_deleted t' = set ehs \<union> td_deleted t"
proof (induction ehs arbitrary: t)
  case (Cons eh ehs)
  then obtain s where "delete_handlers ehs (t\<lparr>td_loop := s, td_deleted := insert eh (td_deleted t)\<rparr>) = Inr t'"
    by (auto simp: checked_bind_Inr with_handler_def delete_handler_def split: if_splits)
  from Cons.IH [OF this] show ?case by simp
qed simp

text \<open>
  No loop can be destroyed: the handler of the waker is in the map, so that it has been deleted when
  \<^verbatim>\<open>~Waker\<close> uses it.
\<close>

lemma loop_cannot_be_destroyed:
  assumes "set ehs = ran (handler_map s)" and "waker \<in> ran (handler_map s)"
  shows "\<exists>r. destroy_EventLoop ehs waker s = Inl r"
proof (cases "delete_handlers ehs \<lparr>td_loop = s, td_deleted = {}\<rparr>")
  case (Inr t)
  from delete_handlers_deleted [OF Inr] have "waker \<in> td_deleted t" using assms by simp
  then show ?thesis by (simp add: destroy_EventLoop_def Inr destroy_Waker_def with_handler_def)
qed (simp add: destroy_EventLoop_def)

text \<open>A loop that has just been made, in which the handler of the waker is the only one.\<close>

lemma new_loop_cannot_be_destroyed:
  assumes "new_EventLoop mem eh fd cb = Inr s"
  shows "destroy_EventLoop [eh] eh s = Inl Out_of_bounds"
  using assms
  by (auto simp: new_EventLoop_def el_registerHandler_def pp_registerHandler_def enableRead_def el_updateHandler_def
      pp_updateHandler_def Let_def change_handler_def SetIndex_def setReadCallBack_def new_EventHandler_def
      setIEvents_def destroy_EventLoop_def with_handler_def pp_removeHandler_def delete_handler_def destroy_Waker_def)

section \<open>The timer descriptor\<close>

record timespec =
  tv_sec :: int
  tv_nsec :: int

text \<open>The time to wait in microseconds, at least 100, in seconds and nanoseconds.\<close>

definition timerfd_value :: "int \<Rightarrow> timespec" where
  "timerfd_value diff =
     (let diff = (if diff < 100 then 100 else diff)
      in \<lparr>tv_sec = diff sdiv kMicroSecondsPerSecond, tv_nsec = (diff smod kMicroSecondsPerSecond) * 1000\<rparr>)"

text \<open>
  \<^verbatim>\<open>resetTimerfd\<close>: the value given to \<^verbatim>\<open>timerfd_settime\<close> and what is printed. \<open>res\<close> is the result of that
  call, \<open>left\<close> what \<^verbatim>\<open>timerfd_gettime\<close> reports.
\<close>

definition resetTimerfd :: "TimeStamp \<Rightarrow> int \<Rightarrow> timespec \<Rightarrow> TimeStamp \<Rightarrow> timespec \<times> string" where
  "resetTimerfd now res left new_time =
     (let diff = getUnixTimeStamp new_time - getUnixTimeStamp now;
          ts = timerfd_value diff;
          endl = [CHR 0x0A]
      in (ts, int_to_dec diff @ endl @ ''before :: '' @ int_to_dec (tv_sec ts) @ endl @
            (if res \<noteq> 0 then TimeStamp_toString new_time @ endl else []) @
            ''after :: '' @ int_to_dec (tv_sec left) @ endl))"

text \<open>
  The descriptor is never disarmed, which the value 0 would do, and waits for the whole difference.
\<close>

lemma timerfd_value_waits:
  "tv_sec (timerfd_value d) * 1000000000 + tv_nsec (timerfd_value d) = max 100 d * 1000"
  "0 \<le> tv_sec (timerfd_value d)" "0 \<le> tv_nsec (timerfd_value d)" "tv_nsec (timerfd_value d) < 1000000000"
proof -
  define e where "e = max 100 d"
  have e: "0 < e" "e sdiv 1000000 = e div 1000000" "e smod 1000000 = e mod 1000000"
    by (simp_all add: e_def signed_divide_int_def signed_modulo_int_def)
  have v: "timerfd_value d = \<lparr>tv_sec = e sdiv 1000000, tv_nsec = (e smod 1000000) * 1000\<rparr>"
    by (simp add: timerfd_value_def e_def kMicroSecondsPerSecond_def max_def Let_def)
  have split: "a * 1000000000 + b * 1000 = e * 1000" if "a * 1000000 + b = e" for a b :: int
    using that by linarith
  have "e div 1000000 * 1000000000 + e mod 1000000 * 1000 = e * 1000" by (rule split) (rule div_mult_mod_eq)
  then show "tv_sec (timerfd_value d) * 1000000000 + tv_nsec (timerfd_value d) = max 100 d * 1000"
    using e v by (simp add: e_def [symmetric])
  have "0 \<le> e mod 1000000" "e mod 1000000 < 1000000" by simp_all
  then show "0 \<le> tv_sec (timerfd_value d)" "0 \<le> tv_nsec (timerfd_value d)" "tv_nsec (timerfd_value d) < 1000000000"
    using e v by (simp_all add: pos_imp_zdiv_nonneg_iff)
qed

end
