(* ===== verification/Kqueue_Poller.thy ===== *)
theory Kqueue_Poller
  imports Poller_Spec Time_Stamp
begin

text \<open>
  \<^verbatim>\<open>src/core/poll/KqueuePoller.h\<close> and \<^verbatim>\<open>KqueuePoller.cpp\<close>, the poller for systems
  with \<^verbatim>\<open>kqueue\<close>. The kernel is seen through the changes the poller submits, in order; a
  failed submission is only logged, so the poller's own state does not depend on it.
\<close>

section \<open>State\<close>

datatype kq_filter = EVFILT_READ | EVFILT_WRITE

record kevent =
  ke_ident :: int
  ke_filter :: kq_filter

datatype kq_change = EV_ADD kevent | EV_DELETE kevent

record 'f KqueuePoller =
  kq_mem :: "nat \<Rightarrow> 'f EventHandler"
  kq_map :: "int \<rightharpoonup> nat"
  kq_events :: "kevent list"
  kq_changes :: "kq_change list"

definition new_KqueuePoller :: "(nat \<Rightarrow> 'f EventHandler) \<Rightarrow> 'f KqueuePoller" where
  "new_KqueuePoller mem = \<lparr>kq_mem = mem, kq_map = Map.empty, kq_events = [], kq_changes = []\<rparr>"

section \<open>Operations\<close>

text \<open>
  The two conditional \<^verbatim>\<open>EV_SET\<close>/\<^verbatim>\<open>kevent\<close> blocks, which the three operations share;
  the result is also the local structure \<^verbatim>\<open>ke\<close>, which starts as garbage \<open>g\<close>.
\<close>

definition set_filters ::
  "(kevent \<Rightarrow> kq_change) \<Rightarrow> kevent \<Rightarrow> nat \<Rightarrow> 'f KqueuePoller \<Rightarrow> kevent \<times> 'f KqueuePoller" where
  "set_filters action g h s =
     (let hd = kq_mem s h;
          (ke, s) = (if isReading hd then
                       (let ke = \<lparr>ke_ident = eh_handle hd, ke_filter = EVFILT_READ\<rparr>
                        in (ke, s\<lparr>kq_changes := kq_changes s @ [action ke]\<rparr>))
                     else (g, s))
      in if isWriting hd then
           (let ke = \<lparr>ke_ident = eh_handle hd, ke_filter = EVFILT_WRITE\<rparr>
            in (ke, s\<lparr>kq_changes := kq_changes s @ [action ke]\<rparr>))
         else (ke, s))"

definition kq_registerHandler :: "kevent \<Rightarrow> nat \<Rightarrow> 'f KqueuePoller \<Rightarrow> 'f KqueuePoller checked" where
  "kq_registerHandler g h s =
     (if kq_map s (eh_handle (kq_mem s h)) \<noteq> None then Inl Assertion
      else
        case set_filters EV_ADD g h s of (ke, s) \<Rightarrow>
          let s = s\<lparr>kq_map := (kq_map s)(eh_handle (kq_mem s h) \<mapsto> h)\<rparr>
          in Inr (s\<lparr>kq_events := kq_events s @ [ke]\<rparr>))"

definition kq_updateHandler :: "kevent \<Rightarrow> nat \<Rightarrow> 'f KqueuePoller \<Rightarrow> 'f KqueuePoller checked" where
  "kq_updateHandler g h s =
     (if kq_map s (eh_handle (kq_mem s h)) = None then Inl Assertion
      else Inr (snd (set_filters EV_ADD g h s)))"

definition kq_removeHandler :: "kevent \<Rightarrow> nat \<Rightarrow> 'f KqueuePoller \<Rightarrow> 'f KqueuePoller checked" where
  "kq_removeHandler g h s =
     (if kq_map s (eh_handle (kq_mem s h)) = None then Inl Assertion
      else
        let s = snd (set_filters EV_DELETE g h s);
            s = s\<lparr>kq_map := (kq_map s)(eh_handle (kq_mem s h) := None)\<rparr>
        in if kq_events s = [] then Inl Out_of_bounds
           else Inr (s\<lparr>kq_events := butlast (kq_events s)\<rparr>))"

text \<open>
  \<^verbatim>\<open>Wait\<close>: \<open>kevent n timeout\<close> are the events the system call stores, \<open>None\<close> when it
  fails. The timeout is seconds and nanoseconds.
\<close>

definition kq_timeout :: "TimeStamp \<Rightarrow> (int \<times> int) option" where
  "kq_timeout time_stamp =
     (if getUnixTimeStamp time_stamp \<noteq> 0 then Some (toSeconds time_stamp, 1000) else None)"

definition kq_count :: "int \<Rightarrow> 'f KqueuePoller \<Rightarrow> nat" where
  "kq_count sz s =
     (if sz = -1 \<or> sz > int (length (kq_events s)) \<or> sz < 0 then length (kq_events s) else nat sz)"

fun kq_report ::
  "kevent list \<Rightarrow> 'f KqueuePoller \<Rightarrow> nat list \<Rightarrow> (nat list \<times> 'f KqueuePoller) checked" where
  "kq_report [] s res = Inr (res, s)"
| "kq_report (e # es) s res =
     (case kq_map s (ke_ident e) of
        None \<Rightarrow> Inl Assertion
      | Some h \<Rightarrow>
          let mask = (if ke_filter e = EVFILT_READ then kEventRead else 0);
              mask = (if ke_filter e = EVFILT_WRITE then mask OR kEventWrite else mask)
          in kq_report es (s\<lparr>kq_mem := (kq_mem s)(h := setREvents mask (kq_mem s h))\<rparr>) (res @ [h]))"

definition kq_Wait ::
  "(nat \<Rightarrow> (int \<times> int) option \<Rightarrow> kevent list option) \<Rightarrow> int \<Rightarrow> TimeStamp \<Rightarrow> 'f KqueuePoller \<Rightarrow>
     (nat list \<times> 'f KqueuePoller) checked" where
  "kq_Wait kevent_call sz time_stamp s =
     (case kevent_call (kq_count sz s) (kq_timeout time_stamp) of
        None \<Rightarrow> Inr ([], s)
      | Some es \<Rightarrow>
          let s = s\<lparr>kq_events := es @ drop (length es) (kq_events s)\<rparr>
          in kq_report es s [])"

section \<open>Invariant and contract\<close>

text \<open>The buffer for the events is as long as the number of registered descriptors.\<close>

definition kq_inv :: "'f KqueuePoller \<Rightarrow> bool" where
  "kq_inv s \<longleftrightarrow>
     finite (dom (kq_map s)) \<and> length (kq_events s) = card (dom (kq_map s)) \<and>
     (\<forall>fd h. kq_map s fd = Some h \<longrightarrow> eh_handle (kq_mem s h) = fd)"

definition kq_registered :: "'f KqueuePoller \<Rightarrow> nat set" where
  "kq_registered s = ran (kq_map s)"

definition kq_fresh :: "'f KqueuePoller \<Rightarrow> nat \<Rightarrow> bool" where
  "kq_fresh s h \<longleftrightarrow> kq_map s (eh_handle (kq_mem s h)) = None"

lemma set_filters_frame [simp]:
  "kq_map (snd (set_filters a g h s)) = kq_map s"
  "kq_mem (snd (set_filters a g h s)) = kq_mem s"
  "kq_events (snd (set_filters a g h s)) = kq_events s"
  by (simp_all add: set_filters_def Let_def)

lemma kq_invD: "kq_inv s \<Longrightarrow> kq_map s fd = Some h \<Longrightarrow> eh_handle (kq_mem s h) = fd"
  unfolding kq_inv_def by blast

lemma kq_registered_handle:
  "kq_inv s \<Longrightarrow> h \<in> kq_registered s \<Longrightarrow> kq_map s (eh_handle (kq_mem s h)) = Some h"
  unfolding kq_registered_def ran_def using kq_invD by blast

lemma kq_register_ok:
  assumes inv: "kq_inv s" and "kq_fresh s h"
  shows "\<exists>s'. kq_registerHandler g h s = Inr s' \<and> kq_inv s' \<and> kq_registered s' = insert h (kq_registered s)"
proof -
  let ?fd = "eh_handle (kq_mem s h)" and ?p = "set_filters EV_ADD g h s"
  let ?s = "(snd ?p)\<lparr>kq_map := (kq_map s)(?fd \<mapsto> h), kq_events := kq_events s @ [fst ?p]\<rparr>"
  have new: "kq_map s ?fd = None" using assms(2) by (simp add: kq_fresh_def)
  then have "kq_registerHandler g h s = Inr ?s"
    by (simp add: kq_registerHandler_def case_prod_beta Let_def)
  moreover have "kq_inv ?s"
    unfolding kq_inv_def
  proof (intro conjI allI impI)
    have fin: "finite (dom (kq_map s))" and len: "length (kq_events s) = card (dom (kq_map s))"
      using inv by (simp_all add: kq_inv_def)
    then show "finite (dom (kq_map ?s))" by simp
    have "?fd \<notin> dom (kq_map s)" using new by blast
    with fin len show "length (kq_events ?s) = card (dom (kq_map ?s))" by simp
    fix fd k
    assume "kq_map ?s fd = Some k"
    then show "eh_handle (kq_mem ?s k) = fd"
      using kq_invD [OF inv, of fd k] by (cases "fd = ?fd") simp_all
  qed
  moreover have "kq_registered ?s = insert h (kq_registered s)" using new by (simp add: kq_registered_def)
  ultimately show ?thesis by blast
qed

lemma kq_update_ok:
  assumes "kq_inv s" and "h \<in> kq_registered s"
  shows "\<exists>s'. kq_updateHandler g h s = Inr s' \<and> kq_inv s' \<and> kq_registered s' = kq_registered s"
proof -
  let ?s = "snd (set_filters EV_ADD g h s)"
  have "kq_updateHandler g h s = Inr ?s"
    using kq_registered_handle [OF assms] by (simp add: kq_updateHandler_def)
  moreover have "kq_inv ?s" using assms(1) unfolding kq_inv_def set_filters_frame .
  ultimately show ?thesis by (simp add: kq_registered_def)
qed

lemma kq_remove_ok:
  assumes inv: "kq_inv s" and h: "h \<in> kq_registered s"
  shows "\<exists>s'. kq_removeHandler g h s = Inr s' \<and> kq_inv s' \<and> kq_registered s' = kq_registered s - {h}"
proof -
  let ?fd = "eh_handle (kq_mem s h)"
  have m: "kq_map s ?fd = Some h" using inv h by (rule kq_registered_handle)
  let ?s = "(snd (set_filters EV_DELETE g h s))
    \<lparr>kq_map := (kq_map s)(?fd := None), kq_events := butlast (kq_events s)\<rparr>"
  have fin: "finite (dom (kq_map s))" and len: "length (kq_events s) = card (dom (kq_map s))"
    using inv by (simp_all add: kq_inv_def)
  have d: "?fd \<in> dom (kq_map s)" using m by blast
  then have "card (dom (kq_map s)) > 0" using fin by (metis card_gt_0_iff empty_iff)
  then have ne: "kq_events s \<noteq> []" using len by auto
  with m have "kq_removeHandler g h s = Inr ?s" by (simp add: kq_removeHandler_def Let_def)
  moreover have "kq_inv ?s"
    unfolding kq_inv_def
  proof (intro conjI allI impI)
    show "finite (dom (kq_map ?s))" using fin by simp
    show "length (kq_events ?s) = card (dom (kq_map ?s))"
      using len fin d by (simp add: card_Diff_singleton)
    fix fd k
    assume "kq_map ?s fd = Some k"
    then show "eh_handle (kq_mem ?s k) = fd"
      using kq_invD [OF inv, of fd k] by (cases "fd = ?fd") simp_all
  qed
  moreover have "kq_registered ?s = kq_registered s - {h}"
  proof -
    have "fd = ?fd" if "kq_map s fd = Some h" for fd using kq_invD [OF inv that] by simp
    from ran_map_remove [of "kq_map s", OF m this] show ?thesis by (simp add: kq_registered_def)
  qed
  ultimately show ?thesis by blast
qed

interpretation kqueue: poller "kq_registerHandler g" "kq_updateHandler g" "kq_removeHandler g"
  kq_inv kq_registered kq_fresh "\<lambda>_ _. True" for g
  by unfold_locales (simp_all add: kq_register_ok kq_update_ok kq_remove_ok)

section \<open>Properties\<close>

text \<open>What is installed in the kernel after changes that all succeed.\<close>

fun apply_change :: "kq_change \<Rightarrow> kevent set \<Rightarrow> kevent set" where
  "apply_change (EV_ADD e) F = insert e F"
| "apply_change (EV_DELETE e) F = F - {e}"

definition installed :: "'f KqueuePoller \<Rightarrow> kevent set" where
  "installed s = fold apply_change (kq_changes s) {}"

lemma installed_set_filters:
  "installed (snd (set_filters EV_ADD g h s)) =
     installed s \<union> {e. ke_ident e = eh_handle (kq_mem s h) \<and>
       e = \<lparr>ke_ident = ke_ident e, ke_filter = ke_filter e\<rparr> \<and>
       (ke_filter e = EVFILT_READ \<and> isReading (kq_mem s h) \<or>
        ke_filter e = EVFILT_WRITE \<and> isWriting (kq_mem s h))}"
  by (auto simp: set_filters_def installed_def Let_def)

lemma installed_delete:
  "\<lparr>ke_ident = fd, ke_filter = EVFILT_READ\<rparr> \<in> installed s \<Longrightarrow> \<not> isReading (kq_mem s h) \<Longrightarrow>
     \<lparr>ke_ident = fd, ke_filter = EVFILT_READ\<rparr> \<in> installed (snd (set_filters EV_DELETE g h s))"
  by (auto simp: set_filters_def installed_def Let_def)

text \<open>
  C22. \<^verbatim>\<open>KqueuePoller\<close> implements the abstract poller, too: every program of allowed
  operations runs without a failed assertion, never pops the empty event buffer, and the
  buffer handed to the kernel has one place for each registered descriptor.
\<close>

theorem kqueue_refines_set:
  assumes "kqueue.all_allowed g ops (new_KqueuePoller mem)"
  shows "\<exists>s'. kqueue.exec_ops g ops (new_KqueuePoller mem) = Inr s' \<and>
    kq_registered s' = fold kqueue.effect ops {} \<and>
    length (kq_events s') = card (dom (kq_map s'))"
proof -
  have "kq_inv (new_KqueuePoller mem)" by (simp add: kq_inv_def new_KqueuePoller_def)
  from kqueue.exec_ops_refine [OF this assms] show ?thesis
    by (auto simp: kq_inv_def kq_registered_def new_KqueuePoller_def)
qed

definition kq_example :: "nat \<Rightarrow> nat EventHandler" where
  "kq_example h = new_EventHandler (int h + 3) kEventRead"

lemma kq_example_simps [simp]:
  "eh_handle (kq_example h) = int h + 3" "isReading (kq_example h)" "\<not> isWriting (kq_example h)"
  by (simp_all add: kq_example_def new_EventHandler_def isReading_def isWriting_def event_bits)

theorem kqueue_refines_set_witness:
  "\<exists>s'. kqueue.exec_ops \<lparr>ke_ident = 0, ke_filter = EVFILT_READ\<rparr> [Register 0, Register 1, Remove 0]
      (new_KqueuePoller kq_example) = Inr s' \<and> kq_registered s' = {1}"
proof -
  let ?ops = "[Register 0, Register 1, Remove 0]" and ?g = "\<lparr>ke_ident = 0, ke_filter = EVFILT_READ\<rparr>"
  have "kqueue.all_allowed ?g ?ops (new_KqueuePoller kq_example)"
    by (simp add: kqueue.exec_op_def kqueue.allowed_def kq_fresh_def kq_registerHandler_def
        set_filters_def Let_def new_KqueuePoller_def kq_registered_def)
  from kqueue_refines_set [OF this] show ?thesis by (auto simp: kqueue.effect_def)
qed

text \<open>
  C33. Disabling reading does not reach the kernel: \<^verbatim>\<open>updateHandler\<close> only adds filters, so
  after \<^verbatim>\<open>disableRead\<close> the read filter of the descriptor is still installed, and
  \<^verbatim>\<open>removeHandler\<close> of the disabled handler leaves it installed as well.
\<close>

theorem kqueue_disable_keeps_filter:
  assumes "kq_inv s" and "h \<in> kq_registered s"
    and "\<lparr>ke_ident = eh_handle (kq_mem s h), ke_filter = EVFILT_READ\<rparr> \<in> installed s"
  shows "\<exists>s' s''. kq_updateHandler g h
        (s\<lparr>kq_mem := (kq_mem s)(h := clear_interest kEventRead (kq_mem s h))\<rparr>) = Inr s' \<and>
    kq_removeHandler g h s' = Inr s'' \<and>
    \<lparr>ke_ident = eh_handle (kq_mem s h), ke_filter = EVFILT_READ\<rparr> \<in> installed s' \<inter> installed s''"
proof -
  let ?e = "\<lparr>ke_ident = eh_handle (kq_mem s h), ke_filter = EVFILT_READ\<rparr>"
  let ?s = "s\<lparr>kq_mem := (kq_mem s)(h := clear_interest kEventRead (kq_mem s h))\<rparr>"
  let ?s1 = "snd (set_filters EV_ADD g h ?s)"
  let ?s2 = "(snd (set_filters EV_DELETE g h ?s1))
    \<lparr>kq_map := (kq_map s)(eh_handle (kq_mem s h) := None), kq_events := butlast (kq_events s)\<rparr>"
  have m: "kq_map s (eh_handle (kq_mem s h)) = Some h" using assms(1,2) by (rule kq_registered_handle)
  have fd: "eh_handle (clear_interest kEventRead (kq_mem s h)) = eh_handle (kq_mem s h)"
    by (simp add: clear_interest_def)
  have "dom (kq_map s) \<noteq> {}" using m by blast
  with assms(1) have "kq_events s \<noteq> []" by (auto simp: kq_inv_def card_eq_0_iff)
  with m fd have "kq_updateHandler g h ?s = Inr ?s1" "kq_removeHandler g h ?s1 = Inr ?s2"
    by (simp_all add: kq_updateHandler_def kq_removeHandler_def Let_def)
  moreover have e1: "?e \<in> installed ?s1"
    using assms(3) by (simp add: installed_set_filters) (simp add: installed_def)
  moreover have "?e \<in> installed ?s2"
    using installed_delete [OF e1, of h g] by (simp add: installed_def)
  ultimately show ?thesis by blast
qed

theorem kqueue_disable_keeps_filter_witness:
  "\<exists>s s' s''. kq_updateHandler \<lparr>ke_ident = 0, ke_filter = EVFILT_READ\<rparr> 0
       (s\<lparr>kq_mem := (kq_mem s)(0 := clear_interest kEventRead (kq_mem s 0))\<rparr>) = Inr s' \<and>
     kq_removeHandler \<lparr>ke_ident = 0, ke_filter = EVFILT_READ\<rparr> 0 s' = Inr s'' \<and>
     \<lparr>ke_ident = 3, ke_filter = EVFILT_READ\<rparr> \<in> installed (s'' :: nat KqueuePoller)"
proof -
  let ?g = "\<lparr>ke_ident = 0, ke_filter = EVFILT_READ\<rparr>"
  let ?s = "\<lparr>kq_mem = kq_example, kq_map = [3 \<mapsto> 0], kq_events = [?g],
    kq_changes = [EV_ADD \<lparr>ke_ident = 3, ke_filter = EVFILT_READ\<rparr>]\<rparr>"
  have "kq_inv ?s" "0 \<in> kq_registered ?s"
    by (auto simp: kq_inv_def kq_registered_def split: if_splits)
  moreover have "\<lparr>ke_ident = eh_handle (kq_mem ?s 0), ke_filter = EVFILT_READ\<rparr> \<in> installed ?s"
    by (simp add: installed_def)
  ultimately show ?thesis using kqueue_disable_keeps_filter [of ?s 0 ?g] by fastforce
qed

end
