(* ===== verification/Epoll_Demultiplexer.thy ===== *)
theory Epoll_Demultiplexer
  imports Event_Handler
begin

text \<open>
  \<^verbatim>\<open>src/core/poll/sync_event_demultiplexer.h\<close> and \<^verbatim>\<open>sync_event_demultiplexer.cpp\<close>: the first
  poller of the program, on \<^verbatim>\<open>epoll\<close>. It is no longer part of the build; its \<^verbatim>\<open>Wait\<close> is declared
  with handlers as its result and defined with events. The kernel's side, of type \<open>'k\<close>, and
  \<^verbatim>\<open>epoll_ctl\<close> are parameters.
\<close>

datatype ctl_op = EPOLL_CTL_ADD | EPOLL_CTL_MOD | EPOLL_CTL_DEL

type_synonym 'k epoll_ctl = "int \<Rightarrow> ctl_op \<Rightarrow> int \<Rightarrow> events \<Rightarrow> 'k \<Rightarrow> int \<times> 'k"

record 'k SyncEventDemultiplexer =
  sed_fd :: int
  sed_kernel :: 'k

text \<open>The three operations ignore the result of the call.\<close>

definition sed_ctl ::
  "'k epoll_ctl \<Rightarrow> ctl_op \<Rightarrow> 'f EventHandler \<Rightarrow> 'k SyncEventDemultiplexer \<Rightarrow> 'k SyncEventDemultiplexer" where
  "sed_ctl ctl op h s =
     s\<lparr>sed_kernel := snd (ctl (sed_fd s) op (eh_handle h) (eh_ievents h) (sed_kernel s))\<rparr>"

definition sed_Register ::
  "'k epoll_ctl \<Rightarrow> 'f EventHandler \<Rightarrow> 'k SyncEventDemultiplexer \<Rightarrow> 'k SyncEventDemultiplexer" where
  "sed_Register ctl h s = sed_ctl ctl EPOLL_CTL_ADD h s"

definition sed_Remove ::
  "'k epoll_ctl \<Rightarrow> 'f EventHandler \<Rightarrow> 'k SyncEventDemultiplexer \<Rightarrow> 'k SyncEventDemultiplexer" where
  "sed_Remove ctl h s = sed_ctl ctl EPOLL_CTL_DEL h s"

definition sed_Update ::
  "'k epoll_ctl \<Rightarrow> 'f EventHandler \<Rightarrow> 'k SyncEventDemultiplexer \<Rightarrow> 'k SyncEventDemultiplexer" where
  "sed_Update ctl h s = sed_ctl ctl EPOLL_CTL_MOD h s"

datatype EventStatus = EventStatus (es_fd: int) (es_revents: events)

definition sed_kMaxEventsSize :: nat where
  "sed_kMaxEventsSize = 5"

text \<open>
  \<^verbatim>\<open>Wait\<close> against a script of results of \<^verbatim>\<open>epoll_wait\<close>: the returned count with what the kernel
  wrote into the array of \<open>sed_kMaxEventsSize\<close> elements. \<open>None\<close>: it is still waiting when the
  script ends.
\<close>

fun sed_Wait :: "(int \<times> EventStatus list) list \<Rightarrow> EventStatus list \<Rightarrow> EventStatus list checked option" where
  "sed_Wait [] res = None"
| "sed_Wait ((ret, evlist) # script) res =
     (if ret > int (length evlist) then Some (Inl Out_of_bounds)
      else
        let res = res @ take (nat ret) evlist
        in if ret > 0 then Some (Inr res) else sed_Wait script res)"

text \<open>The results a kernel gives for an array of that size.\<close>

definition epoll_result :: "int \<times> EventStatus list \<Rightarrow> bool" where
  "epoll_result r \<longleftrightarrow> fst r \<le> int sed_kMaxEventsSize \<and> length (snd r) = sed_kMaxEventsSize"

text \<open>Time-outs and failures are skipped; the first events are returned as they are.\<close>

lemma sed_Wait_first:
  assumes "\<forall>r \<in> set skipped. epoll_result r \<and> fst r \<le> 0" and "epoll_result (ret, evlist)" and "0 < ret"
  shows "sed_Wait (skipped @ (ret, evlist) # script) [] = Some (Inr (take (nat ret) evlist))"
  using assms(1)
proof (induction skipped)
  case Nil
  then show ?case using assms(2,3) by (simp add: epoll_result_def)
next
  case (Cons r skipped)
  then show ?case by (cases r) (auto simp: epoll_result_def)
qed

end
