(* ===== verification/Tcp_Props.thy ===== *)
theory Tcp_Props
  imports Tcp_Connection
begin

text \<open>
  What the connections of \<^verbatim>\<open>tcp_connection.cpp\<close> guarantee: closing happens once, bytes
  are sent in order; and the kernel behaviours for which reading or writing goes wrong.
\<close>

section \<open>Examples\<close>

text \<open>A server that sends back what it gets, and a connection of it.\<close>

definition echo_env :: "unit conn_env" where
  "echo_env = \<lparr>ce_cap = 65536, ce_come = (), ce_message = (\<lambda>ctx buf. Inr ([Write buf], ctx)),
     ce_write_complete = (\<lambda>ctx. [])\<rparr>"

definition raw_conn :: "unit conn_state" where
  "raw_conn = construct_connection 9 0 7 quiet_loop 0"

definition echo_conn :: "unit conn_state" where
  "echo_conn = (case handleConnection echo_env raw_conn of Inr s \<Rightarrow> s | Inl _ \<Rightarrow> raw_conn)"

lemmas conn_defs = echo_conn_def raw_conn_def construct_connection_def quiet_loop_def
  new_TcpConnection_def handler_defs on_loop_def el_registerHandler_def pp_registerHandler_def
  change_handler_def enableRead_def el_updateHandler_def pp_updateHandler_def Let_def

lemma echo_conn_reach: "connection_reach echo_env echo_conn"
proof -
  have inv: "el_inv (cs_loop raw_conn)"
    by (simp add: raw_conn_def construct_connection_def Let_def el_inv_def pp_inv_def quiet_loop_def)
  moreover have fresh: "pp_fresh (cs_loop raw_conn) (tc_event_handler (cs_conn raw_conn))"
    "conn_callbacks raw_conn" "cs_close_requests raw_conn = 0"
    by (simp_all add: conn_defs pp_fresh_def conn_callbacks_def conn_handler_def)
  ultimately have "\<exists>s'. handleConnection echo_env raw_conn = Inr s'"
    using handleConnection_ok by blast
  then have "handleConnection echo_env raw_conn = Inr echo_conn" by (auto simp: echo_conn_def)
  with inv fresh show ?thesis by (rule connection_reach.opened)
qed

lemma echo_conn_simps [simp]:
  "cs_conn echo_conn = (new_TcpConnection 9 0 7)\<lparr>tc_context := Some ()\<rparr>"
  "cs_reads echo_conn = []" "cs_writes echo_conn = []" "cs_wire echo_conn = []"
  "cs_close_requests echo_conn = 0"
  by (simp_all add: conn_defs handleConnection_def echo_env_def)

lemma echo_conn_interest [simp]: "isReading (conn_handler echo_conn)" "\<not> isWriting (conn_handler echo_conn)"
  by (simp_all add: conn_defs handleConnection_def conn_handler_def isReading_def isWriting_def event_bits)

lemma echo_conn_open: "open_inv echo_conn"
  using connection_reach_inv [OF echo_conn_reach] by (auto simp: closed_inv_def)

section \<open>Closing\<close>

text \<open>
  C3. A connection asks for its removal at most once, whatever its peer, the kernel and the
  user's callbacks do and in whatever order events and functors run. Once it has asked, it
  watches no event and is marked disconnected; from then on dispatching its handler changes
  nothing, although the reported events stay set in the handler, and data handed to it later is
  dropped.
\<close>

theorem connection_closes_once:
  assumes "connection_reach e s"
  shows "cs_close_requests s \<le> 1 \<and>
    (cs_close_requests s = 1 \<longrightarrow>
       tc_disconnected (cs_conn s) \<and> \<not> isReading (conn_handler s) \<and> \<not> isWriting (conn_handler s) \<and>
       conn_event e s = Inr s \<and> (\<forall>a data. conn_functor e (WriteInLoop a data) s = Inr s))"
proof -
  have "conn_event e s = Inr s" if "closed_inv s"
    using that by (simp add: conn_event_def HandleEvent_def run_callback_def inv_defs)
  moreover have "conn_functor e (WriteInLoop a data) s = Inr s" if "closed_inv s" for a data
    using that by (simp add: conn_functor_def writeInLoop_def closed_inv_def)
  ultimately show ?thesis
    using connection_reach_inv [OF assms] by (auto simp: open_inv_def closed_inv_def)
qed

text \<open>The peer of the example closes its side.\<close>

lemma closed_reach:
  "\<exists>s. connection_reach echo_env s \<and> cs_close_requests s = 1 \<and> isReadable (conn_handler s)"
proof -
  let ?r = "echo_conn\<lparr>cs_loop := change_handler (tc_event_handler (cs_conn echo_conn))
    (setREvents kEventRead) (cs_loop echo_conn)\<rparr>"
  let ?s = "?r\<lparr>cs_reads := [Bytes []], cs_writes := []\<rparr>"
  have r: "connection_reach echo_env ?s"
    by (intro connection_reach.answers connection_reach.reported echo_conn_reach)
  have h: "isReadable (conn_handler ?s)" "isReading (conn_handler ?s)"
    using echo_conn_interest(1)
    by (simp_all add: conn_handler_def change_handler_def setREvents_def isReadable_def isReading_def
        event_bits new_TcpConnection_def bit.conj_disj_distrib2)
  have c0: "cs_close_requests ?s = 0" by simp
  then have "open_inv ?s" using connection_reach_inv [OF r] by (auto simp: closed_inv_def)
  then have cb: "conn_callbacks ?s" by (simp add: open_inv_def)
  have ra: "read_all [Bytes []] [] 0 [] = (0, [], [])"
    by (subst read_all_step [where r = 0 and buf' = "[]" and rs' = "[]"])
      (simp_all add: size_t_to_int_def)
  let ?d = "?s\<lparr>cs_reads := [], cs_conn := (cs_conn ?s)\<lparr>tc_read_buf := [], tc_disconnected := True\<rparr>\<rparr>"
  have "open_inv ?d" using \<open>open_inv ?s\<close> by (simp only: open_inv_frame) simp
  then obtain s' where s': "handleClose ?d = Inr s'" "closed_inv s'"
    "eh_revents (conn_handler s') = eh_revents (conn_handler ?d)"
    using handleClose_ok [of ?d] by auto
  have "handleRead echo_env ?s = handleClose ?d"
    using ra by (simp add: handleRead_def conn_close_def hasContentToSend_def new_TcpConnection_def
        del: conn_state_commute)
  with s' cb h have ev: "conn_event echo_env ?s = Inr s'"
    by (simp add: conn_event_def HandleEvent_def run_callback_def conn_functor_def inv_defs
        del: conn_state_commute)
  have "conn_handler ?d = conn_handler ?s" by (simp del: conn_state_commute)
  with s'(3) h(1) have "isReadable (conn_handler s')" by (simp only: isReadable_def) blast
  with connection_reach.dispatched [OF r ev] s'(2) show ?thesis by (auto simp: closed_inv_def)
qed

theorem connection_closes_once_witness:
  "\<exists>s. isReadable (conn_handler s) \<and> conn_event echo_env s = Inr s \<and> \<not> isReading (conn_handler s)"
proof -
  obtain s where s: "connection_reach echo_env s" "cs_close_requests s = 1" "isReadable (conn_handler s)"
    using closed_reach by blast
  with connection_closes_once [OF s(1)] show ?thesis by blast
qed

section \<open>Reading\<close>

lemma echo_reads:
  "open_inv (echo_conn\<lparr>cs_reads := rs\<rparr>)" "tc_read_buf (cs_conn (echo_conn\<lparr>cs_reads := rs\<rparr>)) = []"
  using echo_conn_open by (simp_all add: new_TcpConnection_def)

text \<open>
  C23. When the descriptor has any number of full blocks of 1024 bytes and then a shorter, not
  empty, block to offer before it would block, the message callback gets exactly all these
  bytes, once, in order.
\<close>

theorem handleRead_delivers_burst:
  assumes "cs_reads s = full @ [Bytes b]" and "full_reads defaultReadBuffSize full"
    and "b \<noteq> []" and "length b < defaultReadBuffSize" and "tc_read_buf (cs_conn s) = []"
  shows "handleRead e s = deliver e (script_bytes (cs_reads s)) (s\<lparr>cs_reads := []\<rparr>)"
proof (rule handleRead_deliver)
  show "read_all (cs_reads s) [] 0 [] = (int (length b), script_bytes (cs_reads s), [])"
    using read_all_burst [OF assms(2-4), of "[]"] assms(1) by simp
  show "0 < int (length b)" using assms(3) by (cases b) simp_all
qed (fact assms(5))

theorem handleRead_delivers_burst_witness:
  "handleRead echo_env (echo_conn\<lparr>cs_reads := [Bytes (replicate 1024 (CHR ''x'')), Bytes ''ab'']\<rparr>) =
   deliver echo_env (replicate 1024 (CHR ''x'') @ ''ab'') (echo_conn\<lparr>cs_reads := []\<rparr>)"
  using handleRead_delivers_burst [of "echo_conn\<lparr>cs_reads := [Bytes (replicate 1024 (CHR ''x'')), Bytes ''ab'']\<rparr>"
      "[Bytes (replicate 1024 (CHR ''x''))]" "''ab''" echo_env]
  by (simp add: defaultReadBuffSize_def new_TcpConnection_def)

text \<open>
  C27. When the descriptor offers a positive number of full blocks of 1024 bytes and then would
  block, the bytes are lost: \<^verbatim>\<open>qg::read\<close> reports the failure of its last system call, the
  message callback does not run, and the connection is treated as closed by its peer; with
  nothing left to send it asks for its removal.
\<close>

theorem handleRead_loses_full_blocks:
  assumes "connection_reach e s" and "cs_close_requests s = 0" and "tc_read_buf (cs_conn s) = []"
    and "cs_reads s = full" and "full \<noteq> []" and "full_reads defaultReadBuffSize full"
  shows "\<exists>s'. handleRead e s = Inr s' \<and> cs_reads s' = [] \<and>
    tc_context (cs_conn s') = tc_context (cs_conn s) \<and> tc_read_buf (cs_conn s') = [] \<and>
    tc_disconnected (cs_conn s') \<and>
    cs_close_requests s' = (if hasContentToSend (cs_conn s) then 0 else 1)"
proof -
  have o: "open_inv s" using connection_reach_inv [OF assms(1)] assms(2) by (auto simp: closed_inv_def)
  let ?d = "s\<lparr>cs_reads := [], cs_conn := (cs_conn s)\<lparr>tc_read_buf := [], tc_disconnected := True\<rparr>\<rparr>"
  have od: "open_inv ?d" using o by simp
  have r: "read_all (cs_reads s) [] 0 [] = (0, [], [])"
    using read_all_blocks [OF assms(6)] assms(4) by simp
  have hc: "hasContentToSend (cs_conn ?d) = hasContentToSend (cs_conn s)"
    by (simp add: hasContentToSend_def)
  have eq: "handleRead e s = (if hasContentToSend (cs_conn s) then Inr ?d else handleClose ?d)"
    using r assms(3) by (simp add: handleRead_def conn_close_def hasContentToSend_def del: conn_state_commute)
  obtain l where "on_loop (disableAll (tc_event_handler (cs_conn ?d))) ?d = Inr (?d\<lparr>cs_loop := l\<rparr>)"
    using conn_interest(3) [of ?d] od unfolding open_inv_def by blast
  then have "handleClose ?d = Inr (?d\<lparr>cs_loop := l\<rparr>\<lparr>cs_close_requests := cs_close_requests s + 1\<rparr>)"
    by (simp add: handleClose_def del: conn_state_commute)
  with eq assms(2) show ?thesis by simp
qed

theorem handleRead_loses_full_blocks_witness:
  "\<exists>s'. handleRead echo_env (echo_conn\<lparr>cs_reads := [Bytes (replicate 1024 (CHR ''x''))], cs_writes := []\<rparr>) = Inr s' \<and>
     cs_close_requests s' = 1"
proof -
  let ?s = "echo_conn\<lparr>cs_reads := [Bytes (replicate 1024 (CHR ''x''))], cs_writes := []\<rparr>"
  have "connection_reach echo_env ?s" by (intro connection_reach.answers echo_conn_reach)
  from handleRead_loses_full_blocks [OF this] show ?thesis
    by (auto simp: new_TcpConnection_def defaultReadBuffSize_def hasContentToSend_def)
qed

text \<open>
  C28. When more bytes arrive while \<^verbatim>\<open>handleRead\<close> is at work, so that its loop reads twice,
  the message callback gets the bytes of the first read twice: the local buffer is appended to
  the connection's buffer after each read but never emptied.
\<close>

theorem handleRead_duplicates:
  assumes "cs_reads s = [Bytes b, Bytes b']" and "b \<noteq> []" "length b < defaultReadBuffSize"
    and "b' \<noteq> []" "length b' < defaultReadBuffSize" and "tc_read_buf (cs_conn s) = []"
  shows "handleRead e s = deliver e (b @ b @ b') (s\<lparr>cs_reads := []\<rparr>)"
proof (rule handleRead_deliver)
  show "read_all (cs_reads s) [] 0 [] = (int (length b) + int (length b'), b @ b @ b', [])"
    using read_all_two [OF assms(2-5), of "[]"] assms(1) by simp
  show "0 < int (length b) + int (length b')" using assms(2) by (cases b) simp_all
qed (fact assms(6))

theorem handleRead_duplicates_witness:
  "handleRead echo_env (echo_conn\<lparr>cs_reads := [Bytes ''GET '', Bytes ''/'']\<rparr>) =
   deliver echo_env ''GET GET /'' (echo_conn\<lparr>cs_reads := []\<rparr>)"
  using handleRead_duplicates [of "echo_conn\<lparr>cs_reads := [Bytes ''GET '', Bytes ''/'']\<rparr>" "''GET ''" "''/''" echo_env]
  by (simp add: defaultReadBuffSize_def new_TcpConnection_def)

section \<open>Writing\<close>

text \<open>
  A kernel that takes all of a write or, when its buffer is full, nothing. Data are shorter
  than \<open>2 ^ 31\<close>.
\<close>

fun whole :: "string \<Rightarrow> write_result list \<Rightarrow> bool" where
  "whole data [] = True"
| "whole data (Wrote n # ws) = (n = length data)"
| "whole data (Write_error e # ws) = (e = EAGAIN)"

lemma int_of_small [simp]: "n < 2147483648 \<Longrightarrow> sint (word_of_nat n :: 32 word) = int n"
  by (simp add: signed_of_nat signed_take_bit_int_eq_self)

lemma socket_write_whole:
  assumes "whole data (cs_writes s)" and "length data < 2 ^ 31"
  obtains (all) ws where "socket_write data s =
      (int (length data), s\<lparr>cs_writes := ws, cs_wire := cs_wire s @ data\<rparr>)"
    | (none) ws where "socket_write data s = (0, s\<lparr>cs_writes := ws, cs_wire := cs_wire s\<rparr>)"
proof (cases "cs_writes s")
  case Nil
  then show thesis using none by (simp add: socket_write_def write_bytes_def)
next
  case (Cons r ws)
  then show thesis
  proof (cases r)
    case (Wrote n)
    with Cons assms show thesis using all by (simp add: socket_write_def write_bytes_def Let_def)
  next
    case (Write_error x)
    with Cons assms(1) show thesis using none by (simp add: socket_write_def write_bytes_def)
  qed
qed

text \<open>A connection to which \<open>sent\<close> has been given for sending.\<close>

inductive sending :: "'c conn_env \<Rightarrow> string \<Rightarrow> 'c conn_state \<Rightarrow> bool" for e where
  fresh: "connection_reach e s \<Longrightarrow> cs_close_requests s = 0 \<Longrightarrow> \<not> tc_disconnected (cs_conn s) \<Longrightarrow>
    tc_sendfile_fd (cs_conn s) < 0 \<Longrightarrow> \<not> isWriting (conn_handler s) \<Longrightarrow>
    tc_write_buf (cs_conn s) = [] \<Longrightarrow> cs_wire s = [] \<Longrightarrow> sending e [] s"
| send: "sending e sent s \<Longrightarrow> length data < 2 ^ 31 \<Longrightarrow> whole data (cs_writes s) \<Longrightarrow>
    writeInLoop e data s = Inr s' \<Longrightarrow> sending e (sent @ data) s'"
| writable: "sending e sent s \<Longrightarrow> length (tc_write_buf (cs_conn s)) < 2 ^ 31 \<Longrightarrow>
    whole (tc_write_buf (cs_conn s)) (cs_writes s) \<Longrightarrow> handleWrite e s = Inr s' \<Longrightarrow> sending e sent s'"
| answers: "sending e sent s \<Longrightarrow> sending e sent (s\<lparr>cs_writes := ws\<rparr>)"

definition sending_inv :: "string \<Rightarrow> 'c conn_state \<Rightarrow> bool" where
  "sending_inv sent s \<longleftrightarrow> open_inv s \<and> \<not> tc_disconnected (cs_conn s) \<and> tc_sendfile_fd (cs_conn s) < 0 \<and>
     (isWriting (conn_handler s) \<longleftrightarrow> tc_write_buf (cs_conn s) \<noteq> []) \<and>
     cs_wire s @ tc_write_buf (cs_conn s) = sent"

lemma substr_simps [simp]:
  "substr str 0 = Inr str" "substr str (int (length str)) = Inr []"
  by (simp_all add: substr_def)

lemma direct_write_whole:
  assumes "open_inv s" and "whole data (cs_writes s)" and "length data < 2 ^ 31"
  shows "\<exists>n s1 rest. direct_write data s = (n, s1) \<and> open_inv s1 \<and> cs_conn s1 = cs_conn s \<and>
    conn_handler s1 = conn_handler s \<and> substr data n = Inr rest \<and> cs_wire s1 @ rest = cs_wire s @ data \<and>
    (\<not> can_write_direct s \<longrightarrow> cs_wire s1 = cs_wire s \<and> rest = data)"
proof (cases "can_write_direct s")
  case True
  from assms(2,3) show ?thesis
  proof (cases rule: socket_write_whole)
    case (all ws)
    with True assms(1) show ?thesis by (simp add: direct_write_def)
  next
    case (none ws)
    with True assms(1) show ?thesis by (simp add: direct_write_def)
  qed
next
  case False
  with assms(1) show ?thesis by (simp add: direct_write_def)
qed

lemma writeInLoop_sending:
  assumes "sending_inv sent s" and "whole data (cs_writes s)" and "length data < 2 ^ 31"
  shows "\<exists>s'. writeInLoop e data s = Inr s' \<and> sending_inv (sent @ data) s'"
proof -
  have o: "open_inv s" and c: "\<not> tc_disconnected (cs_conn s)" "tc_sendfile_fd (cs_conn s) < 0"
    "isWriting (conn_handler s) \<longleftrightarrow> tc_write_buf (cs_conn s) \<noteq> []"
    "cs_wire s @ tc_write_buf (cs_conn s) = sent"
    using assms(1) by (simp_all add: sending_inv_def)
  obtain n s1 rest where w: "direct_write data s = (n, s1)" "open_inv s1" "cs_conn s1 = cs_conn s"
    "conn_handler s1 = conn_handler s" "substr data n = Inr rest" "cs_wire s1 @ rest = cs_wire s @ data"
    "\<not> can_write_direct s \<longrightarrow> cs_wire s1 = cs_wire s \<and> rest = data"
    using direct_write_whole [OF o assms(2,3)] by blast
  let ?t = "notify_direct e data (can_write_direct s) n s1"
  have "open_inv ?t" using w(2) by simp
  from queue_rest_ok [OF this, of rest] obtain s' where s': "queue_rest rest ?t = Inr s'" "open_inv s'"
    "cs_wire s' = cs_wire s1" "cs_conn s' = (cs_conn s)\<lparr>tc_write_buf := tc_write_buf (cs_conn s) @ rest\<rparr>"
    "isWriting (conn_handler s') \<longleftrightarrow> isWriting (conn_handler s) \<or> tc_write_buf (cs_conn s) @ rest \<noteq> []"
    using w(3,4) c(2) by auto
  have "cs_wire s1 @ tc_write_buf (cs_conn s) @ rest = sent @ data"
    using w(6,7) c(3,4) by (cases "can_write_direct s") (auto simp: can_write_direct_def)
  then have "sending_inv (sent @ data) s'" using s' c by (simp add: sending_inv_def)
  with s'(1) show ?thesis using writeInLoop_steps [OF c(1) w(1)] w(5) by simp
qed

lemma handleWrite_sending:
  assumes "sending_inv sent s" and "whole (tc_write_buf (cs_conn s)) (cs_writes s)"
    and "length (tc_write_buf (cs_conn s)) < 2 ^ 31"
  shows "\<exists>s'. handleWrite e s = Inr s' \<and> sending_inv sent s'"
proof (cases "tc_write_buf (cs_conn s) = []")
  case True
  with assms(1) show ?thesis by (simp add: handleWrite_def)
next
  case ne: False
  have o: "open_inv s" using assms(1) by (simp add: sending_inv_def)
  from assms(2,3) show ?thesis
  proof (cases rule: socket_write_whole)
    case (all ws)
    let ?s = "s\<lparr>cs_writes := ws, cs_wire := cs_wire s @ tc_write_buf (cs_conn s),
      cs_conn := (cs_conn s)\<lparr>tc_write_buf := []\<rparr>\<rparr>"
    have "open_inv ?s" using o by simp
    then obtain l where l: "on_loop (disableWrite (tc_event_handler (cs_conn ?s))) ?s = Inr (?s\<lparr>cs_loop := l\<rparr>)"
      "open_inv (?s\<lparr>cs_loop := l\<rparr>)" "\<not> isWriting (conn_handler (?s\<lparr>cs_loop := l\<rparr>))"
      using disableWrite_ok by blast
    let ?t = "add_functor e (WriteComplete (tc_address (cs_conn s)) []) (?s\<lparr>cs_loop := l\<rparr>)"
    have "handleWrite e s = Inr ?t"
      using all ne l(1) by (simp add: handleWrite_def Let_def del: conn_state_commute)
    moreover have "open_inv ?t" "\<not> isWriting (conn_handler ?t)" using l(2,3) by (simp_all only: open_inv_frame add_functor_frame simp_thms)
    moreover have "cs_conn ?t = (cs_conn s)\<lparr>tc_write_buf := []\<rparr>" "cs_wire ?t = cs_wire s @ tc_write_buf (cs_conn s)"
      by simp_all
    ultimately show ?thesis
      using assms(1) by (intro exI [of _ ?t]) (simp add: sending_inv_def del: conn_state_commute)
  next
    case (none ws)
    let ?s = "s\<lparr>cs_writes := ws, cs_wire := cs_wire s, cs_conn := (cs_conn s)\<lparr>tc_write_buf := tc_write_buf (cs_conn s)\<rparr>\<rparr>"
    have "handleWrite e s = Inr ?s" using none ne by (simp add: handleWrite_def Let_def)
    moreover have "open_inv ?s" using o by simp
    ultimately show ?thesis using assms(1) by (simp add: sending_inv_def)
  qed
qed

lemma sending_sending_inv: "sending e sent s \<Longrightarrow> sending_inv sent s"
proof (induction rule: sending.induct)
  case (fresh s)
  then show ?case using connection_reach_inv [OF fresh(1)] by (auto simp: sending_inv_def closed_inv_def)
next
  case (send sent s data s')
  then show ?case using writeInLoop_sending [of sent s data e] by auto
next
  case (writable sent s s')
  then show ?case using handleWrite_sending [of sent s e] by auto
next
  case (answers sent s ws)
  then show ?case by (simp add: sending_inv_def)
qed

text \<open>
  C24. With a kernel that takes a write as a whole or not at all, a connection sends what it is
  given: after any sequence of \<^verbatim>\<open>writeInLoop\<close> and \<^verbatim>\<open>handleWrite\<close>, the bytes on the
  wire followed by the bytes still buffered are the data handed over, in order; write events
  are watched exactly while something is buffered; and neither operation fails.
\<close>

theorem sending_in_order:
  assumes "sending e sent s"
  shows "cs_wire s @ tc_write_buf (cs_conn s) = sent \<and>
    (isWriting (conn_handler s) \<longleftrightarrow> tc_write_buf (cs_conn s) \<noteq> []) \<and>
    (\<forall>data. whole data (cs_writes s) \<and> length data < 2 ^ 31 \<longrightarrow>
       (\<exists>s'. writeInLoop e data s = Inr s'))"
proof -
  have inv: "sending_inv sent s" using assms by (rule sending_sending_inv)
  then show ?thesis using writeInLoop_sending [OF inv] by (auto simp: sending_inv_def)
qed

lemma echo_sending: "sending echo_env [] echo_conn"
  using echo_conn_reach by (rule sending.fresh) (simp_all add: new_TcpConnection_def)

theorem sending_in_order_witness:
  "\<exists>s. sending echo_env ''hello'' s \<and> cs_wire s @ tc_write_buf (cs_conn s) = ''hello''"
proof -
  let ?s = "echo_conn\<lparr>cs_writes := [Write_error EAGAIN]\<rparr>"
  have s: "sending echo_env [] ?s" using echo_sending by (rule sending.answers)
  then obtain s' where "writeInLoop echo_env ''hello'' ?s = Inr s'"
    using writeInLoop_sending [OF sending_sending_inv [OF s], of "''hello''" echo_env] by auto
  with sending.send [OF s, of "''hello''"] have s': "sending echo_env ''hello'' s'" by simp
  with sending_in_order [OF s'] show ?thesis by blast
qed

text \<open>
  C29. When the kernel takes a first part of a direct write and then as many bytes as are left,
  \<^verbatim>\<open>qg::write\<close> reports that all has been written, but the bytes on the wire are the first
  part followed by a piece of the beginning again: every round passes the buffer from its start.
\<close>

theorem partial_write_repeats_start:
  assumes "connection_reach e s" and "\<not> tc_disconnected (cs_conn s)" and "cs_close_requests s = 0"
    and "can_write_direct s" and "tc_sendfile_fd (cs_conn s) < 0"
    and "cs_writes s = Wrote k # Wrote (length data - k) # ws" and "0 < k" "k < length data"
    and "length data < 2 ^ 31"
  shows "\<exists>s'. writeInLoop e data s = Inr s' \<and> tc_write_buf (cs_conn s') = [] \<and>
    cs_wire s' = cs_wire s @ take k data @ take (length data - k) data"
proof -
  have o: "open_inv s" using connection_reach_inv [OF assms(1)] assms(3) by (auto simp: closed_inv_def)
  let ?wire = "cs_wire s @ take k data @ take (length data - k) data"
  let ?s = "s\<lparr>cs_writes := ws, cs_wire := ?wire\<rparr>"
  have w: "direct_write data s = (int (length data), ?s)"
    using assms(4,6-9) by (simp add: direct_write_def socket_write_def write_bytes_def Let_def)
  let ?t = "notify_direct e data (can_write_direct s) (int (length data)) ?s"
  have "open_inv ?t" using o by simp
  from queue_rest_ok [OF this, of "[]"] obtain s' where s': "queue_rest [] ?t = Inr s'"
    "cs_wire s' = ?wire" "tc_write_buf (cs_conn s') = tc_write_buf (cs_conn s)"
    by auto
  moreover have "tc_write_buf (cs_conn s) = []" using assms(4) by (simp add: can_write_direct_def)
  ultimately show ?thesis using writeInLoop_steps [OF assms(2) w, of e] by simp
qed

theorem partial_write_repeats_start_witness:
  "\<exists>s'. writeInLoop echo_env ''hello'' (echo_conn\<lparr>cs_reads := [], cs_writes := [Wrote 3, Wrote 2]\<rparr>) = Inr s' \<and>
     cs_wire s' = ''helhe''"
proof -
  let ?s = "echo_conn\<lparr>cs_reads := [], cs_writes := [Wrote 3, Wrote 2]\<rparr>"
  have "connection_reach echo_env ?s" by (intro connection_reach.answers echo_conn_reach)
  from partial_write_repeats_start [OF this, of 3 "''hello''" "[]"] show ?thesis
    by (auto simp: new_TcpConnection_def can_write_direct_def)
qed

text \<open>
  C30. A failed write ends the process: \<^verbatim>\<open>qg::write\<close> returns \<open>-1\<close> for a peer that has
  closed the connection (or any error but \<^verbatim>\<open>EAGAIN\<close>), and \<^verbatim>\<open>writeInLoop\<close> passes that
  to \<^verbatim>\<open>substr\<close>, which throws. The same happens when a partial write is followed by one
  that takes the whole buffer, because the count then exceeds the size.
\<close>

theorem write_failure_aborts:
  assumes "\<not> tc_disconnected (cs_conn s)" and "can_write_direct s"
    and "(\<exists>x ws. cs_writes s = Write_error x # ws \<and> x \<noteq> EAGAIN) \<or>
         (\<exists>k. cs_writes s = [Wrote k, Wrote (length data)] \<and> 0 < k \<and> k < length data \<and> length data < 2 ^ 30)"
  shows "writeInLoop e data s = Inl Process_abort"
  using assms(3)
proof
  assume "\<exists>x ws. cs_writes s = Write_error x # ws \<and> x \<noteq> EAGAIN"
  then obtain x ws where "cs_writes s = Write_error x # ws" "x \<noteq> EAGAIN" by blast
  then have "direct_write data s = (-1, s\<lparr>cs_writes := ws, cs_wire := cs_wire s\<rparr>)"
    using assms(2) by (simp add: direct_write_def socket_write_def write_bytes_def)
  from writeInLoop_steps [OF assms(1) this] show ?thesis by (simp add: substr_def)
next
  assume "\<exists>k. cs_writes s = [Wrote k, Wrote (length data)] \<and> 0 < k \<and> k < length data \<and> length data < 2 ^ 30"
  then obtain k where k: "cs_writes s = [Wrote k, Wrote (length data)]" "0 < k" "k < length data"
    "length data < 2 ^ 30" by blast
  have "sint (word_of_nat (k + length data) :: 32 word) = int (k + length data)"
    using k(3,4) by (intro int_of_small) simp
  then have "direct_write data s =
      (int (k + length data), s\<lparr>cs_writes := [], cs_wire := cs_wire s @ take k data @ data\<rparr>)"
    using assms(2) k by (simp add: direct_write_def socket_write_def write_bytes_def Let_def)
  moreover have "substr data (int (k + length data)) = Inl Process_abort"
    using k(2) unfolding substr_def nat_int by simp
  ultimately show ?thesis using writeInLoop_steps [OF assms(1)] by simp
qed

theorem write_failure_aborts_witness:
  "writeInLoop echo_env ''hello'' (echo_conn\<lparr>cs_writes := [Write_error EPIPE]\<rparr>) = Inl Process_abort"
  by (rule write_failure_aborts) (simp_all add: new_TcpConnection_def can_write_direct_def)

end
