(* ===== verification/Loop_Pool.thy ===== *)
theory Loop_Pool
  imports Prelude
begin

text \<open>
  \<^verbatim>\<open>src/core/loop_thread.h\<close>, \<^verbatim>\<open>loop_thread.cpp\<close>, \<^verbatim>\<open>loop_thread_pool.h\<close>,
  \<^verbatim>\<open>loop_thread_pool.cpp\<close> and \<^verbatim>\<open>src/base/thread_pool.cpp\<close>: the threads that run
  event loops, the pool that hands out their loops in turn, and the pool of worker threads,
  which nothing uses.
\<close>

section \<open>A thread with its loop\<close>

text \<open>
  \<open>lt_loop\<close> is the pointer \<^verbatim>\<open>loop_\<close>, 0 being the null pointer. No constructor sets it: it
  has the value \<open>g\<close> the memory had.
\<close>

record LoopThread =
  lt_name :: string
  lt_loop :: nat

definition new_LoopThread :: "nat \<Rightarrow> string \<Rightarrow> LoopThread" where
  "new_LoopThread g nm = \<lparr>lt_name = nm, lt_loop = g\<rparr>"

text \<open>\<^verbatim>\<open>getLoop\<close> waits (\<open>None\<close>) while the pointer is null.\<close>

definition getLoop :: "LoopThread \<Rightarrow> nat option" where
  "getLoop t = (if lt_loop t = 0 then None else Some (lt_loop t))"

text \<open>The two critical sections of the thread: before and after its loop runs.\<close>

definition threadFunc_start :: "nat \<Rightarrow> LoopThread \<Rightarrow> LoopThread" where
  "threadFunc_start loop t = t\<lparr>lt_loop := loop\<rparr>"

definition threadFunc_end :: "LoopThread \<Rightarrow> LoopThread" where
  "threadFunc_end t = t\<lparr>lt_loop := 0\<rparr>"

section \<open>The pool of loops\<close>

record 'l LoopThreadPool =
  lp_thread_size :: int
  lp_curPos :: int
  lp_base_loop :: 'l
  lp_loops :: "'l list"

definition new_LoopThreadPool :: "'l \<Rightarrow> int \<Rightarrow> 'l LoopThreadPool" where
  "new_LoopThreadPool base_loop thread_size =
     \<lparr>lp_thread_size = (if thread_size < 0 then 0 else thread_size), lp_curPos = 0,
      lp_base_loop = base_loop, lp_loops = []\<rparr>"

text \<open>\<open>loop_of i\<close> is what \<^verbatim>\<open>getLoop\<close> returns for the \<open>i\<close>-th thread.\<close>

fun start_threads_from :: "(nat \<Rightarrow> 'l) \<Rightarrow> nat \<Rightarrow> nat \<Rightarrow> 'l LoopThreadPool \<Rightarrow> 'l LoopThreadPool" where
  "start_threads_from loop_of i 0 p = p"
| "start_threads_from loop_of i (Suc n) p =
     start_threads_from loop_of (Suc i) n (p\<lparr>lp_loops := lp_loops p @ [loop_of i]\<rparr>)"

definition pool_start :: "(nat \<Rightarrow> 'l) \<Rightarrow> 'l LoopThreadPool \<Rightarrow> 'l LoopThreadPool" where
  "pool_start loop_of p = start_threads_from loop_of 0 (nat (lp_thread_size p)) p"

definition getNextLoop :: "'l LoopThreadPool \<Rightarrow> ('l \<times> 'l LoopThreadPool) checked" where
  "getNextLoop p =
     (if lp_thread_size p \<noteq> 0 then
        (if 0 \<le> lp_curPos p \<and> nat (lp_curPos p) < length (lp_loops p) then
           (let loop = lp_loops p ! nat (lp_curPos p);
                p = p\<lparr>lp_curPos := lp_curPos p + 1\<rparr>;
                p = (if lp_curPos p \<ge> lp_thread_size p then p\<lparr>lp_curPos := 0\<rparr> else p)
            in Inr (loop, p))
         else Inl Out_of_bounds)
      else Inr (lp_base_loop p, p))"

text \<open>The loops handed out by \<open>k\<close> calls.\<close>

fun next_loops :: "nat \<Rightarrow> 'l LoopThreadPool \<Rightarrow> ('l list \<times> 'l LoopThreadPool) checked" where
  "next_loops 0 p = Inr ([], p)"
| "next_loops (Suc k) p =
     checked_bind (getNextLoop p) (\<lambda>(l, p).
     checked_bind (next_loops k p) (\<lambda>(ls, p). Inr (l # ls, p)))"

lemma start_threads_from_loops:
  "start_threads_from loop_of i n p = p\<lparr>lp_loops := lp_loops p @ map loop_of [i ..< i + n]\<rparr>"
proof (induction n arbitrary: i p)
  case 0
  then show ?case by simp
next
  case (Suc n)
  have "[i ..< i + Suc n] = i # [Suc i ..< Suc i + n]" by (simp add: upt_rec)
  with Suc.IH [of "Suc i" "p\<lparr>lp_loops := lp_loops p @ [loop_of i]\<rparr>"] show ?case by simp
qed

lemma getNextLoop_step:
  assumes "lp_thread_size p = int n" and "0 < n" and "length (lp_loops p) = n"
    and "lp_curPos p = int (k mod n)"
  shows "getNextLoop p = Inr (lp_loops p ! (k mod n), p\<lparr>lp_curPos := int (Suc k mod n)\<rparr>)"
proof -
  have lt: "k mod n < n" using assms(2) by simp
  show ?thesis
  proof (cases "Suc (k mod n) = n")
    case True
    then have "Suc k mod n = 0" by (metis mod_Suc)
    with True assms lt show ?thesis by (simp add: getNextLoop_def Let_def)
  next
    case False
    then have "Suc k mod n = Suc (k mod n)" by (simp add: mod_Suc)
    with False assms lt show ?thesis by (simp add: getNextLoop_def Let_def)
  qed
qed

lemma next_loops_from:
  assumes "lp_thread_size p = int n" and "0 < n" and "length (lp_loops p) = n"
    and "lp_curPos p = int (j mod n)"
  shows "next_loops k p = Inr (map (\<lambda>i. lp_loops p ! (i mod n)) [j ..< j + k],
    p\<lparr>lp_curPos := int ((j + k) mod n)\<rparr>)"
  using assms
proof (induction k arbitrary: p j)
  case 0
  then show ?case by simp
next
  case (Suc k)
  have "[j ..< j + Suc k] = j # [Suc j ..< Suc j + k]" by (simp add: upt_rec)
  moreover have "next_loops k (p\<lparr>lp_curPos := int (Suc j mod n)\<rparr>) =
      Inr (map (\<lambda>i. lp_loops p ! (i mod n)) [Suc j ..< Suc j + k],
        p\<lparr>lp_curPos := int ((Suc j + k) mod n)\<rparr>)"
    using Suc.IH [of "p\<lparr>lp_curPos := int (Suc j mod n)\<rparr>" "Suc j"] Suc.prems by simp
  ultimately show ?case using getNextLoop_step [OF Suc.prems] by simp
qed

section \<open>The pool of workers\<close>

record 'a ThreadPool =
  tp_max_req_size :: nat
  tp_pool_size :: nat
  tp_task_queue :: "'a list"

definition new_ThreadPool :: "nat \<Rightarrow> nat \<Rightarrow> 'a ThreadPool" where
  "new_ThreadPool pool_size queue_size =
     \<lparr>tp_max_req_size = queue_size, tp_pool_size = pool_size, tp_task_queue = []\<rparr>"

text \<open>\<open>None\<close>: the caller waits on the condition variable.\<close>

definition addTask :: "'a \<Rightarrow> 'a ThreadPool \<Rightarrow> 'a ThreadPool option" where
  "addTask t p =
     (if length (tp_task_queue p) \<ge> tp_max_req_size p then None
      else Some (p\<lparr>tp_task_queue := tp_task_queue p @ [t]\<rparr>))"

text \<open>
  One turn of \<^verbatim>\<open>execTask\<close>: it waits while the queue is not empty, then takes the front of
  the queue, which is undefined for an empty one.
\<close>

definition execTask :: "'a ThreadPool \<Rightarrow> ('a \<times> 'a ThreadPool) checked option" where
  "execTask p =
     (if tp_task_queue p \<noteq> [] then None
      else Some (case tp_task_queue p of
          [] \<Rightarrow> Inl Out_of_bounds
        | t # ts \<Rightarrow> Inr (t, p\<lparr>tp_task_queue := ts\<rparr>)))"

text \<open>
  \<^verbatim>\<open>start\<close> creates \<open>pool_size_\<close> threads, each of which runs turns of \<^verbatim>\<open>execTask\<close>. Every turn up to
  the task itself and every \<^verbatim>\<open>addTask\<close> hold the mutex, so an execution is a sequence of them; a thread
  that waits takes no step.
\<close>

datatype 'a pool_step = Add_task 'a | Turn

definition start_workers :: "'a ThreadPool \<Rightarrow> 'a pool_step list" where
  "start_workers p = replicate (tp_pool_size p) Turn"

fun run_pool :: "'a pool_step list \<Rightarrow> 'a ThreadPool \<Rightarrow> ('a list \<times> 'a ThreadPool) checked" where
  "run_pool [] p = Inr ([], p)"
| "run_pool (Add_task t # ss) p = run_pool ss (case addTask t p of None \<Rightarrow> p | Some p' \<Rightarrow> p')"
| "run_pool (Turn # ss) p =
     (case execTask p of
        None \<Rightarrow> run_pool ss p
      | Some r \<Rightarrow> checked_bind r (\<lambda>(t, p). checked_bind (run_pool ss p) (\<lambda>(ts, p). Inr (t # ts, p))))"

section \<open>Properties\<close>

text \<open>
  C25. The pool hands out its loops in turn: after \<^verbatim>\<open>start\<close> with \<open>n > 0\<close> threads, \<open>k\<close> calls
  of \<^verbatim>\<open>getNextLoop\<close> never read outside the array and return the loops of the threads
  \<open>0, 1, ..., n - 1, 0, 1, ...\<close>; with no threads (or a negative configured number) every call
  returns the base loop.
\<close>

theorem getNextLoop_round_robin:
  "\<exists>p'. next_loops k (pool_start loop_of (new_LoopThreadPool base thread_num)) =
     Inr (if thread_num \<le> 0 then replicate k base else map (\<lambda>i. loop_of (i mod nat thread_num)) [0 ..< k], p')"
proof (cases "thread_num \<le> 0")
  case True
  let ?p = "pool_start loop_of (new_LoopThreadPool base thread_num)"
  have "lp_thread_size ?p = 0" "lp_base_loop ?p = base"
    using True by (simp_all add: pool_start_def new_LoopThreadPool_def)
  then have "next_loops k ?p = Inr (replicate k base, ?p)"
    by (induction k) (simp_all add: getNextLoop_def)
  with True show ?thesis by simp
next
  case False
  let ?p = "pool_start loop_of (new_LoopThreadPool base thread_num)" and ?n = "nat thread_num"
  have loops: "lp_loops ?p = map loop_of [0 ..< ?n]"
    and p: "lp_thread_size ?p = int ?n" "lp_curPos ?p = int (0 mod ?n)"
    using False by (simp_all add: pool_start_def new_LoopThreadPool_def start_threads_from_loops)
  have "next_loops k ?p = Inr (map (\<lambda>i. lp_loops ?p ! (i mod ?n)) [0 ..< 0 + k],
      ?p\<lparr>lp_curPos := int ((0 + k) mod ?n)\<rparr>)"
    using p loops False by (intro next_loops_from) simp_all
  moreover have "map (\<lambda>i. lp_loops ?p ! (i mod ?n)) [0 ..< k] = map (\<lambda>i. loop_of (i mod ?n)) [0 ..< k]"
    using False by (simp add: loops)
  ultimately show ?thesis using False by simp
qed

text \<open>
  The worker pool never executes a task: \<^verbatim>\<open>execTask\<close> waits when there is something to
  do and takes the front of the queue when it is empty. A worker that gets the mutex before the
  first task has been added ends the process.
\<close>

lemma execTask_never_runs_a_task: "execTask p \<noteq> Some (Inr r)"
  by (simp add: execTask_def)

lemma pool_runs_nothing: "run_pool ss p = Inr (ts, p') \<Longrightarrow> ts = []"
proof (induction ss p arbitrary: ts rule: run_pool.induct)
  case (3 ss p)
  then show ?case by (cases "tp_task_queue p = []") (simp_all add: execTask_def)
qed simp_all

lemma pool_dies_at_start:
  "0 < n \<Longrightarrow> run_pool (start_workers (new_ThreadPool n k)) (new_ThreadPool n k) = Inl Out_of_bounds"
  by (cases n) (simp_all add: start_workers_def new_ThreadPool_def execTask_def)

end
