(* ===== verification/Socket_Api.thy ===== *)
theory Socket_Api
  imports Http_Response
begin

text \<open>
  \<^verbatim>\<open>src/core/socket.h\<close>, \<^verbatim>\<open>socket.cpp\<close>, \<^verbatim>\<open>src/util/nettool.h\<close> and
  \<^verbatim>\<open>config.h\<close>: the wrappers around the socket calls. The kernel is a parameter: the
  results of the calls, negative for a failure; the calls a wrapper makes are recorded in
  order.
\<close>

section \<open>Configuration\<close>

record DetailConfig =
  dc_back_log :: "4 word"
  dc_keep_alive_timeout :: "4 word"
  dc_cork :: bool
  dc_sendfile :: bool

record Config =
  cf_detail :: DetailConfig
  cf_port :: int
  cf_time_out :: int
  cf_max_connections :: int
  cf_thread_num :: int
  cf_keep_alive :: bool

section \<open>Sockets\<close>

datatype sock_option = SO_REUSEADDR | SO_REUSEPORT | SO_KEEPALIVE | QGIO_NOPUSH

datatype sock_call =
    Sys_setsockopt int sock_option
  | Sys_getfl int
  | Sys_setfl int "32 word"
  | Sys_close int
  | Sys_shutdown int
  | Sys_bind int "16 word"
  | Sys_listen int int
  | Sys_accept int

record Socket =
  so_info :: string
  so_fd :: int
  so_calls :: "sock_call list"

text \<open>\<^verbatim>\<open>std::to_string(int)\<close>.\<close>

definition to_string_int :: "int \<Rightarrow> string" where
  "to_string_int i = (if i < 0 then CHR ''-'' # to_dec (nat (- i)) else to_dec (nat i))"

definition sock_call :: "sock_call \<Rightarrow> Socket \<Rightarrow> Socket" where
  "sock_call c s = s\<lparr>so_calls := so_calls s @ [c]\<rparr>"

text \<open>The constructors: \<open>fd\<close> is the result of \<^verbatim>\<open>socket(AF_INET, SOCK_STREAM, 0)\<close>.\<close>

definition new_Socket :: "int \<Rightarrow> Socket" where
  "new_Socket fd =
     \<lparr>so_info = (''fd : '' @ to_string_int fd @ [CHR 0x0A]) @ (''IPV4'' @ [CHR 0x0A]),
      so_fd = fd, so_calls = []\<rparr>"

definition Socket_of_fd :: "int \<Rightarrow> Socket" where
  "Socket_of_fd fd =
     \<lparr>so_info = ''fd : '' @ to_string_int fd @ [CHR 0x0A], so_fd = fd, so_calls = []\<rparr>"

definition destroy_Socket :: "Socket \<Rightarrow> Socket" where
  "destroy_Socket s = sock_call (Sys_close (so_fd s)) s"

definition makeAddrReuseable :: "Socket \<Rightarrow> Socket" where
  "makeAddrReuseable s = sock_call (Sys_setsockopt (so_fd s) SO_REUSEADDR) s"

definition makePortReuseable :: "Socket \<Rightarrow> Socket" where
  "makePortReuseable s = sock_call (Sys_setsockopt (so_fd s) SO_REUSEPORT) s"

definition makeKeepAlive :: "Socket \<Rightarrow> Socket" where
  "makeKeepAlive s = sock_call (Sys_setsockopt (so_fd s) SO_KEEPALIVE) s"

definition makeCork :: "Socket \<Rightarrow> Socket" where
  "makeCork s = sock_call (Sys_setsockopt (so_fd s) QGIO_NOPUSH) s"

text \<open>
  The flags \<^verbatim>\<open>fcntl\<close> returns are \<open>flags\<close>, all ones for its failure, which is only logged.
  The constants are those of macOS.
\<close>

definition O_NONBLOCK :: "32 word" where "O_NONBLOCK = 0x4"

definition O_CLOEXEC :: "32 word" where "O_CLOEXEC = 0x1000000"

definition makeNonBlock :: "32 word \<Rightarrow> Socket \<Rightarrow> Socket" where
  "makeNonBlock flags s =
     (let s = sock_call (Sys_getfl (so_fd s)) s;
          flags = flags OR O_NONBLOCK
      in sock_call (Sys_setfl (so_fd s) flags) s)"

definition makeCloseExe :: "32 word \<Rightarrow> Socket \<Rightarrow> Socket" where
  "makeCloseExe flags s =
     (let s = sock_call (Sys_getfl (so_fd s)) s;
          flags = flags OR O_CLOEXEC
      in sock_call (Sys_setfl (so_fd s) flags) s)"

definition Socket_close :: "Socket \<Rightarrow> Socket" where
  "Socket_close s =
     (let s = sock_call (Sys_close (so_fd s)) s
      in s\<lparr>so_info := so_info s @ ''closed'' @ [CHR 0x0A]\<rparr>)"

definition Socket_shutdown :: "Socket \<Rightarrow> Socket" where
  "Socket_shutdown s = sock_call (Sys_shutdown (so_fd s)) s"

text \<open>
  The port is converted to \<^verbatim>\<open>unsigned short\<close>. \<open>bound\<close> is the result of \<^verbatim>\<open>bind\<close>; a
  failure fails the assertion. The result of \<^verbatim>\<open>listen\<close> has no effect.
\<close>

definition bindAndListen :: "int \<Rightarrow> int \<Rightarrow> int \<Rightarrow> Socket \<Rightarrow> Socket checked" where
  "bindAndListen bound port backlog s =
     (let port = (if port < 0 then 3000 else port);
          s = sock_call (Sys_bind (so_fd s) (word_of_int port)) s
      in if bound \<noteq> 0 then Inl Assertion
         else
           let s = sock_call (Sys_listen (so_fd s) backlog) s
           in Inr (s\<lparr>so_info := so_info s @ ''Listen on port: '' @ to_string_int port\<rparr>))"

text \<open>\<open>new_fd\<close> is the result of \<^verbatim>\<open>::accept\<close>.\<close>

definition Socket_accept :: "int \<Rightarrow> Socket \<Rightarrow> int \<times> Socket" where
  "Socket_accept new_fd s =
     (let s = sock_call (Sys_accept (so_fd s)) s
      in if new_fd < 0 then (-1, s) else (new_fd, s))"

section \<open>Passive sockets\<close>

text \<open>
  \<^verbatim>\<open>nettool.h\<close>. An entry of the list \<^verbatim>\<open>getaddrinfo\<close> returns is represented by the
  results of \<^verbatim>\<open>socket\<close>, \<^verbatim>\<open>setsockopt\<close> and \<^verbatim>\<open>bind\<close> for it and by the length of its
  address.
\<close>

record addr_result =
  ai_sfd :: int
  ai_opt :: int
  ai_bound :: int
  ai_addrlen :: nat

text \<open>
  The loop over the list: its end (no address), the failure of \<^verbatim>\<open>setsockopt\<close>, or the bound
  socket with its entry; with the descriptors that have been opened and not closed.
\<close>

datatype walk_result = No_address | Option_failed | Bound addr_result

fun walk_addresses :: "bool \<Rightarrow> addr_result list \<Rightarrow> int list \<Rightarrow> walk_result \<times> int list" where
  "walk_addresses doListen [] open_fds = (No_address, open_fds)"
| "walk_addresses doListen (rp # rps) open_fds =
     (if ai_sfd rp = -1 then walk_addresses doListen rps open_fds
      else
        let open_fds = ai_sfd rp # open_fds
        in if doListen \<and> ai_opt rp = -1 then (Option_failed, remove1 (ai_sfd rp) open_fds)
           else if ai_bound rp = 0 then (Bound rp, open_fds)
           else walk_addresses doListen rps (remove1 (ai_sfd rp) open_fds))"

text \<open>\<open>found\<close> is the result of \<^verbatim>\<open>getaddrinfo\<close>, \<open>listened\<close> that of \<^verbatim>\<open>listen\<close>.\<close>

definition QGInetPassiveSocket ::
  "int \<Rightarrow> addr_result list \<Rightarrow> bool \<Rightarrow> int \<Rightarrow> int \<times> nat option \<times> int list" where
  "QGInetPassiveSocket found rps doListen listened =
     (if found \<noteq> 0 then (-1, None, [])
      else
        case walk_addresses doListen rps [] of
          (Option_failed, fds) \<Rightarrow> (-1, None, fds)
        | (No_address, fds) \<Rightarrow> (-1, None, fds)
        | (Bound rp, fds) \<Rightarrow>
            if doListen \<and> listened = -1 then (-1, None, fds)
            else (ai_sfd rp, Some (ai_addrlen rp), fds))"

text \<open>The service \<^verbatim>\<open>QGNetListen\<close> asks for.\<close>

definition listen_port :: "nat \<Rightarrow> string" where
  "listen_port port = to_dec (if port < 1024 \<or> port > 65535 then 6666 else port)"

definition QGNetListen :: "(string \<Rightarrow> int \<times> addr_result list) \<Rightarrow> nat \<Rightarrow> int \<Rightarrow> int \<times> nat option \<times> int list" where
  "QGNetListen getaddrinfo port listened =
     (case getaddrinfo (listen_port port) of
        (found, rps) \<Rightarrow> QGInetPassiveSocket found rps True listened)"

definition QGAccept :: "int \<Rightarrow> int" where
  "QGAccept accepted = (if accepted \<noteq> -1 then accepted else -1)"

definition QGSetTcpCork :: "int \<Rightarrow> int \<Rightarrow> int \<times> sock_call list" where
  "QGSetTcpCork result sfd =
     (if result = -1 then (-1, [Sys_setsockopt sfd QGIO_NOPUSH, Sys_close sfd])
      else (0, [Sys_setsockopt sfd QGIO_NOPUSH]))"

definition makeFdNoneBlock :: "32 word \<Rightarrow> int \<Rightarrow> sock_call list" where
  "makeFdNoneBlock flags fd =
     (let flags = flags OR O_NONBLOCK in [Sys_getfl fd, Sys_setfl fd flags])"

section \<open>Properties\<close>

lemma walk_addresses_open:
  "case walk_addresses doListen rps fds of
     (Bound rp, fds') \<Rightarrow> fds' = ai_sfd rp # fds \<and> rp \<in> set rps \<and> ai_sfd rp \<noteq> -1 \<and> ai_bound rp = 0
   | (_, fds') \<Rightarrow> fds' = fds"
proof (induction rps)
  case Nil
  then show ?case by simp
next
  case (Cons rp rps)
  consider "ai_sfd rp = -1 \<or> \<not> (doListen \<and> ai_opt rp = -1) \<and> ai_bound rp \<noteq> 0"
    | "ai_sfd rp \<noteq> -1" "doListen \<and> ai_opt rp = -1"
    | "ai_sfd rp \<noteq> -1" "\<not> (doListen \<and> ai_opt rp = -1)" "ai_bound rp = 0"
    by blast
  then show ?case
  proof cases
    case 1
    then have "walk_addresses doListen (rp # rps) fds = walk_addresses doListen rps fds"
      by (auto simp: Let_def)
    with Cons.IH show ?thesis by (simp split: prod.splits walk_result.splits)
  next
    case 2
    then show ?thesis by (simp add: Let_def)
  next
    case 3
    then have "walk_addresses doListen (rp # rps) fds = (Bound rp, ai_sfd rp # fds)"
      by (simp add: Let_def)
    with 3 show ?thesis by simp
  qed
qed

text \<open>
  C26. \<^verbatim>\<open>QGInetPassiveSocket\<close> closes every descriptor it opens except the one it returns,
  on every path but one: if \<^verbatim>\<open>listen\<close> fails on a bound socket, it returns \<open>-1\<close> and the
  socket stays open, out of the caller's reach.
\<close>

theorem passive_socket_descriptors:
  assumes "QGInetPassiveSocket found rps doListen listened = (sfd, len, fds)"
  shows "if sfd \<noteq> -1 then fds = [sfd] \<and> (\<exists>rp \<in> set rps. ai_sfd rp = sfd \<and> ai_bound rp = 0)
    else fds = [] \<or> doListen \<and> listened = -1 \<and> (\<exists>rp \<in> set rps. fds = [ai_sfd rp] \<and> ai_bound rp = 0)"
proof (cases "found = 0")
  case False
  with assms show ?thesis by (simp add: QGInetPassiveSocket_def)
next
  case True
  obtain r fds' where w: "walk_addresses doListen rps [] = (r, fds')" by fastforce
  note o = walk_addresses_open [where doListen = doListen and rps = rps and fds = "[]", unfolded w]
  show ?thesis
  proof (cases r)
    case (Bound rp)
    with o have rp: "fds' = [ai_sfd rp]" "rp \<in> set rps" "ai_sfd rp \<noteq> -1" "ai_bound rp = 0" by simp_all
    show ?thesis
    proof (cases "doListen \<and> listened = -1")
      case l: True
      with True w Bound rp(1) assms have "sfd = -1" "fds = [ai_sfd rp]" by (simp_all add: QGInetPassiveSocket_def)
      with l rp show ?thesis by auto
    next
      case l: False
      with True w Bound rp(1) assms have "sfd = ai_sfd rp" "fds = [ai_sfd rp]"
        by (auto simp: QGInetPassiveSocket_def split: if_splits)
      with rp show ?thesis by auto
    qed
  qed (use o True w assms in \<open>simp_all add: QGInetPassiveSocket_def\<close>)
qed

theorem passive_socket_descriptors_witness:
  "QGInetPassiveSocket 0 [\<lparr>ai_sfd = 5, ai_opt = 0, ai_bound = -1, ai_addrlen = 16\<rparr>,
      \<lparr>ai_sfd = 6, ai_opt = 0, ai_bound = 0, ai_addrlen = 16\<rparr>] True (-1) = (-1, None, [6]) \<and>
    [6 :: int] \<noteq> []"
proof -
  let ?rps = "[\<lparr>ai_sfd = 5, ai_opt = 0, ai_bound = -1, ai_addrlen = 16\<rparr>,
      \<lparr>ai_sfd = 6, ai_opt = 0, ai_bound = 0, ai_addrlen = 16\<rparr>]"
  have r: "QGInetPassiveSocket 0 ?rps True (-1) = (-1, None, [6])" by (simp add: QGInetPassiveSocket_def)
  from passive_socket_descriptors [OF r] r show ?thesis by simp
qed

end
