(* ===== verification/Tcp_Server.thy ===== *)
theory Tcp_Server
  imports Tcp_Connection Loop_Pool Socket_Api
begin

text \<open>
  \<^verbatim>\<open>src/core/accepter.h\<close>, \<^verbatim>\<open>accepter.cpp\<close>, \<^verbatim>\<open>server.h\<close> and \<^verbatim>\<open>server.cpp\<close>: taking new
  connections, giving each to one of the loops, and the way a connection goes when it is closed:
  its loop asks the base loop, which forgets it and hands it back to its loop for removal.
\<close>

section \<open>State\<close>

text \<open>
  Loop 0 is the base loop, loop \<open>i + 1\<close> that of the \<open>i\<close>-th thread. Connections are objects at
  addresses; \<open>sv_connections\<close> is the server's map, from descriptors to connections.
  \<open>sv_closed\<close> collects the descriptors \<^verbatim>\<open>Accepter::handleRead\<close> closes.
\<close>

record 'c Server =
  sv_loops :: "nat \<Rightarrow> functor_t EventLoop"
  sv_pool :: "nat LoopThreadPool"
  sv_objects :: "nat \<Rightarrow> 'c TcpConnection"
  sv_loop_of :: "nat \<Rightarrow> nat"
  sv_connections :: "int \<rightharpoonup> nat"
  sv_number :: int
  sv_high_water :: int
  sv_closed :: "int list"

definition defaultConnectionHighWater :: int where
  "defaultConnectionHighWater = 2000"

definition connection_high_water :: "Config \<Rightarrow> int" where
  "connection_high_water config =
     (if defaultConnectionHighWater > cf_max_connections config - 10
      then defaultConnectionHighWater else cf_max_connections config - 10)"

definition new_Server ::
  "Config \<Rightarrow> (nat \<Rightarrow> functor_t EventLoop) \<Rightarrow> (nat \<Rightarrow> 'c TcpConnection) \<Rightarrow> 'c Server" where
  "new_Server config loops objs =
     \<lparr>sv_loops = loops, sv_pool = new_LoopThreadPool 0 (cf_thread_num config), sv_objects = objs,
      sv_loop_of = (\<lambda>_. 0), sv_connections = Map.empty, sv_number = 0,
      sv_high_water = connection_high_water config, sv_closed = []\<rparr>"

definition Server_run :: "'c Server \<Rightarrow> 'c Server" where
  "Server_run s = s\<lparr>sv_pool := pool_start Suc (sv_pool s)\<rparr>"

text \<open>
  \<^verbatim>\<open>Accepter::init\<close>: the options of the listening socket, the handler's registration and
  the call of \<^verbatim>\<open>bindAndListen\<close>. \<open>fl\<close> and \<open>fl'\<close> are the flags \<^verbatim>\<open>fcntl\<close> reports,
  \<open>bound\<close> the result of \<^verbatim>\<open>bind\<close>.
\<close>

definition Accepter_init ::
  "Config \<Rightarrow> 32 word \<Rightarrow> 32 word \<Rightarrow> int \<Rightarrow> nat \<Rightarrow> Socket \<Rightarrow> functor_t EventLoop \<Rightarrow>
     (Socket \<times> functor_t EventLoop) checked" where
  "Accepter_init config fl fl' bound eh sock l =
     (let sock = makeCloseExe fl' (makeNonBlock fl sock);
          sock = (if dc_cork (cf_detail config) then makeCork sock else sock);
          sock = (if cf_keep_alive config then makeKeepAlive sock else sock);
          sock = makeAddrReuseable (makePortReuseable sock);
          l = change_handler eh (setReadCallBack AccepterRead) l
      in checked_bind (el_registerHandler eh l) (\<lambda>l.
         checked_bind (enableRead eh l) (\<lambda>l.
         checked_bind (bindAndListen bound (cf_port config) (sint (dc_back_log (cf_detail config))) sock)
           (\<lambda>sock. Inr (sock, l)))))"

section \<open>Operations\<close>

definition server_add_functor :: "nat \<Rightarrow> nat \<Rightarrow> functor_t \<Rightarrow> 'c Server \<Rightarrow> 'c Server" where
  "server_add_functor cap l f s =
     s\<lparr>sv_loops := (sv_loops s)(l := addFunctor cap f (sv_loops s l))\<rparr>"

text \<open>
  \<^verbatim>\<open>handleNewCon\<close>; \<open>a\<close> and \<open>eh\<close> are the addresses \<^verbatim>\<open>new\<close> returns for the connection
  and its handler.
\<close>

definition handleNewCon :: "nat \<Rightarrow> nat \<Rightarrow> nat \<Rightarrow> int \<Rightarrow> 'c Server \<Rightarrow> 'c Server checked" where
  "handleNewCon cap a eh fd s =
     checked_bind (getNextLoop (sv_pool s)) (\<lambda>(io_loop, pool).
       let s = s\<lparr>sv_pool := pool\<rparr>;
           cs = construct_connection a eh fd (sv_loops s io_loop) (sv_number s) :: 'c conn_state;
           s = s\<lparr>sv_loops := (sv_loops s)(io_loop := cs_loop cs),
                 sv_objects := (sv_objects s)(a := cs_conn cs),
                 sv_loop_of := (sv_loop_of s)(a := io_loop), sv_number := cs_number cs\<rparr>;
           s = s\<lparr>sv_connections := (sv_connections s)(fd \<mapsto> a)\<rparr>
       in Inr (server_add_functor cap io_loop (HandleConnection a) s))"

definition closeAtBaseLoop :: "nat \<Rightarrow> nat \<Rightarrow> 'c Server \<Rightarrow> 'c Server" where
  "closeAtBaseLoop cap a s = server_add_functor cap 0 (HandleClose a) s"

definition handleConnectionClose :: "nat \<Rightarrow> nat \<Rightarrow> 'c Server \<Rightarrow> 'c Server" where
  "handleConnectionClose cap a s =
     (let s = s\<lparr>sv_connections := (sv_connections s)(tc_fd (sv_objects s a) := None)\<rparr>
      in server_add_functor cap (sv_loop_of s a) (CloseConnection a) s)"

text \<open>\<^verbatim>\<open>TcpConnection::closeConnection\<close> of the connection at \<open>a\<close>, on its loop.\<close>

definition server_closeConnection :: "nat \<Rightarrow> 'c Server \<Rightarrow> 'c Server checked" where
  "server_closeConnection a s =
     (let l = sv_loop_of s a;
          cs = \<lparr>cs_loop = sv_loops s l, cs_conn = sv_objects s a, cs_reads = [], cs_writes = [],
                cs_wire = [], cs_shut = False, cs_number = sv_number s, cs_close_requests = 0\<rparr>
      in checked_bind (closeConnection cs) (\<lambda>cs.
           Inr (s\<lparr>sv_loops := (sv_loops s)(l := cs_loop cs),
                  sv_objects := (sv_objects s)(a := cs_conn cs), sv_number := cs_number cs\<rparr>)))"

text \<open>
  \<^verbatim>\<open>Accepter::handleRead\<close>: the results of \<^verbatim>\<open>accept\<close>, each with the addresses for the
  objects of the connection; when they are used up, \<^verbatim>\<open>accept\<close> fails.
\<close>

fun Accepter_handleRead :: "nat \<Rightarrow> (int \<times> nat \<times> nat) list \<Rightarrow> 'c Server \<Rightarrow> 'c Server checked" where
  "Accepter_handleRead cap [] s = Inr s"
| "Accepter_handleRead cap ((fd, a, eh) # fds) s =
     (if fd > 0 then
        (if sv_number s > sv_high_water s then Inr (s\<lparr>sv_closed := sv_closed s @ [fd]\<rparr>)
         else checked_bind (handleNewCon cap a eh fd s) (Accepter_handleRead cap fds))
      else Inr s)"

section \<open>Properties\<close>

definition pool_started :: "'c Server \<Rightarrow> bool" where
  "pool_started s \<longleftrightarrow> 0 \<le> lp_thread_size (sv_pool s) \<and>
     length (lp_loops (sv_pool s)) = nat (lp_thread_size (sv_pool s)) \<and>
     0 \<le> lp_curPos (sv_pool s) \<and>
     (lp_thread_size (sv_pool s) \<noteq> 0 \<longrightarrow> lp_curPos (sv_pool s) < lp_thread_size (sv_pool s))"

lemma pool_started_run: "pool_started (Server_run (new_Server config loops objs))"
  by (simp add: pool_started_def Server_run_def new_Server_def pool_start_def new_LoopThreadPool_def
      start_threads_from_loops)

lemma getNextLoop_started:
  assumes "pool_started s"
  shows "\<exists>l p. getNextLoop (sv_pool s) = Inr (l, p) \<and> pool_started (s\<lparr>sv_pool := p\<rparr>)"
  using assms by (auto simp: getNextLoop_def pool_started_def Let_def)

lemma pool_started_cong: "sv_pool s' = sv_pool s \<Longrightarrow> pool_started s' = pool_started s"
  by (simp add: pool_started_def)

lemma handleNewCon_ok:
  assumes "pool_started s"
  shows "\<exists>s'. handleNewCon cap a eh fd s = Inr s' \<and> pool_started s' \<and>
    sv_number s' = sv_number s + 1 \<and> sv_high_water s' = sv_high_water s \<and>
    sv_closed s' = sv_closed s \<and> sv_connections s' = (sv_connections s)(fd \<mapsto> a) \<and>
    tc_fd (sv_objects s' a) = fd"
proof -
  obtain l p where p: "getNextLoop (sv_pool s) = Inr (l, p)" "pool_started (s\<lparr>sv_pool := p\<rparr>)"
    using getNextLoop_started [OF assms] by blast
  then show ?thesis
    by (simp add: handleNewCon_def Let_def construct_connection_def new_TcpConnection_def
        server_add_functor_def pool_started_def)
qed

text \<open>
  C11. The number of connections stays below the limit: on a started server, however many
  connections wait, \<^verbatim>\<open>Accepter::handleRead\<close> ends without an access outside the pool's
  array, leaves at most \<open>connection_high_water + 1\<close> connections (or the number there was, if
  that was higher), and closes at most one descriptor, and that only when the
  limit is exceeded.
\<close>

theorem accept_respects_high_water:
  assumes "pool_started s"
  shows "\<exists>s'. Accepter_handleRead cap fds s = Inr s' \<and> pool_started s' \<and>
    sv_number s \<le> sv_number s' \<and>
    sv_number s' \<le> max (sv_number s) (sv_high_water s + 1) \<and>
    length (sv_closed s') \<le> length (sv_closed s) + 1 \<and>
    (length (sv_closed s') > length (sv_closed s) \<longrightarrow> sv_number s' > sv_high_water s)"
  using assms
proof (induction cap fds s rule: Accepter_handleRead.induct)
  case (1 cap s)
  then show ?case by simp
next
  case (2 cap fd a eh fds s)
  show ?case
  proof (cases "fd > 0 \<and> \<not> sv_number s > sv_high_water s")
    case True
    then have fd: "fd > 0" and below: "\<not> sv_number s > sv_high_water s" by simp_all
    obtain s1 where s1: "handleNewCon cap a eh fd s = Inr s1" "pool_started s1"
      "sv_number s1 = sv_number s + 1" "sv_high_water s1 = sv_high_water s" "sv_closed s1 = sv_closed s"
      using handleNewCon_ok [OF "2.prems"] by blast
    from "2.IH" [OF fd below s1(2)] obtain s2 where s2: "Accepter_handleRead cap fds s1 = Inr s2"
      "pool_started s2" "sv_number s1 \<le> sv_number s2"
      "sv_number s2 \<le> max (sv_number s1) (sv_high_water s1 + 1)"
      "length (sv_closed s2) \<le> length (sv_closed s1) + 1"
      "length (sv_closed s2) > length (sv_closed s1) \<longrightarrow> sv_number s2 > sv_high_water s1" by blast
    have "Accepter_handleRead cap ((fd, a, eh) # fds) s = Inr s2" using fd below s1(1) s2(1) by simp
    with s1 s2 below show ?thesis by (intro exI [of _ s2]) auto
  next
    case False
    with "2.prems" show ?thesis by (auto simp: pool_started_def)
  qed
qed

definition example_config :: Config where
  "example_config = \<lparr>cf_detail = \<lparr>dc_back_log = 5, dc_keep_alive_timeout = 0, dc_cork = False,
     dc_sendfile = False\<rparr>, cf_port = 8080, cf_time_out = 0, cf_max_connections = 100,
     cf_thread_num = 4, cf_keep_alive = True\<rparr>"

theorem accept_respects_high_water_witness:
  "\<exists>s'. Accepter_handleRead 1 [(7, 0, 0), (8, 1, 1), (-1, 0, 0)]
      (Server_run (new_Server example_config (\<lambda>_. quiet_loop) (\<lambda>_. new_TcpConnection 0 0 0))) = Inr s' \<and>
    sv_number s' \<le> 2001"
  using accept_respects_high_water [OF pool_started_run, of 1 "[(7, 0, 0), (8, 1, 1), (-1, 0, 0)]"
      example_config "\<lambda>_. quiet_loop" "\<lambda>_. new_TcpConnection 0 0 0"]
  by (auto simp: Server_run_def new_Server_def connection_high_water_def defaultConnectionHighWater_def
      example_config_def)

end
