(* ===== verification/Spec2Isabelle.thy ===== *)
theory Spec2Isabelle
  imports Http_Server_Props Http_Stream Http_Posts Http_Tools Loop_Teardown Kqueue_Poller Epoll_Demultiplexer Tcp_Props Tcp_Server Object_Text
begin

text \<open>
  A model of QG-Server, an HTTP server built on event loops, and of the HTTP parser it contains.
  The sources are under \<^verbatim>\<open>src/\<close> of the repository: \<^verbatim>\<open>core/\<close> (loops, connections, HTTP),
  \<^verbatim>\<open>base/\<close> (timers, worker pool), \<^verbatim>\<open>util/\<close> (queues, time, sockets), \<^verbatim>\<open>lib/http-parser/\<close>.

  \<^bold>\<open>How the program works.\<close> The accepter (\<^verbatim>\<open>accepter.cpp\<close>) runs on the main loop, takes
  connections and gives each to one loop of a pool (\<^verbatim>\<open>loop_thread_pool.cpp\<close>). A loop
  (\<^verbatim>\<open>event_loop.cpp\<close>) waits in a poller for events, calls the handlers, runs the functors other
  threads have queued, and fires the timers; a byte in a pipe wakes it. A connection
  (\<^verbatim>\<open>tcp_connection.cpp\<close>) reads what has arrived and gives it to the callback of messages; the
  HTTP server (\<^verbatim>\<open>http_server.cpp\<close>) feeds it to the parser (\<^verbatim>\<open>http_parser.c\<close>) through the
  connection's context (\<^verbatim>\<open>http_context.cpp\<close>), whose callbacks fill a request; a complete request
  is answered with a file. The connection writes the answer, and asks the server object to be
  removed when the peer is gone; this takes two hops through the queues of two loops.

  \<^bold>\<open>Conventions.\<close> Machine integers that can wrap are words of their width, with \<open>unat\<close> and \<open>sint\<close>
  at the places where the code compares or indexes. A pointer into a buffer is an offset, a null
  pointer is \<open>None\<close>, a pointer to a shared object is an address in an explicit store. Everything
  that may stop the process is a value \<open>Inl\<close> of type \<open>abort_reason\<close> in \<^theory_text>\<open>Prelude\<close>: a failed
  \<^verbatim>\<open>assert\<close>, an access out of bounds, an \<^verbatim>\<open>abort()\<close> or an uncaught exception. Kernel
  answers are scripts or functions that are arguments of the model: the result of \<^verbatim>\<open>poll\<close> and
  \<^verbatim>\<open>kevent\<close>, of \<^verbatim>\<open>read\<close> and \<^verbatim>\<open>write\<close>, of the socket calls, the clock, the file system. So are
  the contents of uninitialised memory (arguments named \<open>g\<close> or \<open>m\<close>).
\<close>

text \<open>
  \<^bold>\<open>The HTTP parser.\<close>

  \<^item> \<^theory_text>\<open>Http_Chars\<close>: the 256-entry tables and the character classes, strict build, with
    characterisations by ranges. \<^theory_text>\<open>Http_Types\<close>: the parser object with the widths of its bit
    fields, the states with their numbers, errors, methods, status codes, the small operations.
  \<^item> \<^theory_text>\<open>Http_Url\<close>: \<^verbatim>\<open>parse_url_char\<close>, \<^verbatim>\<open>http_parser_parse_url\<close>, \<^verbatim>\<open>http_parse_host\<close> with 16-bit
    offsets. \<^theory_text>\<open>Http_Url_Props\<close>: every buffer is parsed without a failed assertion and the parts
    lie inside; on \<open>/path?query#fragment\<close> the parts are exact below 65536 bytes and wrap above.
  \<^item> \<^theory_text>\<open>Http_Execute\<close>: \<^verbatim>\<open>http_parser_execute\<close>. The locals are a record; a macro that may return
    or jump is a function that takes what follows as an argument; every case of the switch is a
    definition; \<^verbatim>\<open>goto reexecute\<close> is \<open>dispatch\<close>, the loop over the input \<open>execute_loop\<close>, both
    partial functions whose value \<open>None\<close> means that the code does not return. No fuel is used.
  \<^item> \<^theory_text>\<open>Http_Safety\<close>, \<^theory_text>\<open>Http_Steps\<close>, \<^theory_text>\<open>Http_Run\<close>, \<^theory_text>\<open>Http_Api\<close>: an invariant of the parser
    object, a rank of states that every jump lowers, one lemma per case, the locale
    \<open>parser_callbacks\<close> of callback tables that keep to the interface, and the theorem that every
    call returns without a failed assertion or an access out of bounds.
  \<^item> \<^theory_text>\<open>Http_Walk\<close>, \<^theory_text>\<open>Http_Names\<close>, \<^theory_text>\<open>Http_Requests\<close>, \<^theory_text>\<open>Http_Parse_Props\<close>: what the parser
    computes. Rules that consume the input from the front (\<open>runs\<close>), the locale
    \<open>data_transformers\<close> of tables whose callbacks only change the user's data, interpreted on a
    table that collects events and on the server's own; methods and header names against plain
    comparisons of words; the round trip of requests.
  \<^item> \<^theory_text>\<open>Http_Reads\<close>, \<^theory_text>\<open>Http_Read_Steps\<close>, \<^theory_text>\<open>Http_Stream\<close>: the way a message is cut into reads
    makes no difference. The locale \<open>streaming_callbacks\<close> of tables that accept a token in pieces
    extends \<open>parser_callbacks\<close>; a relation between the locals of a call on the whole input and of
    the call on one of its bytes, kept by every case of the switch; the loops inside a byte, over
    names, values and bodies, against passes over single bytes; feeding a parser with reads. The
    server's own table is not of this kind, its callback of the URL is not additive.
  \<^item> \<^theory_text>\<open>Http_Tools\<close>: the programs \<^verbatim>\<open>parsertrace\<close>, \<^verbatim>\<open>url_parser\<close> and \<^verbatim>\<open>bench\<close> around the parser, as
    users of the same locales; what a trace of a request prints.
\<close>

text \<open>
  \<^bold>\<open>The HTTP layer.\<close>

  \<^item> \<^theory_text>\<open>Http_Context\<close>: requests, the ten callbacks, contexts; its interpretation of
    \<open>parser_callbacks\<close> carries the safety of the parser over to the server.
    \<^theory_text>\<open>Http_Response\<close>: responses and error responses as text. \<^theory_text>\<open>Http_Server\<close>: the handlers of
    new connections, messages and completed writes, routing, the default handler on a file system.
  \<^item> \<^theory_text>\<open>Http_Server_Props\<close>: what can come of a message, the answer to a request, the assembly of
    headers, the round trip of responses, and where the code goes wrong: URLs that end the
    process, URLs in two pieces, the lost keep-alive, paths that leave the root.
  \<^item> \<^theory_text>\<open>Http_Posts\<close>: requests with a \<^verbatim>\<open>Content-Length\<close>: the digits against the decimal number, and the
    server that collects the body over any number of reads; two bodies in one read.

  \<^bold>\<open>Loops and connections.\<close>

  \<^item> \<^theory_text>\<open>Event_Handler\<close>: a descriptor with interest, reported events and callbacks.
    \<^theory_text>\<open>Poller_Spec\<close>: the abstract class \<^verbatim>\<open>Poller\<close> as a locale over an abstract set of handlers,
    which \<^theory_text>\<open>Poll_Poller\<close> (an array for \<^verbatim>\<open>poll(2)\<close>) and \<^theory_text>\<open>Kqueue_Poller\<close> (changes sent to the
    kernel) implement; their interpretations are the refinements.
    \<^theory_text>\<open>Epoll_Demultiplexer\<close>: an earlier poller, no longer part of the build.
  \<^item> \<^theory_text>\<open>Event_Loop\<close>: handlers, functors, timers, the waker's pipe, one turn of the loop, and the
    interleaving of the loop with threads that add functors as a step relation: no functor is lost
    or run twice, none waits while the loop sleeps.
    \<^theory_text>\<open>Loop_Teardown\<close>: the destructor of a loop, which cannot succeed, and the timer descriptor of Linux.
  \<^item> \<^theory_text>\<open>Rw_Tool\<close>: \<^verbatim>\<open>qg::read\<close>, \<^verbatim>\<open>qg::write\<close>, \<^verbatim>\<open>readFile\<close>. \<^theory_text>\<open>Tcp_Connection\<close>: every operation of a
    connection and the steps of a life. \<^theory_text>\<open>Tcp_Props\<close>: it closes once, what it delivers and
    sends, and the cases in which bytes are lost, repeated, or end the process.
  \<^item> \<^theory_text>\<open>Loop_Pool\<close>, \<^theory_text>\<open>Socket_Api\<close>, \<^theory_text>\<open>Tcp_Server\<close>: the pool hands out loops in turn; the calls made
    for a socket; the accepter keeps to the high-water mark.
  \<^item> \<^theory_text>\<open>Time_Stamp\<close>, \<^theory_text>\<open>Timer_Heap\<close>, \<^theory_text>\<open>Timer_Queue\<close>: a binary heap with a contract as a locale, the
    timer queue over it, when it fires what, when it does not return. \<^theory_text>\<open>Block_Queue\<close>: the queue
    between threads, and atomic integers. \<^theory_text>\<open>Object_Text\<close>: time stamps and handlers as text.

  \<^bold>\<open>Bounds.\<close> Loops of the code are recursive functions with a termination proof, or partial
  functions where they may run for ever (the parser, \<^verbatim>\<open>handleTimer\<close>); for these it is proved when
  they return. Inputs of one parser call have less than \<open>2 ^ 64\<close> bytes, as \<^verbatim>\<open>size_t\<close> demands. The
  theorems on whole requests assume that they fit the header limit, which is a variable of the
  parser with the default 80 KiB.
\<close>

text \<open>
  \<^bold>\<open>Not modelled.\<close> The tests. The numbers in the report of \<^verbatim>\<open>bench.c\<close>. Logging (\<^verbatim>\<open>log.h\<close>, \<^verbatim>\<open>printRequest\<close>).
  The branches for Linux of \<^verbatim>\<open>tcp_connection.cpp\<close>, which use names that are not
  declared. The other destructors, \<^verbatim>\<open>main.cpp\<close>, the creation of threads. The date of a response, which
  \<^verbatim>\<open>strftime\<close> makes, is a parameter. A request whose headers have a meaning for the parser
  other than \<^verbatim>\<open>Content-Length\<close> (an upgrade, chunks) is covered by the theorems on safety, on reads of
  any size and on header names, not by those on whole requests.
\<close>

end
